(* ===== verification/Prelude.thy ===== *)
theory Prelude
  imports Main "HOL-Library.Word"
begin

text \<open>
  What every theory of the development shares: the outcome of a Go function
  (a value, an error value, or a run-time panic), the sentinel errors of all
  packages, Go strings and byte slices, and generic lemmas on lists.

  A Go \<open>string\<close> is a sequence of bytes, and so is HOL's \<^typ>\<open>string\<close>: a
  \<^typ>\<open>char\<close> has exactly eight bits.  A \<open>[]byte\<close> is a list of 8-bit words;
  \<open>bytes_of\<close> and \<open>string_of\<close> are the conversions \<open>[]byte(s)\<close> and \<open>string(b)\<close>.
\<close>

section \<open>Outcomes and errors\<close>

text \<open>
  The sentinel errors of the packages (the package name is prefixed where two
  packages use one name), and the errors the packages get from the standard library.
  \<open>ErrBackend\<close> stands for any other error of a component behind an interface.
\<close>

datatype error =
    ErrInvalidChecksum                                   \<comment> \<open>address\<close>
  | DatastoreErrNotFound                                 \<comment> \<open>datastore\<close>
  | ErrDagAlreadyInitialized | ErrInvalidNodeTimestamp   \<comment> \<open>dag\<close>
  | ErrNodeNotFound | ErrPreviousNodeNotFound | ErrHeadNodeNotFound
  | ErrPreviousNodeIsNotHead | ErrAddressDoesNotMatchPubKey
  | ErrInvalidBranchSeq | ErrInvalidBranch | ErrBranchRootNotFound
  | ErrDefaultBranchNotSpecified | ErrUnableToDecodeNodeSignature
  | ErrUnableToDecodeNodePubKey | ErrNodeSignatureDoesNotMatch
  | ErrAlreadyInitialized | GraphErrNotFound             \<comment> \<open>graph\<close>
  | ErrPreviousNotFound | ErrReadOnly
  | ErrInvalidName | ErrInvalidAddrComponent             \<comment> \<open>resolver\<close>
  | ErrNoPrivateKey | ErrUnmanagedAddress | ResolverErrNotFound
  | ErrSignatureDoesNotMatch                           \<comment> \<open>message\<close>
  | ErrAddressNoKeys                                   \<comment> \<open>event\<close>
  | ErrContextDone                                     \<comment> \<open>context: the error of one that is done\<close>
  | ErrDeadlineExceeded
  | ErrHexLength | ErrHexInvalidByte nat                 \<comment> \<open>encoding/hex\<close>
  | ErrJson                                              \<comment> \<open>encoding/json\<close>
  | ErrCrypto                                            \<comment> \<open>crypto packages\<close>
  | ErrBackend nat
  | ErrText string                                       \<comment> \<open>\<^verbatim>\<open>fmt.Errorf\<close>, by the constant part of the text\<close>

datatype 'a result = Ok 'a | Err error | Panic

text \<open>Sequencing: an error or a panic ends the computation.\<close>

fun bind_result :: "'a result \<Rightarrow> ('a \<Rightarrow> 'b result) \<Rightarrow> 'b result" where
  "bind_result (Ok x) f = f x"
| "bind_result (Err e) f = Err e"
| "bind_result Panic f = Panic"

lemma bind_result_eq_Ok [simp]:
  "bind_result r f = Ok y \<longleftrightarrow> (\<exists>x. r = Ok x \<and> f x = Ok y)"
  by (cases r) auto

lemma bind_result_eq_Err:
  "bind_result r f = Err e \<longleftrightarrow> r = Err e \<or> (\<exists>x. r = Ok x \<and> f x = Err e)"
  by (cases r) auto

lemma bind_result_eq_Panic:
  "bind_result r f = Panic \<longleftrightarrow> r = Panic \<or> (\<exists>x. r = Ok x \<and> f x = Panic)"
  by (cases r) auto

text \<open>An error passed through a function that maps errors.\<close>

fun map_error :: "(error \<Rightarrow> error) \<Rightarrow> 'a result \<Rightarrow> 'a result" where
  "map_error g (Ok x) = Ok x"
| "map_error g (Err e) = Err (g e)"
| "map_error g Panic = Panic"

lemma map_error_bind:
  "map_error g (bind_result r f) = bind_result (map_error g r) (\<lambda>x. map_error g (f x))"
  by (cases r) auto

lemma bind_result_cong [fundef_cong]:
  "r = r' \<Longrightarrow> (\<And>x. r' = Ok x \<Longrightarrow> f x = f' x) \<Longrightarrow> bind_result r f = bind_result r' f'"
  by (cases r') auto

lemma map_error_eq_Ok [simp]: "map_error g r = Ok x \<longleftrightarrow> r = Ok x"
  by (cases r) auto

lemma map_error_eq_Err: "map_error g r = Err e \<longleftrightarrow> (\<exists>e'. r = Err e' \<and> e = g e')"
  by (cases r) auto

lemma map_error_eq_Panic [simp]: "map_error g r = Panic \<longleftrightarrow> r = Panic"
  by (cases r) auto

fun is_ok :: "'a result \<Rightarrow> bool" where
  "is_ok (Ok _) = True"
| "is_ok _ = False"

lemma is_ok_iff: "is_ok r \<longleftrightarrow> (\<exists>x. r = Ok x)"
  by (cases r) auto

section \<open>Operations on a state\<close>

text \<open>
  An operation that may change a state of type \<open>'w\<close> takes the state and gives its outcome
  with the state it leaves; a failed operation leaves a state too.
\<close>

type_synonym ('a, 'w) io = "'w \<Rightarrow> 'a result \<times> 'w"

definition return_io :: "'a \<Rightarrow> ('a, 'w) io" where
  "return_io x w = (Ok x, w)"

definition fail_io :: "error \<Rightarrow> ('a, 'w) io" where
  "fail_io e w = (Err e, w)"

definition bind_io :: "('a, 'w) io \<Rightarrow> ('a \<Rightarrow> ('b, 'w) io) \<Rightarrow> ('b, 'w) io" where
  "bind_io m f w = (case m w of
     (Ok x, w') \<Rightarrow> f x w' | (Err e, w') \<Rightarrow> (Err e, w') | (Panic, w') \<Rightarrow> (Panic, w'))"

text \<open>An outcome that depends on the state and leaves it alone.\<close>

definition read_io :: "('w \<Rightarrow> 'a result) \<Rightarrow> ('a, 'w) io" where
  "read_io f w = (f w, w)"

definition map_error_io :: "(error \<Rightarrow> error) \<Rightarrow> ('a, 'w) io \<Rightarrow> ('a, 'w) io" where
  "map_error_io g m w = (case m w of (r, w') \<Rightarrow> (map_error g r, w'))"

text \<open>Whether an operation succeeds, where the code goes on in either case.\<close>

definition attempt :: "('a, 'w) io \<Rightarrow> (bool, 'w) io" where
  "attempt m w = (case m w of
     (Ok _, w') \<Rightarrow> (Ok True, w') | (Err _, w') \<Rightarrow> (Ok False, w') | (Panic, w') \<Rightarrow> (Panic, w'))"

lemma attempt_eq_Ok: "attempt m w = (Ok b, w') \<longleftrightarrow> (\<exists>r. m w = (r, w') \<and> r \<noteq> Panic \<and> b = is_ok r)"
  by (auto simp: attempt_def split: prod.splits result.splits)

lemmas io_defs = return_io_def fail_io_def bind_io_def read_io_def map_error_io_def

lemma bind_io_eq_Ok:
  "bind_io m f w = (Ok y, w'') \<longleftrightarrow> (\<exists>x w'. m w = (Ok x, w') \<and> f x w' = (Ok y, w''))"
  by (auto simp: bind_io_def split: prod.splits result.splits)

lemma map_error_io_eq_Ok [simp]: "map_error_io g m w = (Ok x, w') \<longleftrightarrow> m w = (Ok x, w')"
  by (auto simp: map_error_io_def split: prod.splits)

lemma read_io_eq [simp]: "read_io f w = (r, w') \<longleftrightarrow> f w = r \<and> w' = w"
  by (auto simp: read_io_def)

lemma return_io_eq [simp]: "return_io x w = (r, w') \<longleftrightarrow> r = Ok x \<and> w' = w"
  by (auto simp: return_io_def)

lemma fail_io_eq [simp]: "fail_io e w = (r, w') \<longleftrightarrow> r = Err e \<and> w' = w"
  by (auto simp: fail_io_def)

text \<open>An operation that keeps a property of the state, however it ends.\<close>

definition keeps :: "('w \<Rightarrow> bool) \<Rightarrow> ('a, 'w) io \<Rightarrow> bool" where
  "keeps P m \<longleftrightarrow> (\<forall>w r w'. P w \<longrightarrow> m w = (r, w') \<longrightarrow> P w')"

lemma keepsD: "keeps P m \<Longrightarrow> P w \<Longrightarrow> m w = (r, w') \<Longrightarrow> P w'"
  unfolding keeps_def by blast

named_theorems keeps_intros

lemma keeps_basic [keeps_intros]:
  "keeps P (return_io x)" "keeps P (fail_io e)" "keeps P (read_io f)"
  by (auto simp: keeps_def io_defs)

lemma keeps_bind [keeps_intros]: "keeps P m \<Longrightarrow> (\<And>x. keeps P (f x)) \<Longrightarrow> keeps P (bind_io m f)"
proof (unfold keeps_def, intro allI impI)
  fix w r w'
  assume m: "\<forall>w r w'. P w \<longrightarrow> m w = (r, w') \<longrightarrow> P w'" and f: "\<And>x. \<forall>w r w'. P w \<longrightarrow> f x w = (r, w') \<longrightarrow> P w'"
    and w: "P w" and run: "bind_io m f w = (r, w')"
  obtain r1 w1 where m1: "m w = (r1, w1)" by (cases "m w")
  with m w have w1: "P w1" by simp
  show "P w'"
  proof (cases r1)
    case (Ok x)
    with run m1 have "f x w1 = (r, w')" by (simp add: bind_io_def)
    with f [of x] w1 show ?thesis by simp
  qed (use run m1 w1 in \<open>simp_all add: bind_io_def\<close>)
qed

lemma keeps_error [keeps_intros]: "keeps P m \<Longrightarrow> keeps P (map_error_io g m)" "keeps P m \<Longrightarrow> keeps P (attempt m)"
  unfolding keeps_def map_error_io_def attempt_def by (auto split: prod.splits result.splits)

lemma keeps_if [keeps_intros]: "(b \<Longrightarrow> keeps P m) \<Longrightarrow> (\<not> b \<Longrightarrow> keeps P m') \<Longrightarrow> keeps P (if b then m else m')"
  by simp

section \<open>Encodings\<close>

text \<open>
  The interface of every encoder and decoder pair of the program (hexadecimal, Base58,
  Base64, the JSON of nodes): what it encodes, it decodes to itself, for all values or for
  those that satisfy a condition.  It follows that two such values never share a code.
\<close>

locale partial_encoding =
  fixes enc :: "'a \<Rightarrow> 'b result"
    and dec :: "'b \<Rightarrow> 'a result"
    and ok :: "'a \<Rightarrow> bool"
  assumes dec_enc_ok: "ok x \<Longrightarrow> enc x = Ok y \<Longrightarrow> dec y = Ok x"
begin

lemma enc_inj_ok: "ok x \<Longrightarrow> ok x' \<Longrightarrow> enc x = Ok y \<Longrightarrow> enc x' = Ok y \<Longrightarrow> x = x'"
  using dec_enc_ok [of x y] dec_enc_ok [of x' y] by simp

end

locale encoding = partial_encoding enc dec "\<lambda>_. True"
  for enc :: "'a \<Rightarrow> 'b result" and dec :: "'b \<Rightarrow> 'a result"
begin

lemma dec_enc: "enc x = Ok y \<Longrightarrow> dec y = Ok x"
  by (rule dec_enc_ok [OF TrueI])

lemma enc_inj: "enc x = Ok y \<Longrightarrow> enc x' = Ok y \<Longrightarrow> x = x'"
  by (rule enc_inj_ok [OF TrueI TrueI])

end

section \<open>Strings and byte slices\<close>

type_synonym byte = "8 word"
type_synonym bytes = "byte list"

definition byte_of :: "char \<Rightarrow> byte" where
  "byte_of c = of_char c"

definition char_of_byte :: "byte \<Rightarrow> char" where
  "char_of_byte b = char_of (unat b)"

definition bytes_of :: "string \<Rightarrow> bytes" where
  "bytes_of s = map byte_of s"

definition string_of :: "bytes \<Rightarrow> string" where
  "string_of bs = map char_of_byte bs"

lemma unat_byte_less [simp]: "unat (b :: byte) < 256"
proof -
  have "unat b < 2 ^ LENGTH(8)" by (rule unsigned_less)
  then show ?thesis by simp
qed

lemma unat_byte_of: "unat (byte_of c) = of_char c"
  by (simp add: byte_of_def of_char_def unat_of_nat)

lemma char_of_byte_of [simp]: "char_of_byte (byte_of c) = c"
  by (simp add: char_of_byte_def unat_byte_of)

lemma byte_of_char_of_byte [simp]: "byte_of (char_of_byte b) = b"
proof -
  have "unat (byte_of (char_of_byte b)) = unat b mod 256"
    by (simp add: unat_byte_of char_of_byte_def)
  also have "\<dots> = unat b"
    by simp
  finally show ?thesis
    by (simp add: word_unat_eq_iff)
qed

lemma byte_of_eq_iff [simp]: "byte_of c = byte_of d \<longleftrightarrow> c = d"
  by (metis char_of_byte_of)

lemma string_of_bytes_of [simp]: "string_of (bytes_of s) = s"
  by (simp add: string_of_def bytes_of_def o_def)

lemma bytes_of_string_of [simp]: "bytes_of (string_of bs) = bs"
  by (simp add: string_of_def bytes_of_def o_def)

lemma bytes_of_eq_iff [simp]: "bytes_of s = bytes_of t \<longleftrightarrow> s = t"
  by (metis string_of_bytes_of)

lemma string_of_eq_iff [simp]: "string_of s = string_of t \<longleftrightarrow> s = t"
  by (metis bytes_of_string_of)

lemma bytes_of_simps [simp]:
  "bytes_of [] = []" "bytes_of (c # s) = byte_of c # bytes_of s"
  "bytes_of (s @ t) = bytes_of s @ bytes_of t"
  by (simp_all add: bytes_of_def)

lemma string_of_simps [simp]:
  "string_of [] = []" "string_of (b # bs) = char_of_byte b # string_of bs"
  "string_of (bs @ cs) = string_of bs @ string_of cs"
  by (simp_all add: string_of_def)

lemma length_bytes_of [simp]: "length (bytes_of s) = length s"
  by (simp add: bytes_of_def)

lemma length_string_of [simp]: "length (string_of s) = length s"
  by (simp add: string_of_def)

lemma set_bytes_of: "set (bytes_of s) = byte_of ` set s"
  by (simp add: bytes_of_def)

lemma bytes_of_eq_Nil_iff [simp]: "bytes_of s = [] \<longleftrightarrow> s = []"
  by (simp add: bytes_of_def)

lemma string_of_eq_Nil_iff [simp]: "string_of s = [] \<longleftrightarrow> s = []"
  by (simp add: string_of_def)

end
