(* ===== verification/Radix.thy ===== *)
theory Radix
  imports Prelude
begin

text \<open>
  Positional number systems, and the part of \<^verbatim>\<open>math/big\<close> the packages use.
  \<open>digits b n\<close> are the big-endian base-\<open>b\<close> digits of \<open>n\<close>, none for 0;
  \<open>undigits b\<close> reads them back.  \<open>SetBytes\<close> and \<open>BigBytes\<close> are the methods
  \<^verbatim>\<open>SetBytes\<close> and \<^verbatim>\<open>Bytes\<close> of \<^verbatim>\<open>big.Int\<close>: the unsigned big-endian value of a
  byte slice, and the shortest big-endian byte slice of a value.
\<close>

section \<open>Digits in a base\<close>

function digits :: "nat \<Rightarrow> nat \<Rightarrow> nat list" where
  "digits b n = (if n = 0 \<or> b \<le> 1 then [] else digits b (n div b) @ [n mod b])"
  by pat_completeness auto
termination
  by (relation "measure (\<lambda>(b, n). n)") (auto intro!: div_less_dividend)

declare digits.simps [simp del]

definition undigits :: "nat \<Rightarrow> nat list \<Rightarrow> nat" where
  "undigits b ds = foldl (\<lambda>n d. n * b + d) 0 ds"

lemma digits_0 [simp]: "digits b 0 = []"
  by (simp add: digits.simps)

lemma digits_step: "1 < b \<Longrightarrow> 0 < n \<Longrightarrow> digits b n = digits b (n div b) @ [n mod b]"
  by (subst digits.simps) simp

lemma undigits_Nil [simp]: "undigits b [] = 0"
  by (simp add: undigits_def)

lemma undigits_snoc [simp]: "undigits b (ds @ [d]) = undigits b ds * b + d"
  by (simp add: undigits_def)

lemma undigits_0_Cons [simp]: "undigits b (0 # ds) = undigits b ds"
  by (simp add: undigits_def)

lemma undigits_replicate_0 [simp]: "undigits b (replicate k 0 @ ds) = undigits b ds"
  by (induction k) simp_all

lemma undigits_digits: "1 < b \<Longrightarrow> undigits b (digits b n) = n"
proof (induction b n rule: digits.induct)
  case (1 b n)
  then show ?case
    by (cases "n = 0") (simp_all add: digits_step)
qed

lemma digits_less: "1 < b \<Longrightarrow> d \<in> set (digits b n) \<Longrightarrow> d < b"
proof (induction b n rule: digits.induct)
  case (1 b n)
  then show ?case
    by (cases "n = 0") (auto simp: digits_step)
qed

lemma digits_undigits_pos:
  "1 < b \<Longrightarrow> \<forall>d \<in> set ds. d < b \<Longrightarrow> ds \<noteq> [] \<Longrightarrow> hd ds \<noteq> 0 \<Longrightarrow>
     0 < undigits b ds \<and> digits b (undigits b ds) = ds"
proof (induction ds rule: rev_induct)
  case Nil
  then show ?case by simp
next
  case (snoc d ds)
  show ?case
  proof (cases "ds = []")
    case True
    with snoc.prems have "0 < d" "d < b" by auto
    then show ?thesis
      using True snoc.prems(1) by (simp add: undigits_def digits_step)
  next
    case False
    with snoc have IH: "0 < undigits b ds" "digits b (undigits b ds) = ds" and "d < b"
      by auto
    then have "(undigits b ds * b + d) div b = undigits b ds" "(undigits b ds * b + d) mod b = d"
      by simp_all
    moreover have "0 < undigits b ds * b + d"
      using IH(1) snoc.prems(1) by simp
    ultimately show ?thesis
      using IH snoc.prems(1) by (simp add: digits_step)
  qed
qed

text \<open>Reading digits and writing them again drops the leading zeros.\<close>

lemma digits_undigits:
  assumes "1 < b" and "\<forall>d \<in> set ds. d < b"
  shows "digits b (undigits b ds) = dropWhile (\<lambda>d. d = 0) ds"
  using assms(2)
proof (induction ds)
  case Nil
  then show ?case by simp
next
  case (Cons d ds)
  show ?case
  proof (cases "d = 0")
    case True
    with Cons show ?thesis by simp
  next
    case False
    with digits_undigits_pos [OF assms(1), of "d # ds"] Cons.prems show ?thesis
      by simp
  qed
qed

lemma undigits_eq_0_iff:
  assumes "1 < b" and "\<forall>d \<in> set ds. d < b"
  shows "undigits b ds = 0 \<longleftrightarrow> (\<forall>d \<in> set ds. d = 0)"
proof -
  have "undigits b ds = 0 \<longleftrightarrow> digits b (undigits b ds) = []"
    using undigits_digits [OF assms(1), of "undigits b ds"] by auto
  then show ?thesis
    by (simp add: digits_undigits [OF assms] dropWhile_eq_Nil_conv)
qed

lemma undigits_bound:
  "1 < b \<Longrightarrow> \<forall>d \<in> set ds. d < b \<Longrightarrow> undigits b ds < b ^ length ds"
proof (induction ds rule: rev_induct)
  case Nil
  then show ?case by simp
next
  case (snoc d ds)
  then have "undigits b ds + 1 \<le> b ^ length ds" and "d < b" by auto
  then have "(undigits b ds + 1) * b \<le> b ^ length ds * b"
    by (intro mult_le_mono1)
  with \<open>d < b\<close> have "undigits b ds * b + d < b ^ length ds * b"
    by simp
  then show ?case by (simp add: mult.commute)
qed

lemma length_digits_le: "1 < b \<Longrightarrow> n < b ^ k \<Longrightarrow> length (digits b n) \<le> k"
proof (induction k arbitrary: n)
  case 0
  then show ?case by simp
next
  case (Suc k)
  show ?case
  proof (cases "n = 0")
    case False
    have "n div b < b ^ k"
      using Suc.prems by (intro less_mult_imp_div_less) (simp add: mult.commute)
    then show ?thesis
      using Suc False by (simp add: digits_step)
  qed simp
qed

section \<open>Big-endian byte slices\<close>

definition SetBytes :: "bytes \<Rightarrow> nat" where
  "SetBytes bs = foldl (\<lambda>n b. n * 256 + unat b) 0 bs"

definition BigBytes :: "nat \<Rightarrow> bytes" where
  "BigBytes n = map of_nat (digits 256 n)"

lemma SetBytes_undigits: "SetBytes bs = undigits 256 (map unat bs)"
  by (simp add: SetBytes_def undigits_def foldl_map)

lemma SetBytes_Nil [simp]: "SetBytes [] = 0"
  by (simp add: SetBytes_def)

lemma map_unat_of_nat: "\<forall>d \<in> set ds. d < 256 \<Longrightarrow> map (unat \<circ> (of_nat :: nat \<Rightarrow> byte)) ds = ds"
  by (induction ds) (auto simp: unat_of_nat)

lemma map_of_nat_unat [simp]: "map (of_nat \<circ> unat) bs = (bs :: bytes)"
  by (induction bs) simp_all

lemma SetBytes_BigBytes [simp]: "SetBytes (BigBytes n) = n"
proof -
  have "\<forall>d \<in> set (digits 256 n). d < 256"
    using digits_less [of 256] by auto
  then show ?thesis
    by (simp add: SetBytes_undigits BigBytes_def map_unat_of_nat undigits_digits)
qed

lemma SetBytes_0_Cons [simp]: "SetBytes (0 # bs) = SetBytes bs"
  by (simp add: SetBytes_undigits)

lemma SetBytes_replicate_0 [simp]: "SetBytes (replicate k 0 @ bs) = SetBytes bs"
  by (induction k) simp_all

lemma BigBytes_SetBytes: "BigBytes (SetBytes bs) = dropWhile (\<lambda>b. b = 0) bs"
proof -
  have "digits 256 (SetBytes bs) = dropWhile (\<lambda>d. d = 0) (map unat bs)"
    unfolding SetBytes_undigits by (rule digits_undigits) auto
  then show ?thesis
    by (simp add: BigBytes_def dropWhile_map o_def unat_eq_0 list.map_ident)
qed

lemma SetBytes_eq_0_iff: "SetBytes bs = 0 \<longleftrightarrow> (\<forall>b \<in> set bs. b = 0)"
  unfolding SetBytes_undigits by (subst undigits_eq_0_iff) (auto simp: unat_eq_0)

lemma SetBytes_bound: "SetBytes bs < 256 ^ length bs"
  using undigits_bound [of 256 "map unat bs"] by (simp add: SetBytes_undigits)

lemma BigBytes_hd:
  assumes "0 < n"
  obtains c cs where "BigBytes n = c # cs" and "c \<noteq> 0"
proof (cases "BigBytes n")
  case Nil
  with assms show ?thesis by (metis SetBytes_BigBytes SetBytes_Nil less_irrefl)
next
  case (Cons c cs)
  have "dropWhile (\<lambda>b. b = 0) (c # cs) = c # cs"
    by (metis BigBytes_SetBytes Cons SetBytes_BigBytes)
  then have "c \<noteq> 0"
    by (metis (mono_tags, lifting) dropWhile.simps(2) length_Cons length_dropWhile_le not_less_eq_eq order_refl)
  with Cons that show ?thesis by blast
qed

lemma length_BigBytes_le: "n < 256 ^ k \<Longrightarrow> length (BigBytes n) \<le> k"
  by (simp add: BigBytes_def length_digits_le)

end
