(* ===== verification/Base58.thy ===== *)
theory Base58
  imports Radix
begin

text \<open>
  \<^verbatim>\<open>address/base58.go\<close>: Base58 encoding and decoding of byte slices.  Both functions
  walk their input with an index that is not compared with its length, so both
  end in a run-time panic on some inputs; the outcome says so.
\<close>

section \<open>The code\<close>

definition b58Alphabet :: bytes where
  "b58Alphabet = bytes_of ''123456789ABCDEFGHJKLMNPQRSTUVWXYZabcdefghijkmnopqrstuvwxyz''"

text \<open>The loop \<open>for x.Cmp(zero) != 0\<close>: one digit per round, least significant first.\<close>

function encode_digits :: "nat \<Rightarrow> bytes \<Rightarrow> bytes" where
  "encode_digits x result =
     (if x = 0 then result
      else encode_digits (x div length b58Alphabet)
             (result @ [b58Alphabet ! (x mod length b58Alphabet)]))"
  by pat_completeness auto
termination
  by (relation "measure fst") (auto simp: b58Alphabet_def intro!: div_less_dividend)

declare encode_digits.simps [simp del]

text \<open>The loop \<open>for input[i] == 0x00\<close>, on the suffix \<open>input[i:]\<close>; no element, no index.\<close>

fun encode_zeros :: "bytes \<Rightarrow> bytes \<Rightarrow> bytes result" where
  "encode_zeros [] result = Panic"
| "encode_zeros (b # input) result =
     (if b = 0 then encode_zeros input (result @ [b58Alphabet ! 0]) else Ok result)"

text \<open>\<open>ReverseBytes\<close>: the slice is reversed in place by swaps from both ends.\<close>

function reverse_loop :: "nat \<Rightarrow> nat \<Rightarrow> bytes \<Rightarrow> bytes" where
  "reverse_loop i j data =
     (if i < j then reverse_loop (i + 1) (j - 1) (data[i := data ! j, j := data ! i]) else data)"
  by pat_completeness auto
termination
  by (relation "measure (\<lambda>(i, j, data). j - i)") auto

declare reverse_loop.simps [simp del]

definition ReverseBytes :: "bytes \<Rightarrow> bytes" where
  "ReverseBytes data = reverse_loop 0 (length data - 1) data"

definition Base58Encode :: "bytes \<Rightarrow> bytes result" where
  "Base58Encode input =
     bind_result (encode_zeros input (encode_digits (SetBytes input) []))
       (\<lambda>result. Ok (ReverseBytes result))"

text \<open>\<open>bytes.IndexByte\<close>: the first index of a byte, or -1.\<close>

fun index_from :: "int \<Rightarrow> bytes \<Rightarrow> byte \<Rightarrow> int" where
  "index_from i [] c = -1"
| "index_from i (b # bs) c = (if b = c then i else index_from (i + 1) bs c)"

definition IndexByte :: "bytes \<Rightarrow> byte \<Rightarrow> int" where
  "IndexByte bs c = index_from 0 bs c"

text \<open>The loop over the input; the result is a \<^verbatim>\<open>big.Int\<close> and may become negative.\<close>

fun decode_digits :: "bytes \<Rightarrow> int \<Rightarrow> int" where
  "decode_digits [] result = result"
| "decode_digits (b # input) result =
     decode_digits input (result * 58 + IndexByte b58Alphabet b)"

fun decode_ones :: "bytes \<Rightarrow> bytes \<Rightarrow> bytes result" where
  "decode_ones [] decoded = Panic"
| "decode_ones (b # input) decoded =
     (if b = b58Alphabet ! 0 then decode_ones input ([0] @ decoded) else Ok decoded)"

text \<open>\<open>big.Int.Bytes\<close> is the absolute value.\<close>

definition Base58Decode :: "bytes \<Rightarrow> bytes result" where
  "Base58Decode input = decode_ones input (BigBytes (nat \<bar>decode_digits input 0\<bar>))"

section \<open>The alphabet\<close>

lemma length_b58Alphabet [simp]: "length b58Alphabet = 58"
  by (simp add: b58Alphabet_def)

lemma b58Alphabet_0: "b58Alphabet ! 0 = byte_of CHR ''1''"
  by (simp add: b58Alphabet_def)

lemma distinct_b58Alphabet: "distinct b58Alphabet"
  unfolding b58Alphabet_def bytes_of_def distinct_map by (simp add: inj_on_def)

lemma index_from_nth:
  "distinct bs \<Longrightarrow> k < length bs \<Longrightarrow> index_from i bs (bs ! k) = i + int k"
proof (induction bs arbitrary: i k)
  case (Cons b bs)
  then show ?case by (cases k) (auto simp: nth_eq_iff_index_eq)
qed simp

lemma index_from_absent: "c \<notin> set bs \<Longrightarrow> index_from i bs c = -1"
  by (induction bs arbitrary: i) auto

lemma IndexByte_alphabet [simp]: "d < 58 \<Longrightarrow> IndexByte b58Alphabet (b58Alphabet ! d) = int d"
  by (simp add: IndexByte_def index_from_nth distinct_b58Alphabet)

lemma IndexByte_absent: "c \<notin> set b58Alphabet \<Longrightarrow> IndexByte b58Alphabet c = -1"
  by (simp add: IndexByte_def index_from_absent)

lemma b58Alphabet_nth_eq_iff:
  "d < 58 \<Longrightarrow> e < 58 \<Longrightarrow> b58Alphabet ! d = b58Alphabet ! e \<longleftrightarrow> d = e"
  by (simp add: nth_eq_iff_index_eq distinct_b58Alphabet)

definition b58_chars :: "nat list \<Rightarrow> bytes" where
  "b58_chars ds = map (\<lambda>d. b58Alphabet ! d) ds"

lemma alphabet_word:
  assumes "set s \<subseteq> set b58Alphabet"
  obtains ds where "s = b58_chars ds" and "\<forall>d \<in> set ds. d < 58"
proof -
  have "\<exists>ds. s = b58_chars ds \<and> (\<forall>d \<in> set ds. d < 58)"
    using assms
  proof (induction s)
    case Nil
    then show ?case by (simp add: b58_chars_def)
  next
    case (Cons c s)
    then obtain ds where ds: "s = b58_chars ds" "\<forall>d \<in> set ds. d < 58" by auto
    from Cons.prems obtain d where "d < 58" "c = b58Alphabet ! d"
      by (auto simp: in_set_conv_nth)
    with ds show ?case by (intro exI [of _ "d # ds"]) (auto simp: b58_chars_def)
  qed
  then show ?thesis using that by blast
qed

section \<open>What the loops compute\<close>

lemma encode_digits_eq:
  "encode_digits x result = result @ rev (b58_chars (digits 58 x))"
proof (induction x result rule: encode_digits.induct)
  case (1 x result)
  show ?case
  proof (cases "x = 0")
    case True
    then show ?thesis by (simp add: encode_digits.simps b58_chars_def)
  next
    case False
    with 1 show ?thesis
      by (subst encode_digits.simps) (simp add: digits_step b58_chars_def)
  qed
qed

lemma encode_zeros_eq:
  "encode_zeros (replicate k 0 @ b # bs) result =
     (if b = 0 then encode_zeros bs (result @ replicate (Suc k) (b58Alphabet ! 0))
      else Ok (result @ replicate k (b58Alphabet ! 0)))"
  by (induction k arbitrary: result) (auto simp: replicate_append_same)

lemma encode_zeros_all_0: "\<forall>b \<in> set bs. b = 0 \<Longrightarrow> encode_zeros bs result = Panic"
  by (induction bs arbitrary: result) auto

lemma decode_ones_eq:
  "b \<noteq> b58Alphabet ! 0 \<Longrightarrow>
   decode_ones (replicate k (b58Alphabet ! 0) @ b # s) decoded = Ok (replicate k 0 @ decoded)"
  by (induction k arbitrary: decoded) (auto simp: replicate_app_Cons_same)

lemma decode_ones_Panic_iff:
  "decode_ones s decoded = Panic \<longleftrightarrow> (\<forall>b \<in> set s. b = b58Alphabet ! 0)"
  by (induction s arbitrary: decoded) auto

lemma decode_digits_append:
  "decode_digits (s @ t) r = decode_digits t (decode_digits s r)"
  by (induction s arbitrary: r) auto

lemma decode_digits_b58_chars:
  "\<forall>d \<in> set ds. d < 58 \<Longrightarrow> decode_digits (b58_chars ds) 0 = int (undigits 58 ds)"
proof (induction ds rule: rev_induct)
  case Nil
  then show ?case by (simp add: b58_chars_def)
next
  case (snoc d ds)
  then show ?case by (simp add: b58_chars_def decode_digits_append)
qed

text \<open>The swap loop reverses: positions outside \<open>i..j\<close> are already in place.\<close>

lemma reverse_loop_length [simp]: "length (reverse_loop i j data) = length data"
proof (induction i j data rule: reverse_loop.induct)
  case (1 i j data)
  then show ?case by (subst reverse_loop.simps) auto
qed

lemma reverse_loop_nth:
  "j < length data \<Longrightarrow> k < length data \<Longrightarrow>
   reverse_loop i j data ! k = (if i \<le> k \<and> k \<le> j then data ! (i + j - k) else data ! k)"
proof (induction i j data arbitrary: k rule: reverse_loop.induct)
  case (1 i j data)
  show ?case
  proof (cases "i < j")
    case True
    let ?d = "data[i := data ! j, j := data ! i]"
    have "reverse_loop i j data ! k = reverse_loop (i + 1) (j - 1) ?d ! k"
      using True by (subst reverse_loop.simps) simp
    also have "\<dots> = (if i + 1 \<le> k \<and> k \<le> j - 1 then ?d ! (i + 1 + (j - 1) - k) else ?d ! k)"
      using 1 True by simp
    finally show ?thesis
      using True 1(2,3) by (auto simp: nth_list_update)
  next
    case False
    then have "i \<le> k \<and> k \<le> j \<longrightarrow> i + j - k = k" by linarith
    with False show ?thesis by (subst reverse_loop.simps) auto
  qed
qed

lemma ReverseBytes_eq_rev: "ReverseBytes data = rev data"
proof (cases "data = []")
  case True
  then show ?thesis by (simp add: ReverseBytes_def reverse_loop.simps)
next
  case False
  show ?thesis
  proof (rule nth_equalityI)
    fix k assume "k < length (ReverseBytes data)"
    then have "k < length data" "k \<le> length data - 1" by (auto simp: ReverseBytes_def)
    with False show "ReverseBytes data ! k = rev data ! k"
      by (simp add: ReverseBytes_def reverse_loop_nth rev_nth)
  qed (simp add: ReverseBytes_def)
qed

section \<open>Encoding and decoding\<close>

lemma leading_zeros:
  assumes "\<not> (\<forall>b \<in> set bs. b = (z :: 'a))"
  obtains k b cs where "bs = replicate k z @ b # cs" and "b \<noteq> z"
  using assms
proof (induction bs arbitrary: thesis)
  case (Cons c bs)
  show ?case
  proof (cases "c = z")
    case True
    with Cons.prems(2) have "\<not> (\<forall>b \<in> set bs. b = z)" by auto
    then obtain k b cs where "bs = replicate k z @ b # cs" "b \<noteq> z" using Cons.IH by blast
    with True show ?thesis by (intro Cons.prems(1) [of "Suc k"]) auto
  next
    case False
    then show ?thesis by (intro Cons.prems(1) [of 0]) auto
  qed
qed simp

lemma Base58Encode_zeros: "\<forall>b \<in> set bs. b = 0 \<Longrightarrow> Base58Encode bs = Panic"
  by (simp add: Base58Encode_def encode_zeros_all_0)

lemma Base58Encode_eq:
  assumes "b \<noteq> 0"
  shows "Base58Encode (replicate k 0 @ b # bs) =
    Ok (b58_chars (replicate k 0 @ digits 58 (SetBytes (b # bs))))"
  using assms
  by (simp add: Base58Encode_def encode_zeros_eq encode_digits_eq ReverseBytes_eq_rev
      b58_chars_def map_replicate)

lemma Base58Decode_Panic_iff:
  "Base58Decode s = Panic \<longleftrightarrow> (\<forall>c \<in> set s. c = b58Alphabet ! 0)"
  by (simp add: Base58Decode_def decode_ones_Panic_iff)

lemma Base58Decode_not_Err: "Base58Decode s \<noteq> Err e"
proof -
  have "decode_ones s decoded \<noteq> Err e" for decoded
    by (induction s arbitrary: decoded) auto
  then show ?thesis by (simp add: Base58Decode_def)
qed

lemma Base58Encode_Ok: "\<not> (\<forall>b \<in> set bs. b = 0) \<Longrightarrow> \<exists>e. Base58Encode bs = Ok e"
  by (erule leading_zeros) (simp add: Base58Encode_eq)

lemma set_encode_digits: "set (encode_digits x r) \<subseteq> set r \<union> set b58Alphabet"
proof (induction x r rule: encode_digits.induct)
  case (1 x r)
  show ?case
  proof (cases "x = 0")
    case True
    then show ?thesis by (simp add: encode_digits.simps)
  next
    case False
    let ?d = "b58Alphabet ! (x mod length b58Alphabet)"
    have d: "?d \<in> set b58Alphabet" by (intro nth_mem) simp
    have "set (encode_digits x r) \<subseteq> set (r @ [?d]) \<union> set b58Alphabet"
      using 1 [OF False] by (subst encode_digits.simps) (simp only: False if_False)
    also have "\<dots> \<subseteq> set r \<union> set b58Alphabet"
      using d by (simp only: set_append) auto
    finally show ?thesis .
  qed
qed

lemma set_encode_zeros: "encode_zeros bs r = Ok e \<Longrightarrow> set e \<subseteq> set r \<union> set b58Alphabet"
proof (induction bs r rule: encode_zeros.induct)
  case (2 b bs r)
  have "b58Alphabet ! 0 \<in> set b58Alphabet" by (intro nth_mem) simp
  with 2 show ?case by (auto split: if_splits)
qed simp

lemma Base58Encode_alphabet: "Base58Encode bs = Ok e \<Longrightarrow> set e \<subseteq> set b58Alphabet"
  using set_encode_digits [of "SetBytes bs" "[]"]
  by (auto simp: Base58Encode_def ReverseBytes_eq_rev dest!: set_encode_zeros)

lemma b58_digits_hd:
  assumes "0 < n"
  obtains d ds where "digits 58 n = d # ds" and "0 < d" and "d < 58"
    and "\<forall>e \<in> set (d # ds). e < 58"
proof (cases "digits 58 n")
  case Nil
  with undigits_digits [of 58 n] assms show ?thesis by simp
next
  case (Cons d ds)
  have lt: "\<forall>e \<in> set (digits 58 n). e < 58" using digits_less [of 58] by auto
  have "dropWhile (\<lambda>d. d = 0) (digits 58 n) = digits 58 n"
    using digits_undigits [of 58 "digits 58 n"] lt by (simp add: undigits_digits)
  then have "d \<noteq> 0" using Cons by (auto simp: dropWhile_eq_Cons_conv split: if_splits)
  with that [OF Cons] lt Cons show ?thesis by auto
qed

lemma Base58Decode_eq:
  assumes "d \<noteq> 0" and "\<forall>e \<in> set (d # ds). e < 58"
  shows "Base58Decode (b58_chars (replicate k 0 @ d # ds)) =
    Ok (replicate k 0 @ BigBytes (undigits 58 (d # ds)))"
proof -
  have "decode_digits (b58_chars (replicate k 0 @ d # ds)) 0 = int (undigits 58 (d # ds))"
    using assms(2) by (subst decode_digits_b58_chars) auto
  moreover have "b58Alphabet ! d \<noteq> b58Alphabet ! 0"
    using assms by (subst b58Alphabet_nth_eq_iff) auto
  ultimately show ?thesis
    by (simp add: Base58Decode_def b58_chars_def map_replicate decode_ones_eq)
qed

lemma decode_encode: 
  assumes "Base58Encode bs = Ok e"
  shows "Base58Decode e = Ok bs"
proof -
  have "\<not> (\<forall>b \<in> set bs. b = 0)" using assms Base58Encode_zeros by fastforce
  then obtain k b cs where bs: "bs = replicate k 0 @ b # cs" "b \<noteq> 0" by (rule leading_zeros)
  then have "SetBytes (b # cs) \<noteq> 0" by (subst SetBytes_eq_0_iff) simp
  then have "0 < SetBytes (b # cs)" by (simp only: neq0_conv)
  then obtain d ds where ds: "digits 58 (SetBytes (b # cs)) = d # ds" "0 < d"
      "\<forall>e \<in> set (d # ds). e < 58" by (rule b58_digits_hd)
  have e: "e = b58_chars (replicate k 0 @ d # ds)"
    using assms bs ds(1) by (simp add: Base58Encode_eq)
  have "undigits 58 (d # ds) = SetBytes (b # cs)"
    using undigits_digits [of 58 "SetBytes (b # cs)"] ds(1) by simp
  moreover have "BigBytes (SetBytes (b # cs)) = b # cs"
    using bs(2) by (simp add: BigBytes_SetBytes)
  ultimately show ?thesis
    using ds by (simp add: e Base58Decode_eq bs(1))
qed

interpretation b58: encoding Base58Encode Base58Decode
  by unfold_locales (rule decode_encode)

lemma encode_decode:
  assumes "set s \<subseteq> set b58Alphabet" and "Base58Decode s = Ok bs"
  shows "Base58Encode bs = Ok s"
proof -
  obtain es where es: "s = b58_chars es" "\<forall>d \<in> set es. d < 58"
    using assms(1) by (rule alphabet_word)
  have "\<not> (\<forall>c \<in> set s. c = b58Alphabet ! 0)"
    using assms(2) Base58Decode_Panic_iff [of s] by auto
  then have "\<not> (\<forall>d \<in> set es. d = 0)"
    using es(1) by (auto simp: b58_chars_def) (metis neq0_conv)
  then obtain k d ds where ds: "es = replicate k 0 @ d # ds" "d \<noteq> 0" by (rule leading_zeros)
  let ?n = "undigits 58 (d # ds)"
  have lt: "\<forall>e \<in> set (d # ds). e < 58" using es(2) ds(1) by auto
  have bs: "bs = replicate k 0 @ BigBytes ?n"
    using assms(2) es(1) ds lt by (simp add: Base58Decode_eq)
  have n: "0 < ?n" "digits 58 ?n = d # ds"
    using digits_undigits_pos [of 58 "d # ds"] lt ds(2) by auto
  then obtain c cs where c: "BigBytes ?n = c # cs" "c \<noteq> 0"
    using BigBytes_hd by blast
  then have "SetBytes (c # cs) = ?n" by (metis SetBytes_BigBytes)
  then show ?thesis
    using bs c n(2) ds(1) es(1) by (simp add: Base58Encode_eq)
qed

text \<open>
  On every byte slice, encoding to Base58 and decoding again gives the slice back,
  leading zero bytes included.  The only inputs left out are those without a
  non-zero byte (the empty slice is one): on them the encoder indexes past the end.
\<close>

theorem base58_decode_encode:
  "bind_result (Base58Encode bs) Base58Decode = (if set bs \<subseteq> {0} then Panic else Ok bs)"
proof (cases "\<forall>b \<in> set bs. b = 0")
  case True
  then show ?thesis by (auto simp: Base58Encode_zeros)
next
  case False
  then obtain k b cs where "bs = replicate k 0 @ b # cs" "b \<noteq> 0" by (rule leading_zeros)
  then obtain e where "Base58Encode bs = Ok e" by (simp add: Base58Encode_eq)
  with False show ?thesis by (auto simp: b58.dec_enc)
qed

text \<open>
  On every text over the Base58 alphabet, decoding and encoding again gives the
  text back, leading ones included; on a text of ones only (or the empty text) the
  decoder indexes past the end.
\<close>

theorem base58_encode_decode:
  assumes "set s \<subseteq> set b58Alphabet"
  shows "bind_result (Base58Decode s) Base58Encode =
     (if \<forall>c \<in> set s. c = b58Alphabet ! 0 then Panic else Ok s)"
  using encode_decode [OF assms] Base58Decode_Panic_iff [of s] Base58Decode_not_Err [of s]
  by (cases "Base58Decode s") auto

theorem base58_encode_decode_witness:
  "bind_result (Base58Decode (bytes_of ''11St'')) Base58Encode = Ok (bytes_of ''11St'')"
proof -
  have "set (bytes_of ''11St'') \<subseteq> set b58Alphabet"
    by (simp add: b58Alphabet_def)
  from base58_encode_decode [OF this] show ?thesis
    by (simp add: b58Alphabet_def)
qed

text \<open>
  The decoder does not reject characters outside the alphabet.  Such a character
  counts as -1, so a text that ends in one decodes to the same bytes as another text
  over the alphabet alone.
\<close>

theorem base58_decode_alias:
  assumes "0 < d" and "d < 57" and "c \<notin> set b58Alphabet"
  shows "Base58Decode (s @ [b58Alphabet ! Suc d, c]) = Base58Decode (s @ [b58Alphabet ! d, byte_of CHR ''z''])"
proof -
  have z: "byte_of CHR ''z'' = b58Alphabet ! 57"
    by (simp add: b58Alphabet_def)
  have ones: "decode_ones (s @ [x, y]) dec = decode_ones (s @ [x', y']) dec"
    if "x \<noteq> b58Alphabet ! 0" "x' \<noteq> b58Alphabet ! 0" for x x' y y' dec
    using that by (induction s arbitrary: dec) auto
  have "decode_digits (s @ [b58Alphabet ! Suc d, c]) 0
      = decode_digits (s @ [b58Alphabet ! d, b58Alphabet ! 57]) 0"
    using assms by (simp add: decode_digits_append IndexByte_absent)
  moreover have "b58Alphabet ! Suc d \<noteq> b58Alphabet ! 0" "b58Alphabet ! d \<noteq> b58Alphabet ! 0"
    using assms by (auto simp: b58Alphabet_nth_eq_iff)
  ultimately show ?thesis
    unfolding z Base58Decode_def by (simp add: ones)
qed

theorem base58_decode_alias_witness:
  "Base58Decode (bytes_of ''1X0'') = Base58Decode (bytes_of ''1Wz'')"
proof -
  have "byte_of CHR ''0'' \<notin> set b58Alphabet"
    by (simp add: b58Alphabet_def)
  from base58_decode_alias [of 29, OF _ _ this, of "bytes_of ''1''"] show ?thesis
    by (simp add: b58Alphabet_def)
qed

end
