(* ===== verification/GoStd.thy ===== *)
theory GoStd
  imports Radix
begin

unbundle bit_operations_syntax

text \<open>
  The parts of Go's standard library that work on strings and that the packages
  use: \<^verbatim>\<open>encoding/hex\<close>, \<^verbatim>\<open>strconv.Itoa\<close>, \<^verbatim>\<open>strings.Split\<close> and \<^verbatim>\<open>strings.Join\<close>.
\<close>

section \<open>encoding/hex\<close>

definition hextable :: string where
  "hextable = ''0123456789abcdef''"

definition hex_byte :: "byte \<Rightarrow> string" where
  "hex_byte v = [hextable ! unat (drop_bit 4 v), hextable ! unat (v AND 15)]"

definition HexEncode :: "bytes \<Rightarrow> string" where
  "HexEncode src = concat (map hex_byte src)"

text \<open>The reverse table: a nibble for the sixteen digits in either case, else none.\<close>

definition hex_val :: "char \<Rightarrow> byte option" where
  "hex_val c = (let n = of_char c :: nat in
     if 48 \<le> n \<and> n \<le> 57 then Some (of_nat (n - 48))
     else if 97 \<le> n \<and> n \<le> 102 then Some (of_nat (n - 87))
     else if 65 \<le> n \<and> n \<le> 70 then Some (of_nat (n - 55))
     else None)"

text \<open>
  \<open>hex.DecodeString\<close> returns the bytes decoded before the first error together with
  the error.  The packages use the bytes in places where they ignore the error.
\<close>

fun HexDecode :: "string \<Rightarrow> bytes \<times> error option" where
  "HexDecode [] = ([], None)"
| "HexDecode [p] = (case hex_val p of
     None \<Rightarrow> ([], Some (ErrHexInvalidByte (of_char p)))
   | Some _ \<Rightarrow> ([], Some ErrHexLength))"
| "HexDecode (p # q # src) = (case hex_val p of
     None \<Rightarrow> ([], Some (ErrHexInvalidByte (of_char p)))
   | Some a \<Rightarrow> (case hex_val q of
       None \<Rightarrow> ([], Some (ErrHexInvalidByte (of_char q)))
     | Some b \<Rightarrow> (let (dst, er) = HexDecode src in ((push_bit 4 a OR b) # dst, er))))"

lemma length_HexEncode [simp]: "length (HexEncode bs) = 2 * length bs"
  by (induction bs) (auto simp: HexEncode_def hex_byte_def)

lemma HexEncode_eq_Nil_iff [simp]: "HexEncode bs = [] \<longleftrightarrow> bs = []"
  by (simp flip: length_0_conv)

lemma HexEncode_simps [simp]:
  "HexEncode [] = []" "HexEncode (b # bs) = hex_byte b @ HexEncode bs"
  by (simp_all add: HexEncode_def)

lemma hex_val_hextable: "n < 16 \<Longrightarrow> hex_val (hextable ! n) = Some (of_nat n)"
proof -
  assume n: "n < 16"
  have "map hex_val hextable = map (\<lambda>n. Some (of_nat n)) [0..<16]"
    by (simp add: hextable_def hex_val_def upt_rec)
  then have "map hex_val hextable ! n = map (\<lambda>n. Some (of_nat n)) [0..<16] ! n"
    by simp
  moreover have "length hextable = 16" by (simp add: hextable_def)
  ultimately show ?thesis using n by simp
qed

lemma nibble_bounds:
  "unat (drop_bit 4 (b :: byte)) < 16" "unat ((b :: byte) AND 15) < 16"
proof -
  have "unat (drop_bit 4 b) = drop_bit 4 (unat b)"
    by (simp add: unsigned_drop_bit_eq take_bit_nat_eq_self)
  also have "\<dots> = unat b div 16"
    by (simp add: drop_bit_eq_div)
  also have "\<dots> < 16" using unat_byte_less [of b] by linarith
  finally show "unat (drop_bit 4 b) < 16" .
  have "b AND 15 = take_bit 4 b"
    using take_bit_eq_mask [of 4 b] by (simp add: mask_numeral)
  then have "unat (b AND 15) = take_bit 4 (unat b)"
    by (simp add: unsigned_take_bit_eq)
  then have "unat (b AND 15) = unat b mod 16"
    by (simp add: take_bit_eq_mod)
  then show "unat (b AND 15) < 16" by simp
qed

lemma nibbles_join: "push_bit 4 (drop_bit 4 b) OR (b AND 15) = (b :: byte)"
proof -
  have "b AND 15 = take_bit 4 b"
    using take_bit_eq_mask [of 4 b] by (simp add: mask_numeral)
  then show ?thesis
    by (auto intro!: bit_word_eqI simp: bit_simps)
qed

lemma HexDecode_hex_byte:
  "HexDecode (hex_byte b @ s) = (let (dst, er) = HexDecode s in (b # dst, er))"
  by (simp add: hex_byte_def hex_val_hextable nibble_bounds nibbles_join)

lemma HexDecode_HexEncode [simp]: "HexDecode (HexEncode bs) = (bs, None)"
  by (induction bs) (simp_all add: HexDecode_hex_byte)

definition hex_decoded :: "string \<Rightarrow> bytes result" where
  "hex_decoded s = (case HexDecode s of (bs, None) \<Rightarrow> Ok bs | (_, Some er) \<Rightarrow> Err er)"

interpretation hex: encoding "\<lambda>bs. Ok (HexEncode bs)" hex_decoded
  by unfold_locales (auto simp: hex_decoded_def)

lemma HexEncode_inj [simp]: "HexEncode bs = HexEncode cs \<longleftrightarrow> bs = cs"
  by (auto intro: hex.enc_inj)

lemma set_HexEncode: "set (HexEncode bs) \<subseteq> set hextable"
proof (induction bs)
  case (Cons b bs)
  have "length hextable = 16" by (simp add: hextable_def)
  then have "set (hex_byte b) \<subseteq> set hextable"
    using nibble_bounds [of b] by (auto simp: hex_byte_def)
  with Cons show ?case by simp
qed simp

lemma slash_notin_HexEncode [simp]: "CHR ''/'' \<notin> set (HexEncode bs)"
  using set_HexEncode [of bs] by (auto simp: hextable_def)

section \<open>strconv.Itoa\<close>

definition digit_char :: "nat \<Rightarrow> char" where
  "digit_char d = char_of (48 + d)"

definition utoa :: "nat \<Rightarrow> string" where
  "utoa n = (if n = 0 then ''0'' else map digit_char (digits 10 n))"

definition Itoa :: "int \<Rightarrow> string" where
  "Itoa i = (if i < 0 then CHR ''-'' # utoa (nat (- i)) else utoa (nat i))"

section \<open>strings.Split and strings.Join\<close>

text \<open>\<open>strings.Split(s, sep)\<close> for a separator of one byte.\<close>

fun Split :: "string \<Rightarrow> char \<Rightarrow> string list" where
  "Split [] sep = [[]]"
| "Split (c # s) sep =
     (if c = sep then [] # Split s sep
      else (case Split s sep of p # ps \<Rightarrow> (c # p) # ps | [] \<Rightarrow> [[c]]))"

fun Join :: "string list \<Rightarrow> string \<Rightarrow> string" where
  "Join [] sep = []"
| "Join [s] sep = s"
| "Join (s # ss) sep = s @ sep @ Join ss sep"

lemma Split_neq_Nil [simp]: "Split s sep \<noteq> []"
  by (cases s) (auto split: list.splits)

lemma Split_no_sep: "sep \<notin> set s \<Longrightarrow> Split s sep = [s]"
  by (induction s) auto

lemma Split_append_sep:
  "sep \<notin> set s \<Longrightarrow> Split (s @ sep # t) sep = s # Split t sep"
  by (induction s) auto

lemma Split_append_sep_length: "2 \<le> length (Split (s @ sep # t) sep)"
proof (induction s)
  case Nil
  then show ?case by (cases "Split t sep") auto
next
  case (Cons c s)
  then show ?case by (auto split: list.splits)
qed

lemma Split_hd: "hd (Split (s @ sep # t) sep) = hd (Split s sep)"
proof (induction s)
  case (Cons c s)
  then show ?case
    by (cases "Split s sep"; cases "Split (s @ sep # t) sep") auto
qed simp

lemma Join_snoc: "ss \<noteq> [] \<Longrightarrow> Join (ss @ [s]) sep = Join ss sep @ sep @ s"
  by (induction ss sep rule: Join.induct) (auto simp: neq_Nil_conv)

lemma Join_Split: "Join (Split s sep) [sep] = s"
proof (induction s)
  case (Cons c s)
  then show ?case
    by (cases "Split s sep"; cases "tl (Split s sep)") auto
qed simp

text \<open>Two texts cut at the first separator agree piecewise.\<close>

lemma cut_at_sep:
  "sep \<notin> set a \<Longrightarrow> sep \<notin> set b \<Longrightarrow> a @ sep # s = b @ sep # t \<longleftrightarrow> a = b \<and> s = t"
proof (induction a arbitrary: b)
  case Nil
  then show ?case by (cases b) auto
next
  case (Cons c a)
  then show ?case by (cases b) auto
qed

end
