(* ===== verification/Crypto.thy ===== *)
theory Crypto
  imports GoStd
begin

text \<open>
  \<^verbatim>\<open>crypto/crypto.go\<close> and \<^verbatim>\<open>internal/util/bytes.go\<close>: signatures as fixed-width byte
  strings, and password encryption.

  The cryptographic algorithms themselves are parameters, collected in the record
  \<open>crypto_env\<close>: every theorem holds for all functions in these places, and what a
  theorem needs of them (that a signature verifies, that opening undoes sealing)
  is a named hypothesis.  Randomness is an explicit argument.
\<close>

section \<open>The cryptographic library\<close>

record ecdsa_key =
  keyD :: nat
  keyX :: nat
  keyY :: nat

record pem_block =
  pem_type :: string
  pem_headers :: "(string \<times> string) list"
  pem_bytes :: bytes

record crypto_env =
  sha256 :: "bytes \<Rightarrow> bytes"
  ripemd160 :: "bytes \<Rightarrow> bytes"
  md5 :: "bytes \<Rightarrow> bytes"
  ecdsa_sign :: "bytes \<Rightarrow> ecdsa_key \<Rightarrow> bytes \<Rightarrow> (nat \<times> nat) result"
    \<comment> \<open>random bytes, private key, digest; gives \<open>(r, s)\<close>\<close>
  ecdsa_verify :: "nat \<times> nat \<Rightarrow> bytes \<Rightarrow> nat \<times> nat \<Rightarrow> bool"
    \<comment> \<open>public point on P-256, digest, \<open>(r, s)\<close>\<close>
  aes_ok :: "bytes \<Rightarrow> bool"
    \<comment> \<open>\<open>aes.NewCipher\<close> accepts the key\<close>
  gcm_seal :: "bytes \<Rightarrow> bytes \<Rightarrow> bytes \<Rightarrow> bytes"
    \<comment> \<open>key, nonce, plain text\<close>
  gcm_open :: "bytes \<Rightarrow> bytes \<Rightarrow> bytes \<Rightarrow> bytes result"
  x509_marshal :: "ecdsa_key \<Rightarrow> bytes result"
  x509_parse :: "bytes \<Rightarrow> ecdsa_key result"
  pem_encrypt :: "bytes \<Rightarrow> string \<Rightarrow> bytes \<Rightarrow> bytes \<Rightarrow> pem_block result"
    \<comment> \<open>random bytes, block type, data, password\<close>
  pem_decrypt :: "pem_block \<Rightarrow> bytes \<Rightarrow> bytes result"
  pem_encode :: "pem_block \<Rightarrow> bytes"
  pem_decode :: "bytes \<Rightarrow> pem_block option"

text \<open>The sizes of the digests.\<close>

definition digest_sizes :: "crypto_env \<Rightarrow> bool" where
  "digest_sizes E \<longleftrightarrow> (\<forall>x. length (sha256 E x) = 32) \<and> (\<forall>x. length (ripemd160 E x) = 20)
     \<and> (\<forall>x. length (md5 E x) = 16)"

text \<open>A number that fits into 32 bytes, as the coordinates and scalars of P-256 do.\<close>

definition fits32 :: "nat \<Rightarrow> bool" where
  "fits32 x \<longleftrightarrow> x < 256 ^ 32"

text \<open>The documented contract of ECDSA on P-256 for one key: its signatures verify, and
  both halves of a signature are below the order of the curve, hence fit into 32 bytes.\<close>

definition ecdsa_signs :: "crypto_env \<Rightarrow> ecdsa_key \<Rightarrow> bool" where
  "ecdsa_signs E key \<longleftrightarrow>
     (\<forall>rnd digest r s. ecdsa_sign E rnd key digest = Ok (r, s) \<longrightarrow>
        fits32 r \<and> fits32 s \<and> ecdsa_verify E (keyX key, keyY key) digest (r, s))"

lemma ecdsa_signsD:
  assumes "ecdsa_signs E key" and "ecdsa_sign E rnd key digest = Ok (r, s)"
  shows "fits32 r" "fits32 s" "ecdsa_verify E (keyX key, keyY key) digest (r, s)"
  using assms unfolding ecdsa_signs_def by blast+

section \<open>util.LeftPadBytes\<close>

definition LeftPadBytes :: "bytes \<Rightarrow> int \<Rightarrow> bytes" where
  "LeftPadBytes slc lenght =
     (if lenght \<le> int (length slc) then slc
      else (let padded = replicate (nat lenght) 0; off = nat lenght - length slc
            in take off padded @ slc @ drop (off + length slc) padded))"

lemma LeftPadBytes_eq:
  "LeftPadBytes slc (int n) = replicate (n - length slc) 0 @ slc"
  by (auto simp: LeftPadBytes_def Let_def)

lemma length_LeftPadBytes: "length slc \<le> n \<Longrightarrow> length (LeftPadBytes slc (int n)) = n"
  by (simp add: LeftPadBytes_eq)

lemma SetBytes_LeftPadBytes [simp]: "SetBytes (LeftPadBytes slc (int n)) = SetBytes slc"
  by (simp add: LeftPadBytes_eq)

text \<open>The 64-byte form of a pair of 256-bit numbers, and how the code cuts it again.\<close>

definition pair_bytes :: "nat \<Rightarrow> nat \<Rightarrow> bytes" where
  "pair_bytes x y = LeftPadBytes (BigBytes x) 32 @ LeftPadBytes (BigBytes y) 32"

definition split_pair :: "bytes \<Rightarrow> nat \<times> nat" where
  "split_pair b = (let n = length b in (SetBytes (take (n div 2) b), SetBytes (drop (n div 2) b)))"

lemma length_pad32: "fits32 x \<Longrightarrow> length (LeftPadBytes (BigBytes x) 32) = 32"
  using length_LeftPadBytes [of "BigBytes x" 32] length_BigBytes_le [of x 32]
  by (simp add: fits32_def)

lemma length_pair_bytes: "fits32 x \<Longrightarrow> fits32 y \<Longrightarrow> length (pair_bytes x y) = 64"
  by (simp add: pair_bytes_def length_pad32)

lemma split_pair_bytes [simp]:
  assumes "fits32 x" and "fits32 y"
  shows "split_pair (pair_bytes x y) = (x, y)"
  using assms SetBytes_LeftPadBytes [of _ 32]
  by (simp add: split_pair_def pair_bytes_def length_pad32)

section \<open>Signing and verifying\<close>

definition Sign :: "crypto_env \<Rightarrow> bytes \<Rightarrow> bytes \<Rightarrow> ecdsa_key \<Rightarrow> bytes result" where
  "Sign E rnd data privateKey =
     bind_result (ecdsa_sign E rnd privateKey data)
       (\<lambda>(r, s). Ok (LeftPadBytes (BigBytes r) 32 @ LeftPadBytes (BigBytes s) 32))"

definition VerifySignature :: "crypto_env \<Rightarrow> bytes \<Rightarrow> bytes \<Rightarrow> bytes \<Rightarrow> bool" where
  "VerifySignature E signature pubKey data =
     (let sigLen = length signature;
          r = SetBytes (take (sigLen div 2) signature);
          s = SetBytes (drop (sigLen div 2) signature);
          keyLen = length pubKey;
          x = SetBytes (take (keyLen div 2) pubKey);
          y = SetBytes (drop (keyLen div 2) pubKey)
      in ecdsa_verify E (x, y) data (r, s))"

lemma VerifySignature_split:
  "VerifySignature E sig pk data = ecdsa_verify E (split_pair pk) data (split_pair sig)"
  by (simp add: VerifySignature_def split_pair_def Let_def)

lemma Sign_pair_bytes:
  "Sign E rnd data key = Ok sig \<longleftrightarrow>
     (\<exists>r s. ecdsa_sign E rnd key data = Ok (r, s) \<and> sig = pair_bytes r s)"
  by (auto simp: Sign_def pair_bytes_def)

lemma VerifySignature_Sign:
  assumes "ecdsa_signs E key" and "fits32 (keyX key)" and "fits32 (keyY key)"
    and "Sign E rnd data key = Ok sig"
  shows "VerifySignature E sig (pair_bytes (keyX key) (keyY key)) data"
proof -
  obtain r s where rs: "ecdsa_sign E rnd key data = Ok (r, s)" "sig = pair_bytes r s"
    using assms(4) by (auto simp: Sign_pair_bytes)
  with ecdsa_signsD [OF assms(1) rs(1)] assms(2,3) show ?thesis
    by (simp add: VerifySignature_split)
qed

lemma length_Sign:
  assumes "ecdsa_signs E key" and "Sign E rnd data key = Ok sig"
  shows "length sig = 64"
proof -
  obtain r s where rs: "ecdsa_sign E rnd key data = Ok (r, s)" "sig = pair_bytes r s"
    using assms(2) by (auto simp: Sign_pair_bytes)
  with ecdsa_signsD [OF assms(1) rs(1)] show ?thesis
    by (simp add: length_pair_bytes)
qed

section \<open>Password encryption\<close>

text \<open>The size of a standard GCM nonce.\<close>

definition NonceSize :: nat where
  "NonceSize = 12"

definition createHash :: "crypto_env \<Rightarrow> string \<Rightarrow> string" where
  "createHash E key = HexEncode (md5 E (bytes_of key))"

text \<open>
  \<open>nonce\<close> are the bytes drawn from the random source (\<open>None\<close> when it fails).
  \<open>gcm.Seal(nonce, nonce, data, nil)\<close> appends the cipher text to the nonce.
  A failing \<open>aes.NewCipher\<close> gives a nil block, which \<open>cipher.NewGCM\<close> dereferences.
\<close>

definition Encrypt :: "crypto_env \<Rightarrow> bytes option \<Rightarrow> bytes \<Rightarrow> string \<Rightarrow> bytes result" where
  "Encrypt E rnd data passphrase =
     (let key = bytes_of (createHash E passphrase) in
      if \<not> aes_ok E key then Panic
      else (case rnd of
              None \<Rightarrow> Panic
            | Some nonce \<Rightarrow> Ok (nonce @ gcm_seal E key nonce data)))"

definition Decrypt :: "crypto_env \<Rightarrow> bytes \<Rightarrow> string \<Rightarrow> bytes result" where
  "Decrypt E data passphrase =
     (let key = bytes_of (createHash E passphrase) in
      if \<not> aes_ok E key then Panic
      else if length data < NonceSize then Panic
      else gcm_open E key (take NonceSize data) (drop NonceSize data))"

section \<open>A concrete environment\<close>

text \<open>
  An executable instance of the parameters, on which the properties are exercised: a hash
  that keeps two bytes (in the JSON of a node, the first digit of its sequence number and, after a sequence number of one digit, the last digit of the seconds), and
  signatures that only record what they are for.  It satisfies every hypothesis the theorems
  make about an environment.
\<close>

definition sample_hash :: "nat \<Rightarrow> bytes \<Rightarrow> bytes" where
  "sample_hash n x = [1, 0, 0, 0, 0, 0, if 40 < length x then x ! 40 else 0, if 7 < length x then x ! 7 else 0] @ replicate (n - 8) 0"

definition sample_env :: crypto_env where
  "sample_env = \<lparr>
     sha256 = sample_hash 32, ripemd160 = sample_hash 20, md5 = sample_hash 16,
     ecdsa_sign = (\<lambda>rnd key digest. Ok (SetBytes (take 31 digest), keyX key mod 256 ^ 31)),
     ecdsa_verify = (\<lambda>(x, y) digest (r, s). r = SetBytes (take 31 digest) \<and> s = x mod 256 ^ 31),
     aes_ok = (\<lambda>key. length key = 32),
     gcm_seal = (\<lambda>key nonce data. nonce @ data),
     gcm_open = (\<lambda>key nonce ct. if take NonceSize ct = nonce then Ok (drop NonceSize ct) else Err ErrCrypto),
     x509_marshal = (\<lambda>k. Ok (pair_bytes (keyX k) (keyY k) @ BigBytes (keyD k))),
     x509_parse = (\<lambda>b. Ok \<lparr>keyD = SetBytes (drop 64 b),
        keyX = fst (split_pair (take 64 b)), keyY = snd (split_pair (take 64 b))\<rparr>),
     pem_encrypt = (\<lambda>rnd t data pw. Ok \<lparr>pem_type = t, pem_headers = [], pem_bytes = data\<rparr>),
     pem_decrypt = (\<lambda>b pw. Ok (pem_bytes b)),
     pem_encode = pem_bytes,
     pem_decode = (\<lambda>x. if x = [] then None
        else Some \<lparr>pem_type = ''ECDSA PRIVATE KEY'', pem_headers = [], pem_bytes = x\<rparr>)\<rparr>"

definition sample_key :: ecdsa_key where
  "sample_key = \<lparr>keyD = 5, keyX = 77, keyY = 1234\<rparr>"

lemma length_sample_hash: "8 \<le> n \<Longrightarrow> length (sample_hash n x) = n"
  by (simp add: sample_hash_def)

lemma sample_sizes: "digest_sizes sample_env"
  by (simp add: digest_sizes_def sample_env_def length_sample_hash)

lemma sample_signs: "ecdsa_signs sample_env key"
proof -
  have "SetBytes (take 31 digest) < 256 ^ 32" for digest :: bytes
  proof -
    have "SetBytes (take 31 digest) < 256 ^ length (take 31 digest)" by (rule SetBytes_bound)
    also have "\<dots> \<le> 256 ^ 32" by (rule power_increasing) auto
    finally show ?thesis .
  qed
  moreover have "keyX key mod 256 ^ 31 < 256 ^ 32"
    by (rule less_trans [of _ "256 ^ 31"]) (rule mod_less_divisor, simp_all)
  ultimately show ?thesis
    by (auto simp: ecdsa_signs_def sample_env_def fits32_def)
qed

lemma sample_Sign: "\<exists>sig. Sign sample_env rnd data key = Ok sig"
  by (simp add: Sign_def sample_env_def)

section \<open>Properties\<close>

text \<open>
  Password encryption.  What \<open>Encrypt\<close> makes, \<open>Decrypt\<close> with the same pass phrase gives back, when AES takes
  keys of 32 bytes and opening undoes sealing; input shorter than the nonce makes \<open>Decrypt\<close> panic.
\<close>

theorem decrypt_encrypt:
  assumes "digest_sizes E" and "\<forall>key. length key = 32 \<longrightarrow> aes_ok E key"
    and "\<forall>key nonce data. length key = 32 \<longrightarrow> length nonce = NonceSize \<longrightarrow> gcm_open E key nonce (gcm_seal E key nonce data) = Ok data"
    and "length nonce = NonceSize" and "m < NonceSize"
  shows "\<exists>ct. Encrypt E (Some nonce) data passphrase = Ok ct \<and> Decrypt E ct passphrase = Ok data
    \<and> Decrypt E (take m ct) passphrase = Panic"
proof -
  have "length (bytes_of (createHash E passphrase)) = 32"
    using assms(1) by (simp add: createHash_def digest_sizes_def)
  then show ?thesis
    using assms(2-5) by (simp add: Encrypt_def Decrypt_def Let_def min_def)
qed

theorem decrypt_encrypt_witness:
  "\<exists>ct. Encrypt sample_env (Some (replicate 12 7)) [1, 2] ''pw'' = Ok ct \<and> Decrypt sample_env ct ''pw'' = Ok [1, 2]
    \<and> Decrypt sample_env (take 11 ct) ''pw'' = Panic"
proof -
  have "gcm_open sample_env key nonce (gcm_seal sample_env key nonce data) = Ok data"
    if "length nonce = NonceSize" for key nonce data using that by (simp add: sample_env_def)
  moreover have "aes_ok sample_env key" if "length key = 32" for key using that by (simp add: sample_env_def)
  ultimately show ?thesis
    using decrypt_encrypt [OF sample_sizes, of "replicate 12 7" 11 "[1, 2]" "''pw''"] by (simp add: NonceSize_def)
qed

end
