(* ===== verification/Address.thy ===== *)
theory Address
  imports Base58 Crypto
begin

text \<open>
  \<^verbatim>\<open>address/address.go\<close> and \<^verbatim>\<open>address/keypair.go\<close>: key pairs in hexadecimal form, and
  addresses, the Base58 text of a version byte, the hash of the public key and a
  checksum.
\<close>

section \<open>Key pairs\<close>

record KeyPair =
  PrivateKey :: string
  PublicKey :: string

definition keypair_of :: "ecdsa_key \<Rightarrow> KeyPair" where
  "keypair_of private =
     (let pubKey = LeftPadBytes (BigBytes (keyX private)) 32 @ LeftPadBytes (BigBytes (keyY private)) 32
      in \<lparr>PrivateKey = HexEncode (BigBytes (keyD private)), PublicKey = HexEncode pubKey\<rparr>)"

text \<open>\<open>generated\<close> is what \<open>ecdsa.GenerateKey\<close> returns.\<close>

definition NewKeyPair :: "ecdsa_key result \<Rightarrow> KeyPair result" where
  "NewKeyPair generated = bind_result generated (\<lambda>private. Ok (keypair_of private))"

text \<open>\<open>pem.Decode\<close> gives a nil block for input without one, which is then dereferenced.\<close>

definition NewFromPem :: "crypto_env \<Rightarrow> bytes \<Rightarrow> string \<Rightarrow> KeyPair result" where
  "NewFromPem E pemEncoded password =
     (case pem_decode E pemEncoded of
        None \<Rightarrow> Panic
      | Some block \<Rightarrow>
          bind_result (pem_decrypt E block (bytes_of password)) (\<lambda>x509Encoded.
          bind_result (x509_parse E x509Encoded) (\<lambda>private.
          Ok (keypair_of private))))"

text \<open>Decoding errors are ignored: the bytes before the first bad digit are used.\<close>

definition ToEcdsaPrivateKey :: "KeyPair \<Rightarrow> ecdsa_key" where
  "ToEcdsaPrivateKey ld =
     (let privateKeyBytes = fst (HexDecode (PrivateKey ld));
          publicKeyBytes = fst (HexDecode (PublicKey ld))
      in \<lparr>keyD = SetBytes privateKeyBytes,
          keyX = SetBytes (take (length publicKeyBytes div 2) publicKeyBytes),
          keyY = SetBytes (drop (length publicKeyBytes div 2) publicKeyBytes)\<rparr>)"

definition ToPem :: "crypto_env \<Rightarrow> bytes \<Rightarrow> KeyPair \<Rightarrow> string \<Rightarrow> bytes result" where
  "ToPem E rnd ld password =
     bind_result (x509_marshal E (ToEcdsaPrivateKey ld)) (\<lambda>x509Encoded.
     bind_result (pem_encrypt E rnd ''ECDSA PRIVATE KEY'' x509Encoded (bytes_of password))
       (\<lambda>x509EncodedCrypt. Ok (pem_encode E x509EncodedCrypt)))"

section \<open>Addresses\<close>

definition version :: byte where
  "version = 0"

definition addressChecksumLen :: nat where
  "addressChecksumLen = 4"

record Address =
  Keys :: "KeyPair option"
  Addr :: string  \<comment> \<open>the field \<open>Address\<close>\<close>

definition checksum :: "crypto_env \<Rightarrow> bytes \<Rightarrow> bytes" where
  "checksum E payload =
     (let firstSHA = sha256 E payload; secondSHA = sha256 E firstSHA
      in take addressChecksumLen secondSHA)"

text \<open>Writing to a hash never fails.\<close>

definition hashPubKey :: "crypto_env \<Rightarrow> bytes \<Rightarrow> bytes result" where
  "hashPubKey E pubKey = Ok (ripemd160 E (sha256 E pubKey))"

definition generateAddressHash :: "crypto_env \<Rightarrow> bytes \<Rightarrow> string result" where
  "generateAddressHash E pubKey =
     bind_result (hashPubKey E pubKey) (\<lambda>pubKeyHash.
       let versionedPayload = [version] @ pubKeyHash;
           fullPayload = versionedPayload @ checksum E versionedPayload
       in bind_result (Base58Encode fullPayload) (\<lambda>address. Ok (string_of address)))"

definition NewAddressForKeys :: "crypto_env \<Rightarrow> KeyPair \<Rightarrow> Address result" where
  "NewAddressForKeys E keys =
     bind_result (generateAddressHash E (fst (HexDecode (PublicKey keys))))
       (\<lambda>hash. Ok \<lparr>Keys = Some keys, Addr = hash\<rparr>)"

definition NewAddressWithKeys :: "crypto_env \<Rightarrow> ecdsa_key result \<Rightarrow> Address result" where
  "NewAddressWithKeys E generated =
     bind_result (NewKeyPair generated) (NewAddressForKeys E)"

definition MatchesPubKey :: "crypto_env \<Rightarrow> string \<Rightarrow> string \<Rightarrow> bool result" where
  "MatchesPubKey E addr pubKey =
     (case HexDecode pubKey of
        (_, Some _) \<Rightarrow> Ok False
      | (pk, None) \<Rightarrow> (case generateAddressHash E pk of
            Panic \<Rightarrow> Panic
          | Err _ \<Rightarrow> Ok False
          | Ok hash \<Rightarrow> Ok (addr = hash)))"

text \<open>The two results of \<open>IsValid\<close> are the flag and the error.\<close>

definition IsValid :: "crypto_env \<Rightarrow> string \<Rightarrow> (bool \<times> error option) result" where
  "IsValid E addr =
     (if length addr = 0 then Ok (False, Some ErrInvalidChecksum)
      else bind_result (Base58Decode (bytes_of addr)) (\<lambda>pubKeyHash.
        if length pubKeyHash \<le> addressChecksumLen then Ok (False, Some ErrInvalidChecksum)
        else let n = length pubKeyHash - addressChecksumLen;
                 chksum = drop n pubKeyHash;
                 chkCalc = checksum E (take n pubKeyHash)
             in if chkCalc \<noteq> chksum then Ok (False, Some ErrInvalidChecksum)
                else Ok (True, None)))"

definition HasKeys :: "Address \<Rightarrow> bool" where
  "HasKeys a = (case Keys a of None \<Rightarrow> False
     | Some k \<Rightarrow> PublicKey k \<noteq> '''' \<and> PrivateKey k \<noteq> '''')"

definition KeyPair_Clone :: "KeyPair \<Rightarrow> KeyPair" where
  "KeyPair_Clone ld = \<lparr>PrivateKey = PrivateKey ld, PublicKey = PublicKey ld\<rparr>"

text \<open>\<open>Clone\<close> of a nil key pair dereferences it.\<close>

definition Clone :: "Address \<Rightarrow> Address result" where
  "Clone a = (case Keys a of None \<Rightarrow> Panic
     | Some k \<Rightarrow> Ok \<lparr>Keys = Some (KeyPair_Clone k), Addr = Addr a\<rparr>)"

definition New :: Address where
  "New = \<lparr>Keys = None, Addr = ''''\<rparr>"

definition Address_IsValid :: "crypto_env \<Rightarrow> Address \<Rightarrow> (bool \<times> error option) result" where
  "Address_IsValid E a = IsValid E (Addr a)"

text \<open>
  The binary form of an address is the one of an XDR library, a parameter: \<open>encode\<close> gives the bytes written with
  the error, \<open>decode\<close> sets the address and gives the error.  Only \<open>FromBytes\<close> looks at the error.
\<close>

definition ToBytes :: "(Address \<Rightarrow> bytes \<times> error option) \<Rightarrow> Address \<Rightarrow> bytes" where
  "ToBytes encode a = (case encode a of (bs, er) \<Rightarrow> bs)"

definition FromBytes :: "(bytes \<Rightarrow> Address \<Rightarrow> Address \<times> error option) \<Rightarrow> bytes \<Rightarrow> (unit, Address) io" where
  "FromBytes decode b a = (case decode b a of (a', None) \<Rightarrow> (Ok (), a') | (a', Some er) \<Rightarrow> (Err er, a'))"

definition NewAddressFromBytes :: "(bytes \<Rightarrow> Address \<Rightarrow> Address \<times> error option) \<Rightarrow> bytes \<Rightarrow> Address" where
  "NewAddressFromBytes decode a = (case decode a New of (acc, _) \<Rightarrow> acc)"

section \<open>Key pairs keep the key\<close>

text \<open>The coordinates of the public key fit into 32 bytes each.\<close>

definition key_fits :: "ecdsa_key \<Rightarrow> bool" where
  "key_fits k \<longleftrightarrow> fits32 (keyX k) \<and> fits32 (keyY k)"

lemma keypair_of_sel [simp]:
  "PrivateKey (keypair_of k) = HexEncode (BigBytes (keyD k))"
  "PublicKey (keypair_of k) = HexEncode (pair_bytes (keyX k) (keyY k))"
  by (simp_all add: keypair_of_def pair_bytes_def Let_def)

lemma BigBytes_neq_Nil: "n \<noteq> 0 \<Longrightarrow> BigBytes n \<noteq> []"
  by (metis SetBytes_BigBytes SetBytes_Nil)

lemma HasKeys_pair:
  assumes "Keys a = Some (keypair_of k)" and "key_fits k" and "keyD k \<noteq> 0"
  shows "HasKeys a"
  using assms BigBytes_neq_Nil [of "keyD k"] length_pair_bytes [of "keyX k" "keyY k"]
  by (auto simp: HasKeys_def key_fits_def)

lemma ToEcdsaPrivateKey_keypair_of:
  "key_fits k \<Longrightarrow> ToEcdsaPrivateKey (keypair_of k) = k"
  using split_pair_bytes [of "keyX k" "keyY k"]
  by (simp add: ToEcdsaPrivateKey_def key_fits_def split_pair_def Let_def)

section \<open>Generated addresses\<close>

lemma length_checksum: "digest_sizes E \<Longrightarrow> length (checksum E p) = 4"
  by (simp add: checksum_def digest_sizes_def addressChecksumLen_def)

lemma generateAddressHash_Ok:
  "generateAddressHash E pk = Ok a \<longleftrightarrow>
     (let payload = version # ripemd160 E (sha256 E pk)
      in Base58Encode (payload @ checksum E payload) = Ok (bytes_of a))"
  by (auto simp: generateAddressHash_def hashPubKey_def Let_def)

lemma Base58Encode_not_Err: "Base58Encode bs \<noteq> Err e"
proof -
  have "encode_zeros bs r \<noteq> Err e" for r
    by (induction bs arbitrary: r) auto
  then show ?thesis
    by (cases "encode_zeros bs (encode_digits (SetBytes bs) [])") (auto simp: Base58Encode_def)
qed

lemma generateAddressHash_not_Err: "generateAddressHash E pk \<noteq> Err e"
  using Base58Encode_not_Err
  by (auto simp: generateAddressHash_def hashPubKey_def Let_def elim!: bind_result.elims)

lemma IsValid_generated:
  assumes "digest_sizes E" and "generateAddressHash E pk = Ok a"
  shows "IsValid E a = Ok (True, None)"
proof -
  let ?p = "version # ripemd160 E (sha256 E pk)"
  have enc: "Base58Encode (?p @ checksum E ?p) = Ok (bytes_of a)"
    using assms(2) by (simp add: generateAddressHash_Ok Let_def)
  then have dec: "Base58Decode (bytes_of a) = Ok (?p @ checksum E ?p)"
    by (rule b58.dec_enc)
  then have "a \<noteq> []" using Base58Decode_Panic_iff [of "bytes_of a"] by auto
  with dec show ?thesis
    using length_checksum [OF assms(1), of ?p] by (simp add: IsValid_def addressChecksumLen_def)
qed

lemma MatchesPubKey_True:
  "MatchesPubKey E addr pubKey = Ok True \<longleftrightarrow>
     (\<exists>pk. HexDecode pubKey = (pk, None) \<and> generateAddressHash E pk = Ok addr)"
  by (auto simp: MatchesPubKey_def split: prod.splits option.splits result.splits)

lemma IsValid_Panic_iff:
  "IsValid E addr = Panic \<longleftrightarrow> addr \<noteq> '''' \<and> (\<forall>c \<in> set addr. c = CHR ''1'')"
  using Base58Decode_Panic_iff [of "bytes_of addr"]
  by (cases "Base58Decode (bytes_of addr)")
     (auto simp: IsValid_def Let_def set_bytes_of b58Alphabet_0)

lemma IsValid_True_iff:
  assumes "digest_sizes E"
  shows "IsValid E addr = Ok (True, None) \<longleftrightarrow>
    (\<exists>payload. payload \<noteq> [] \<and> Base58Decode (bytes_of addr) = Ok (payload @ checksum E payload))"
proof
  assume "IsValid E addr = Ok (True, None)"
  then obtain d where d: "Base58Decode (bytes_of addr) = Ok d" "\<not> length d \<le> 4"
      "checksum E (take (length d - 4) d) = drop (length d - 4) d"
    by (auto simp: IsValid_def Let_def addressChecksumLen_def split: if_splits)
  then have "d = take (length d - 4) d @ checksum E (take (length d - 4) d)" by simp
  moreover have "take (length d - 4) d \<noteq> []" using d(2) by auto
  ultimately show "\<exists>payload. payload \<noteq> [] \<and> Base58Decode (bytes_of addr) = Ok (payload @ checksum E payload)"
    using d(1) by metis
next
  assume "\<exists>payload. payload \<noteq> [] \<and> Base58Decode (bytes_of addr) = Ok (payload @ checksum E payload)"
  then obtain p where p: "p \<noteq> []" "Base58Decode (bytes_of addr) = Ok (p @ checksum E p)" by blast
  then have "addr \<noteq> []" using Base58Decode_Panic_iff [of "bytes_of addr"] by auto
  with p show "IsValid E addr = Ok (True, None)"
    using length_checksum [OF assms, of p] by (simp add: IsValid_def addressChecksumLen_def)
qed

lemma sample_generate: "\<exists>a. generateAddressHash sample_env pk = Ok a"
proof -
  let ?p = "version # ripemd160 sample_env (sha256 sample_env pk)"
  have "1 \<in> set (?p @ checksum sample_env ?p)"
    by (simp add: sample_env_def sample_hash_def)
  then have "\<not> (\<forall>b \<in> set (?p @ checksum sample_env ?p). b = 0)"
    by (metis zero_neq_one)
  from Base58Encode_Ok [OF this]
obtain e where "Base58Encode (?p @ checksum sample_env ?p) = Ok e" ..
  then have "generateAddressHash sample_env pk = Ok (string_of e)"
    by (simp add: generateAddressHash_Ok Let_def)
  then show ?thesis ..
qed

section \<open>Properties\<close>

text \<open>
  A key pair keeps its key.  Writing a private key and its public point in
  hexadecimal and reading them back gives the same key, for every point whose
  coordinates fit into 32 bytes, leading zero bytes included.
\<close>

theorem keypair_roundtrip:
  assumes "key_fits k"
  shows "bind_result (NewKeyPair (Ok k)) (\<lambda>kp. Ok (ToEcdsaPrivateKey kp)) = Ok k"
  using ToEcdsaPrivateKey_keypair_of [OF assms] by (simp add: NewKeyPair_def)

theorem keypair_roundtrip_witness:
  "bind_result (NewKeyPair (Ok sample_key)) (\<lambda>kp. Ok (ToEcdsaPrivateKey kp)) = Ok sample_key"
  by (rule keypair_roundtrip) (simp add: key_fits_def sample_key_def fits32_def)

text \<open>
  What a key pair signs, its public key verifies.  With the key read back from its
  hexadecimal form, a signature over any data is accepted under the public key decoded
  from the same pair, whenever ECDSA itself verifies its signatures.
\<close>

theorem sign_verify:
  assumes "ecdsa_signs E k" and "key_fits k"
    and "Sign E rnd data (ToEcdsaPrivateKey (keypair_of k)) = Ok sig"
  shows "VerifySignature E sig (fst (HexDecode (PublicKey (keypair_of k)))) data"
proof -
  have "Sign E rnd data k = Ok sig"
    using assms(2,3) by (simp add: ToEcdsaPrivateKey_keypair_of)
  then have "VerifySignature E sig (pair_bytes (keyX k) (keyY k)) data"
    using assms(1,2) by (intro VerifySignature_Sign) (auto simp: key_fits_def)
  then show ?thesis by simp
qed

theorem sign_verify_witness:
  "\<exists>sig. Sign sample_env [] [7, 9] (ToEcdsaPrivateKey (keypair_of sample_key)) = Ok sig
     \<and> VerifySignature sample_env sig (fst (HexDecode (PublicKey (keypair_of sample_key)))) [7, 9]"
proof -
  have fits: "key_fits sample_key" by (simp add: key_fits_def sample_key_def fits32_def)
  obtain sig where sig: "Sign sample_env [] [7, 9] (ToEcdsaPrivateKey (keypair_of sample_key)) = Ok sig"
    using sample_Sign by blast
  from sign_verify [OF sample_signs fits sig] sig show ?thesis by blast
qed

text \<open>
  A generated address is valid and belongs to its key.  Whenever an address is
  generated for a public key, the validity check accepts it and the match against the
  public key in hexadecimal succeeds.
\<close>

theorem generated_address_valid:
  assumes "digest_sizes E" and "generateAddressHash E pk = Ok a"
  shows "IsValid E a = Ok (True, None) \<and> MatchesPubKey E a (HexEncode pk) = Ok True"
  using IsValid_generated [OF assms] assms(2) by (simp add: MatchesPubKey_True)

theorem generated_address_valid_witness:
  "\<exists>a. generateAddressHash sample_env [1, 2, 3] = Ok a \<and> IsValid sample_env a = Ok (True, None)
     \<and> MatchesPubKey sample_env a (HexEncode [1, 2, 3]) = Ok True"
proof -
  obtain a where "generateAddressHash sample_env [1, 2, 3] = Ok a"
    using sample_generate by blast
  with generated_address_valid [OF sample_sizes this] show ?thesis by blast
qed

text \<open>
  An address binds its owner.  Two public keys that both match one address have
  the same hash.
\<close>

theorem address_binds_key:
  assumes "digest_sizes E"
    and "MatchesPubKey E a (HexEncode pk) = Ok True" and "MatchesPubKey E a (HexEncode pk') = Ok True"
  shows "hashPubKey E pk = hashPubKey E pk'"
proof -
  let ?p = "\<lambda>pk. version # ripemd160 E (sha256 E pk)"
  have "Base58Encode (?p pk @ checksum E (?p pk)) = Ok (bytes_of a)"
      "Base58Encode (?p pk' @ checksum E (?p pk')) = Ok (bytes_of a)"
    using assms(2,3) by (auto simp: MatchesPubKey_True generateAddressHash_Ok Let_def)
  then have *: "?p pk @ checksum E (?p pk) = ?p pk' @ checksum E (?p pk')"
    by (rule b58.enc_inj)
  have "length (checksum E (?p pk)) = length (checksum E (?p pk'))"
    by (simp only: length_checksum [OF assms(1)])
  with * show ?thesis by (simp add: hashPubKey_def)
qed

theorem address_binds_key_witness:
  "\<exists>a. MatchesPubKey sample_env a (HexEncode [1, 2]) = Ok True
     \<and> hashPubKey sample_env [1, 2] = hashPubKey sample_env [1, 2]"
proof -
  obtain a where "generateAddressHash sample_env [1, 2] = Ok a" using sample_generate by blast
  then have m: "MatchesPubKey sample_env a (HexEncode [1, 2]) = Ok True"
    by (simp add: MatchesPubKey_True del: HexEncode_simps)
  with address_binds_key [OF sample_sizes m m] show ?thesis by blast
qed

text \<open>
  C40: the validity check panics exactly on the texts of ones.  On any other text it
  returns; on a non-empty text of the character 1 alone, the decoder reads past the end.
\<close>

theorem is_valid_panics_iff:
  "IsValid E addr = Panic \<longleftrightarrow> addr \<noteq> '''' \<and> set addr \<subseteq> {CHR ''1''}"
  by (auto simp: IsValid_Panic_iff)

text \<open>
  What the validity check accepts.  With digests of the standard sizes it accepts a text
  exactly when the text decodes to a non-empty payload followed by the payload's checksum.
\<close>

theorem is_valid_iff:
  assumes "digest_sizes E"
  shows "IsValid E addr = Ok (True, None) \<longleftrightarrow>
    (\<exists>payload. payload \<noteq> [] \<and> Base58Decode (bytes_of addr) = Ok (payload @ checksum E payload))"
  by (rule IsValid_True_iff [OF assms])

theorem is_valid_iff_witness:
  "IsValid sample_env ''abc'' = Ok (True, None) \<longleftrightarrow>
    (\<exists>payload. payload \<noteq> [] \<and> Base58Decode (bytes_of ''abc'') = Ok (payload @ checksum sample_env payload))"
  by (rule is_valid_iff [OF sample_sizes])

end
