(* ===== verification/JsonText.thy ===== *)
theory JsonText
  imports GoStd
begin

text \<open>
  The text level of \<^verbatim>\<open>encoding/json\<close>: strings as JSON literals (with the escapes
  \<^verbatim>\<open>json.Marshal\<close> writes, those for HTML included), the literals a decoder accepts,
  and whole values.  Strings are byte sequences; both directions follow UTF-8 and
  replace bytes that are not part of an encoded character.
\<close>

section \<open>UTF-8\<close>

abbreviation code :: "char \<Rightarrow> nat" where
  "code c \<equiv> of_char c"

definition cont :: "nat \<Rightarrow> nat \<Rightarrow> char \<Rightarrow> bool" where
  "cont lo hi c \<longleftrightarrow> lo \<le> code c \<and> code c \<le> hi"

text \<open>
  \<open>utf8.DecodeRune\<close>: the length of the encoded character at the front, 0 where there
  is none.  As in the library's table, the first byte gives the length and the range of
  the second byte, smaller after \<^verbatim>\<open>E0\<close>, \<^verbatim>\<open>ED\<close>, \<^verbatim>\<open>F0\<close> and \<^verbatim>\<open>F4\<close>.
\<close>

definition lead :: "nat \<Rightarrow> (nat \<times> nat \<times> nat) option" where
  "lead n =
     (if 194 \<le> n \<and> n \<le> 223 then Some (2, 128, 191)
      else if n = 224 then Some (3, 160, 191)
      else if n = 237 then Some (3, 128, 159)
      else if 225 \<le> n \<and> n \<le> 239 then Some (3, 128, 191)
      else if n = 240 then Some (4, 144, 191)
      else if n = 244 then Some (4, 128, 143)
      else if 241 \<le> n \<and> n \<le> 243 then Some (4, 128, 191)
      else None)"

definition conts :: "nat \<Rightarrow> string \<Rightarrow> bool" where
  "conts k s \<longleftrightarrow> k \<le> length s \<and> list_all (cont 128 191) (take k s)"

fun rune_len :: "string \<Rightarrow> nat" where
  "rune_len [] = 0"
| "rune_len (c # s) =
     (if code c < 128 then 1
      else case lead (code c) of None \<Rightarrow> 0
      | Some (k, lo, hi) \<Rightarrow>
          (case s of [] \<Rightarrow> 0
           | c1 # s1 \<Rightarrow> if cont lo hi c1 \<and> conts (k - 2) s1 then k else 0))"

text \<open>\<open>utf8.AppendRune\<close>; surrogates and numbers beyond Unicode become U+FFFD.\<close>

definition replacement :: string where
  "replacement = [CHR 0xEF, CHR 0xBF, CHR 0xBD]"

definition encode_rune :: "nat \<Rightarrow> string" where
  "encode_rune r =
     (if r < 128 then [char_of r]
      else if r < 2048 then [char_of (192 + r div 64), char_of (128 + r mod 64)]
      else if 55296 \<le> r \<and> r \<le> 57343 \<or> 1114111 < r then replacement
      else if r < 65536 then
        [char_of (224 + r div 4096), char_of (128 + r div 64 mod 64), char_of (128 + r mod 64)]
      else [char_of (240 + r div 262144), char_of (128 + r div 4096 mod 64),
            char_of (128 + r div 64 mod 64), char_of (128 + r mod 64)])"

function utf8_valid :: "string \<Rightarrow> bool" where
  "utf8_valid s =
     (if s = [] then True
      else if rune_len s = 0 then False
      else utf8_valid (drop (rune_len s) s))"
  by pat_completeness auto
termination
  by (relation "measure length") auto

declare utf8_valid.simps [simp del]

lemma lead_len: "lead n = Some (k, lo, hi) \<Longrightarrow> 2 \<le> k"
  by (auto simp: lead_def split: if_splits)

lemma rune_len_le: "rune_len s \<le> length s"
proof (cases s)
  case (Cons c t)
  then show ?thesis
    by (auto simp: conts_def split: option.splits list.splits)
qed simp

lemma rune_len_ascii [simp]: "code c < 128 \<Longrightarrow> rune_len (c # s) = 1"
  by simp

lemma rune_len_append: "0 < rune_len s \<Longrightarrow> rune_len (s @ t) = rune_len s"
  by (cases s) (auto simp: conts_def split: option.splits list.splits if_splits)

lemma rune_len_take: "0 < rune_len s \<Longrightarrow> rune_len (take (rune_len s) s @ t) = rune_len s"
proof (cases s)
  case (Cons c u)
  assume pos: "0 < rune_len s"
  show ?thesis
  proof (cases "code c < 128")
    case True
    with Cons show ?thesis by simp
  next
    case False
    with pos Cons obtain k lo hi c1 s1 where l: "lead (code c) = Some (k, lo, hi)" "u = c1 # s1"
        "cont lo hi c1" "conts (k - 2) s1"
      by (auto split: option.splits list.splits if_splits)
    moreover from lead_len [OF l(1)] obtain m where "k = Suc (Suc m)"
      by (metis Suc_le_D numeral_2_eq_2 Suc_le_mono)
    ultimately show ?thesis using Cons False by (simp add: conts_def)
  qed
qed simp

declare rune_len.simps [simp del]

lemma utf8_valid_Nil [simp]: "utf8_valid []"
  by (subst utf8_valid.simps) simp

lemma utf8_valid_drop: "utf8_valid s \<Longrightarrow> s \<noteq> [] \<Longrightarrow> 0 < rune_len s \<and> utf8_valid (drop (rune_len s) s)"
  by (subst (asm) utf8_valid.simps) (simp split: if_splits)

lemma utf8_valid_ascii_Cons [simp]: "code c < 128 \<Longrightarrow> utf8_valid (c # s) = utf8_valid s"
  by (subst utf8_valid.simps) simp

lemma utf8_valid_ascii: "\<forall>c \<in> set s. code c < 128 \<Longrightarrow> utf8_valid s"
  by (induction s) auto

lemma utf8_ascii: "list_all (\<lambda>c. code c < 128) s \<Longrightarrow> utf8_valid s"
  by (induction s) auto

lemma HexEncode_ascii: "list_all (\<lambda>c. code c < 128) (HexEncode bs)"
  using set_HexEncode [of bs] by (auto simp: list_all_iff hextable_def)

lemma utf8_HexEncode [simp]: "utf8_valid (HexEncode bs)"
  by (rule utf8_ascii [OF HexEncode_ascii])

section \<open>String literals\<close>

abbreviation dquote :: char where "dquote \<equiv> CHR 0x22"
abbreviation bslash :: char where "bslash \<equiv> CHR 0x5C"

definition hex4 :: "nat \<Rightarrow> string" where
  "hex4 r = [hextable ! (r div 4096 mod 16), hextable ! (r div 256 mod 16),
             hextable ! (r div 16 mod 16), hextable ! (r mod 16)]"

text \<open>The escapes of \<^verbatim>\<open>appendString\<close> for an ASCII character.\<close>

definition quote_ascii :: "char \<Rightarrow> string" where
  "quote_ascii c =
     (if c = bslash \<or> c = dquote then [bslash, c]
      else if c = CHR 0x08 then [bslash, CHR ''b'']
      else if c = CHR 0x0C then [bslash, CHR ''f'']
      else if c = CHR 0x0A then [bslash, CHR ''n'']
      else if c = CHR 0x0D then [bslash, CHR ''r'']
      else if c = CHR 0x09 then [bslash, CHR ''t'']
      else if code c < 32 \<or> c = CHR ''<'' \<or> c = CHR ''>'' \<or> c = CHR ''&''
        then bslash # CHR ''u'' # hex4 (code c)
      else [c])"

text \<open>
  Other characters are copied, but for U+2028 and U+2029, which are escaped; a byte that
  starts no character becomes the escape of U+FFFD.
\<close>

function quote_body :: "string \<Rightarrow> string" where
  "quote_body [] = []"
| "quote_body (c # s) =
     (if code c < 128 then quote_ascii c @ quote_body s
      else let n = rune_len (c # s); run = take n (c # s) in
        if n = 0 then bslash # ''ufffd'' @ quote_body s
        else (if run = [CHR 0xE2, CHR 0x80, CHR 0xA8] then bslash # ''u2028''
              else if run = [CHR 0xE2, CHR 0x80, CHR 0xA9] then bslash # ''u2029''
              else run)
             @ quote_body (drop n (c # s)))"
  by pat_completeness auto
termination
  by (relation "measure length") auto

definition quote :: "string \<Rightarrow> string" where
  "quote s = dquote # quote_body s @ [dquote]"

text \<open>Four hexadecimal digits in either case.\<close>

definition unhex4 :: "string \<Rightarrow> (nat \<times> string) option" where
  "unhex4 s = (case s of
     a # b # c # d # r \<Rightarrow>
       (case (hex_val a, hex_val b, hex_val c, hex_val d) of
          (Some a, Some b, Some c, Some d) \<Rightarrow>
            Some (((unat a * 16 + unat b) * 16 + unat c) * 16 + unat d, r)
        | _ \<Rightarrow> None)
   | _ \<Rightarrow> None)"

definition is_high :: "nat \<Rightarrow> bool" where "is_high r \<longleftrightarrow> 55296 \<le> r \<and> r < 56320"
definition is_low :: "nat \<Rightarrow> bool" where "is_low r \<longleftrightarrow> 56320 \<le> r \<and> r < 57344"

text \<open>A low surrogate escape right after a high one completes it.\<close>

definition low_escape :: "string \<Rightarrow> (nat \<times> string) option" where
  "low_escape s = (case s of
     a # b # r \<Rightarrow> if a = bslash \<and> b = CHR ''u'' then
         (case unhex4 r of Some (lo, r') \<Rightarrow> if is_low lo then Some (lo, r') else None | None \<Rightarrow> None)
       else None
   | _ \<Rightarrow> None)"

definition unicode_escape :: "nat \<Rightarrow> string \<Rightarrow> string \<times> string" where
  "unicode_escape r s =
     (if is_high r then
        (case low_escape s of
           Some (lo, s') \<Rightarrow> (encode_rune (65536 + (r - 55296) * 1024 + (lo - 56320)), s')
         | None \<Rightarrow> (replacement, s))
      else (encode_rune r, s))"

text \<open>What follows a backslash: the decoded bytes and the rest.\<close>

definition escape_at :: "string \<Rightarrow> (string \<times> string) option" where
  "escape_at s = (case s of [] \<Rightarrow> None
   | e # r \<Rightarrow>
       if e = dquote \<or> e = bslash \<or> e = CHR ''/'' then Some ([e], r)
       else if e = CHR ''b'' then Some ([CHR 0x08], r)
       else if e = CHR ''f'' then Some ([CHR 0x0C], r)
       else if e = CHR ''n'' then Some ([CHR 0x0A], r)
       else if e = CHR ''r'' then Some ([CHR 0x0D], r)
       else if e = CHR ''t'' then Some ([CHR 0x09], r)
       else if e = CHR ''u'' then
         (case unhex4 r of None \<Rightarrow> None | Some (u, r') \<Rightarrow> Some (unicode_escape u r'))
       else None)"

text \<open>One character of a literal, not the closing quote: decoded bytes and rest.\<close>

definition literal_at :: "string \<Rightarrow> (string \<times> string) option" where
  "literal_at s = (case s of [] \<Rightarrow> None
   | c # r \<Rightarrow>
       if c = bslash then escape_at r
       else if code c < 32 then None
       else if rune_len s = 0 then Some (replacement, r)
       else Some (take (rune_len s) s, drop (rune_len s) s))"

lemma unhex4_length: "unhex4 s = Some (u, r) \<Longrightarrow> length r < length s"
  by (auto simp: unhex4_def split: list.splits option.splits)

lemma low_escape_length: "low_escape s = Some (u, r) \<Longrightarrow> length r < length s"
  by (auto simp: low_escape_def split: list.splits option.splits if_splits dest: unhex4_length)

lemma unicode_escape_length: "length (snd (unicode_escape u s)) \<le> length s"
  by (auto simp: unicode_escape_def split: option.splits dest: low_escape_length)

lemma escape_at_length: "escape_at s = Some (d, r) \<Longrightarrow> length r < length s"
  using unicode_escape_length
  by (auto simp: escape_at_def split: list.splits option.splits if_splits dest!: unhex4_length)
     (metis dual_order.strict_trans2 less_SucI snd_conv leD linorder_not_less)

lemma literal_at_length: "literal_at s = Some (d, r) \<Longrightarrow> length r < length s"
  by (auto simp: literal_at_def split: list.splits if_splits dest: escape_at_length)

text \<open>A literal after its opening quote: the decoded string and what follows the closing quote.\<close>

function parse_string :: "string \<Rightarrow> (string \<times> string) option" where
  "parse_string s =
     (if s \<noteq> [] \<and> hd s = dquote then Some ([], tl s)
      else (case literal_at s of None \<Rightarrow> None
        | Some (d, r) \<Rightarrow> (case parse_string r of None \<Rightarrow> None | Some (v, r') \<Rightarrow> Some (d @ v, r'))))"
  by pat_completeness auto
termination
  by (relation "measure length") (auto dest: literal_at_length)

declare parse_string.simps [simp del]

lemma parse_string_dquote [simp]: "parse_string (dquote # r) = Some ([], r)"
  by (subst parse_string.simps) simp

lemma parse_string_step:
  "literal_at s = Some (d, r) \<Longrightarrow> hd s \<noteq> dquote \<Longrightarrow>
   parse_string s = (case parse_string r of None \<Rightarrow> None | Some (v, r') \<Rightarrow> Some (d @ v, r'))"
  by (subst parse_string.simps) auto

lemma parse_string_length: "parse_string s = Some (v, r) \<Longrightarrow> length r < length s"
proof (induction s arbitrary: v r rule: parse_string.induct)
  case (1 s)
  show ?case
  proof (cases "s \<noteq> [] \<and> hd s = dquote")
    case True
    with "1.prems" show ?thesis by (subst (asm) parse_string.simps) (auto simp: neq_Nil_conv)
  next
    case False
    with "1.prems" obtain d r' v' where lit: "literal_at s = Some (d, r')"
        and rec: "parse_string r' = Some (v', r)"
      by (subst (asm) parse_string.simps) (auto split: option.splits)
    from "1.IH" [OF False lit refl rec] literal_at_length [OF lit] show ?thesis by simp
  qed
qed

section \<open>Quoting and parsing\<close>

lemma unhex4_hex4: "n < 65536 \<Longrightarrow> unhex4 (hex4 n @ t) = Some (n, t)"
proof -
  assume n: "n < 65536"
  have lt: "n div 4096 < 16"
    using n by (simp add: less_mult_imp_div_less)
  then have m: "n div 4096 mod 16 = n div 4096" "n div 4096 mod 256 = n div 4096" by simp_all
  have "n div 256 = n div 4096 * 16 + n div 256 mod 16"
    using div_mult_mod_eq [of "n div 256" 16] by (simp add: div_mult2_eq [symmetric])
  moreover have "n div 16 = n div 256 * 16 + n div 16 mod 16"
    using div_mult_mod_eq [of "n div 16" 16] by (simp add: div_mult2_eq [symmetric])
  ultimately have "((n div 4096 * 16 + n div 256 mod 16) * 16 + n div 16 mod 16) * 16 + n mod 16 = n"
    by simp
  then show ?thesis
    by (simp add: unhex4_def hex4_def hex_val_hextable unat_of_nat m lt)
qed

lemma code_char_of [simp]: "code (char_of n) = n mod 256"
  by simp

lemma literal_at_quote_ascii:
  assumes "code c < 128"
  shows "literal_at (quote_ascii c @ t) = Some ([c], t)" and "hd (quote_ascii c @ t) \<noteq> dquote"
proof -
  show "hd (quote_ascii c @ t) \<noteq> dquote"
    by (simp add: quote_ascii_def)
  have esc: "literal_at (bslash # CHR ''u'' # hex4 (code c) @ t) = Some ([c], t)"
    using assms unhex4_hex4 [of "code c" t]
    by (simp add: literal_at_def escape_at_def unicode_escape_def is_high_def encode_rune_def)
  show "literal_at (quote_ascii c @ t) = Some ([c], t)"
    using assms esc by (auto simp: quote_ascii_def literal_at_def escape_at_def)
qed

lemma parse_string_quote_body:
  "utf8_valid s \<Longrightarrow> parse_string (quote_body s @ dquote # rest) = Some (s, rest)"
proof (induction s rule: quote_body.induct)
  case 1
  show ?case by simp
next
  case (2 c s)
  show ?case
  proof (cases "code c < 128")
    case True
    with 2 have IH: "parse_string (quote_body s @ dquote # rest) = Some (s, rest)"
      by simp
    with True show ?thesis
      using literal_at_quote_ascii [OF True, of "quote_body s @ dquote # rest"]
      by (simp add: parse_string_step)
  next
    case False
    let ?n = "rune_len (c # s)"
    let ?run = "take ?n (c # s)" and ?s = "drop ?n (c # s)"
    let ?t = "quote_body ?s @ dquote # rest"
    have n: "0 < ?n" and "utf8_valid ?s"
      using utf8_valid_drop [OF "2.prems"] by auto
    then have IH: "parse_string ?t = Some (?s, rest)"
      using "2.IH"(3) [OF False refl refl] n by simp
    define q where "q = (if ?run = [CHR 0xE2, CHR 0x80, CHR 0xA8] then bslash # ''u2028''
              else if ?run = [CHR 0xE2, CHR 0x80, CHR 0xA9] then bslash # ''u2029'' else ?run)"
    have q: "quote_body (c # s) = q @ quote_body ?s"
      using False n by (simp add: q_def Let_def)
    have run: "\<exists>r. ?run = c # r"
      using n by (cases ?n) auto
    have len: "length ?run = ?n"
      using rune_len_le [of "c # s"] by simp
    obtain r where r: "?run = c # r" using run ..
    have "take ?n (?run @ ?t) = ?run" "drop ?n (?run @ ?t) = ?t"
      using len by (metis append_eq_conv_conj)+
    then have "literal_at (?run @ ?t) = Some (?run, ?t)"
      using r False n rune_len_take [OF n, of ?t] by (auto simp: literal_at_def)
    moreover have "literal_at (bslash # ''u2028'' @ ?t) = Some ([CHR 0xE2, CHR 0x80, CHR 0xA8], ?t)"
      "literal_at (bslash # ''u2029'' @ ?t) = Some ([CHR 0xE2, CHR 0x80, CHR 0xA9], ?t)"
      by (simp_all add: literal_at_def escape_at_def unhex4_def hex_val_def unicode_escape_def
          is_high_def encode_rune_def char_of_def bit_0)
    ultimately have "literal_at (q @ ?t) = Some (?run, ?t)"
      by (auto simp: q_def)
    moreover have "hd (q @ ?t) \<noteq> dquote"
      using run False by (auto simp: q_def)
    ultimately have "parse_string (q @ ?t) = Some (?run @ ?s, rest)"
      using IH by (simp add: parse_string_step)
    then show ?thesis unfolding q by simp
  qed
qed

end
