(* ===== verification/JsonValue.thy ===== *)
theory JsonValue
  imports JsonText
begin

text \<open>
  JSON values: the compact text \<^verbatim>\<open>json.Marshal\<close> writes for them, and the parser of
  \<^verbatim>\<open>json.Unmarshal\<close>, with its limit on nesting.  The parser's recursion is bounded
  by the length of the input (every call consumes a character before the next).
\<close>

section \<open>Values\<close>

text \<open>A number keeps its text, as the decoder does until it knows the target's type.\<close>

datatype json =
    JNull
  | JBool bool
  | JNum string
  | JStr string
  | JArr "json list"
  | JObj "(string \<times> json) list"

fun render :: "json \<Rightarrow> string" where
  "render JNull = ''null''"
| "render (JBool b) = (if b then ''true'' else ''false'')"
| "render (JNum n) = n"
| "render (JStr s) = quote s"
| "render (JArr js) = ''['' @ Join (map render js) '','' @ '']''"
| "render (JObj kvs) = ''{'' @ Join (map (\<lambda>(k, v). quote k @ '':'' @ render v) kvs) '','' @ ''}''"

section \<open>The parser\<close>

definition is_ws :: "char \<Rightarrow> bool" where
  "is_ws c \<longleftrightarrow> c = CHR '' '' \<or> c = CHR 0x09 \<or> c = CHR 0x0A \<or> c = CHR 0x0D"

definition skip_ws :: "string \<Rightarrow> string" where
  "skip_ws s = dropWhile is_ws s"

definition is_digit :: "char \<Rightarrow> bool" where
  "is_digit c \<longleftrightarrow> 48 \<le> code c \<and> code c \<le> 57"

text \<open>One or more digits, as many as there are.\<close>

definition digits_at :: "string \<Rightarrow> (string \<times> string) option" where
  "digits_at s = (case takeWhile is_digit s of [] \<Rightarrow> None | ds \<Rightarrow> Some (ds, dropWhile is_digit s))"

definition integer_at :: "string \<Rightarrow> (string \<times> string) option" where
  "integer_at s = (case s of [] \<Rightarrow> None
     | c # r \<Rightarrow> if c = CHR ''0'' then Some ([c], r) else digits_at s)"

definition fraction_at :: "string \<Rightarrow> (string \<times> string) option" where
  "fraction_at s = (case s of [] \<Rightarrow> Some ([], s)
     | c # r \<Rightarrow> if c = CHR ''.'' then map_option (\<lambda>(ds, r'). (c # ds, r')) (digits_at r) else Some ([], s))"

definition exponent_at :: "string \<Rightarrow> (string \<times> string) option" where
  "exponent_at s = (case s of [] \<Rightarrow> Some ([], s)
     | c # r \<Rightarrow> if c = CHR ''e'' \<or> c = CHR ''E'' then
         (case r of
            d # r' \<Rightarrow> if d = CHR ''+'' \<or> d = CHR ''-''
               then map_option (\<lambda>(ds, r''). (c # d # ds, r'')) (digits_at r')
               else map_option (\<lambda>(ds, r''). (c # ds, r'')) (digits_at r)
          | [] \<Rightarrow> None)
       else Some ([], s))"

definition number_at :: "string \<Rightarrow> (string \<times> string) option" where
  "number_at s =
     (let (sign, s0) = (case s of c # r \<Rightarrow> if c = CHR ''-'' then ([c], r) else ([], s) | [] \<Rightarrow> ([], s)) in
      case integer_at s0 of None \<Rightarrow> None
      | Some (i, s1) \<Rightarrow> (case fraction_at s1 of None \<Rightarrow> None
        | Some (f, s2) \<Rightarrow> (case exponent_at s2 of None \<Rightarrow> None
          | Some (e, s3) \<Rightarrow> Some (sign @ i @ f @ e, s3))))"

text \<open>\<open>null\<close>, \<open>true\<close>, \<open>false\<close> and numbers.\<close>

definition scalar_at :: "string \<Rightarrow> (json \<times> string) option" where
  "scalar_at s =
     (if take 4 s = ''null'' then Some (JNull, drop 4 s)
      else if take 4 s = ''true'' then Some (JBool True, drop 4 s)
      else if take 5 s = ''false'' then Some (JBool False, drop 5 s)
      else map_option (\<lambda>(n, r). (JNum n, r)) (number_at s))"

definition maxNestingDepth :: nat where
  "maxNestingDepth = 10000"

text \<open>
  \<open>parse_value k d s\<close> parses the value at the front of \<open>s\<close> inside \<open>d\<close> open brackets;
  \<open>parse_elems\<close> and \<open>parse_members\<close> what follows an opening bracket, up to the
  closing one.  The first argument bounds the recursion.
\<close>

fun parse_value :: "nat \<Rightarrow> nat \<Rightarrow> string \<Rightarrow> (json \<times> string) option"
  and parse_elems :: "nat \<Rightarrow> nat \<Rightarrow> string \<Rightarrow> (json list \<times> string) option"
  and parse_members :: "nat \<Rightarrow> nat \<Rightarrow> string \<Rightarrow> ((string \<times> json) list \<times> string) option"
where
  "parse_value 0 d s = None"
| "parse_value (Suc k) d s =
     (case skip_ws s of [] \<Rightarrow> None
      | c # r \<Rightarrow>
         if c = dquote then map_option (\<lambda>(v, r'). (JStr v, r')) (parse_string r)
         else if c = CHR ''['' then
           (if maxNestingDepth \<le> d then None
            else case skip_ws r of
              c' # r' \<Rightarrow> if c' = CHR '']'' then Some (JArr [], r')
                 else map_option (\<lambda>(js, r''). (JArr js, r'')) (parse_elems k (Suc d) (c' # r'))
            | [] \<Rightarrow> None)
         else if c = CHR ''{'' then
           (if maxNestingDepth \<le> d then None
            else case skip_ws r of
              c' # r' \<Rightarrow> if c' = CHR ''}'' then Some (JObj [], r')
                 else map_option (\<lambda>(kvs, r''). (JObj kvs, r'')) (parse_members k (Suc d) (c' # r'))
            | [] \<Rightarrow> None)
         else scalar_at (c # r))"
| "parse_elems 0 d s = None"
| "parse_elems (Suc k) d s =
     (case parse_value k d s of None \<Rightarrow> None
      | Some (v, r) \<Rightarrow> (case skip_ws r of [] \<Rightarrow> None
         | c # r' \<Rightarrow>
            if c = CHR '']'' then Some ([v], r')
            else if c = CHR '','' then map_option (\<lambda>(vs, r''). (v # vs, r'')) (parse_elems k d r')
            else None))"
| "parse_members 0 d s = None"
| "parse_members (Suc k) d s =
     (case skip_ws s of [] \<Rightarrow> None
      | q # t \<Rightarrow> if q \<noteq> dquote then None
         else (case parse_string t of None \<Rightarrow> None
           | Some (key, t') \<Rightarrow> (case skip_ws t' of [] \<Rightarrow> None
             | c # t'' \<Rightarrow> if c \<noteq> CHR '':'' then None
               else (case parse_value k d t'' of None \<Rightarrow> None
                 | Some (v, r) \<Rightarrow> (case skip_ws r of [] \<Rightarrow> None
                   | c' # r' \<Rightarrow>
                      if c' = CHR ''}'' then Some ([(key, v)], r')
                      else if c' = CHR '','' then
                        map_option (\<lambda>(kvs, r''). ((key, v) # kvs, r'')) (parse_members k d r')
                      else None)))))"

definition parse_json :: "string \<Rightarrow> json option" where
  "parse_json s = (case parse_value (2 * length s + 1) 0 s of
       Some (j, r) \<Rightarrow> (if skip_ws r = [] then Some j else None)
     | None \<Rightarrow> None)"

section \<open>The bound on the recursion is never reached\<close>

lemma skip_ws_length: "length (skip_ws s) \<le> length s"
  by (simp add: skip_ws_def length_dropWhile_le)

lemma digits_at_length: "digits_at s = Some (ds, r) \<Longrightarrow> length r < length s"
proof -
  assume d: "digits_at s = Some (ds, r)"
  then have "takeWhile is_digit s \<noteq> []" "r = dropWhile is_digit s"
    by (auto simp: digits_at_def split: list.splits)
  moreover have "length (takeWhile is_digit s) + length (dropWhile is_digit s) = length s"
    by (metis length_append takeWhile_dropWhile_id)
  ultimately show ?thesis by (cases "takeWhile is_digit s") auto
qed

lemma number_at_length: "number_at s = Some (n, r) \<Longrightarrow> length r < length s"
proof -
  have int: "length r < length s" if "integer_at s = Some (i, r)" for s i r
    using that by (auto simp: integer_at_def split: list.splits if_splits dest: digits_at_length)
  have frac: "length r \<le> length s" if "fraction_at s = Some (i, r)" for s i r
    using that by (auto simp: fraction_at_def split: list.splits if_splits dest: digits_at_length)
  have exp: "length r \<le> length s" if "exponent_at s = Some (i, r)" for s i r
    using that by (auto simp: exponent_at_def split: list.splits if_splits dest!: digits_at_length)
  show ?thesis if "number_at s = Some (n, r)"
    using that
    by (auto simp: number_at_def Let_def split: list.splits if_splits option.splits
        dest!: int frac exp)
qed

lemma scalar_at_length: "scalar_at s = Some (j, r) \<Longrightarrow> length r < length s"
  by (auto simp: scalar_at_def split: if_splits dest: number_at_length) (cases s; simp)+

lemma parse_length:
  "parse_value k d s = Some (j, r) \<Longrightarrow> length r < length s"
  "parse_elems k d s = Some (js, r) \<Longrightarrow> length r < length s"
  "parse_members k d s = Some (kvs, r) \<Longrightarrow> length r < length s"
proof (induction k d s and k d s and k d s arbitrary: j r and js r and kvs r
    rule: parse_value_parse_elems_parse_members.induct)
  case (2 k d s)
  show ?case
  proof (cases "skip_ws s")
    case Nil
    with 2 show ?thesis by simp
  next
    case (Cons c t)
    then have len: "length t < length s" using skip_ws_length [of s] by simp
    have ws: "length u \<le> length t" if "skip_ws t = a # u" for a u
      using skip_ws_length [of t] that by simp
    from 2(3) Cons 2(1,2) show ?thesis
      using len ws by (fastforce split: if_splits list.splits dest: parse_string_length scalar_at_length)
  qed
next
  case (4 k d s)
  then obtain v u c w where v: "parse_value k d s = Some (v, u)" "skip_ws u = c # w"
    by (auto split: option.splits list.splits)
  then have "length u < length s" "length w < length u"
    using 4(1) skip_ws_length [of u] by auto
  with v 4 show ?case by (fastforce split: if_splits)
next
  case (6 k d s)
  then obtain t key t' u v r' c w where *: "skip_ws s = dquote # t" "parse_string t = Some (key, t')"
      "skip_ws t' = CHR '':'' # u" "parse_value k d u = Some (v, r')" "skip_ws r' = c # w"
    by (auto split: option.splits list.splits if_splits)
  then have "length t < length s" "length t' < length t" "length u < length t'" "length r' < length u"
      "length w < length r'"
    using 6(1) skip_ws_length [of s] skip_ws_length [of t'] skip_ws_length [of r']
    by (auto dest: parse_string_length)
  with * 6 show ?case by (fastforce split: if_splits)
qed simp_all

lemma parse_fuel:
  "2 * length s < k \<Longrightarrow> parse_value (Suc k) d s = parse_value k d s"
  "2 * length s + 1 < k \<Longrightarrow> parse_elems (Suc k) d s = parse_elems k d s"
  "2 * length s + 1 < k \<Longrightarrow> parse_members (Suc k) d s = parse_members k d s"
proof (induction k d s and k d s and k d s rule: parse_value_parse_elems_parse_members.induct)
  case (2 k d s)
  show ?case
  proof (cases "skip_ws s")
    case Nil
    then show ?thesis by simp
  next
    case (Cons c t)
    have len: "2 * length (a # u) + 1 < k" if "skip_ws t = a # u" for a u
      using skip_ws_length [of s] skip_ws_length [of t] Cons that 2(3) by simp
    have "parse_elems (Suc k) (Suc d) (a # u) = parse_elems k (Suc d) (a # u)"
      if "\<not> maxNestingDepth \<le> d" "skip_ws t = a # u" "c = CHR ''[''" "a \<noteq> CHR '']''" for a u
      using 2(1) [OF Cons] that len by simp
    moreover have "parse_members (Suc k) (Suc d) (a # u) = parse_members k (Suc d) (a # u)"
      if "\<not> maxNestingDepth \<le> d" "skip_ws t = a # u" "c = CHR ''{''" "a \<noteq> CHR ''}''" for a u
      using 2(2) [OF Cons] that len by simp
    ultimately show ?thesis
      using Cons by (auto split: list.splits simp del: parse_elems.simps parse_members.simps)
  qed
next
  case (4 k d s)
  have v: "parse_value (Suc k) d s = parse_value k d s" using 4 by simp
  have "parse_elems (Suc k) d w = parse_elems k d w"
    if "parse_value k d s = Some (x, u)" "skip_ws u = CHR '','' # w" for x u w
  proof -
    have "length u < length s" "length w < length u"
      using that parse_length(1) [OF that(1)] skip_ws_length [of u] by auto
    with 4(2) [OF that(1) refl that(2)] 4(3) show ?thesis by simp
  qed
  with v show ?case
    by (simp split: option.splits list.splits del: parse_value.simps)
next
  case (6 k d s)
  have rec: "parse_value (Suc k) d u = parse_value k d u \<and>
      (\<forall>v r' w. parse_value k d u = Some (v, r') \<longrightarrow> skip_ws r' = CHR '','' # w \<longrightarrow>
         parse_members (Suc k) d w = parse_members k d w)"
    if "skip_ws s = dquote # t" "parse_string t = Some (key, t')" "skip_ws t' = CHR '':'' # u"
    for t key t' u
  proof -
    have len: "length t < length s" "length t' < length t" "length u < length t'"
      using that skip_ws_length [of s] skip_ws_length [of t'] parse_string_length [OF that(2)] by auto
    have "parse_members (Suc k) d w = parse_members k d w"
      if "parse_value k d u = Some (v, r')" "skip_ws r' = CHR '','' # w" for v r' w
    proof -
      have "length r' < length u" "length w < length r'"
        using that parse_length(1) [OF that(1)] skip_ws_length [of r'] by auto
      with 6 that \<open>skip_ws s = dquote # t\<close> \<open>parse_string t = Some (key, t')\<close>
        \<open>skip_ws t' = CHR '':'' # u\<close> len show ?thesis by simp
    qed
    moreover have "parse_value (Suc k) d u = parse_value k d u"
      using 6(1) [OF that(1) _ that(2) refl that(3)] 6(3) len by simp
    ultimately show ?thesis by blast
  qed
  then show ?case
    by (simp split: option.splits list.splits del: parse_value.simps)
qed simp_all

lemma parse_value_fuel:
  assumes "2 * length s < k" and "k \<le> k'"
  shows "parse_value k' d s = parse_value k d s"
  using assms(2,1)
proof (induction rule: dec_induct)
  case (step n)
  then show ?case using parse_fuel(1) [of s n d] by simp
qed simp

section \<open>Parsing what was written\<close>

text \<open>
  What the writer is given: strings in UTF-8, numbers the parser reads back, and
  brackets nested within the limit.  After a number comes a comma, a closing bracket
  or the end.
\<close>

definition delim :: "string \<Rightarrow> bool" where
  "delim s = (case s of [] \<Rightarrow> True | c # _ \<Rightarrow> c \<in> {CHR '','', CHR '']'', CHR ''}''})"

definition num_ok :: "string \<Rightarrow> bool" where
  "num_ok n \<longleftrightarrow> n \<noteq> [] \<and> (hd n = CHR ''-'' \<or> is_digit (hd n))
     \<and> (\<forall>r. delim r \<longrightarrow> number_at (n @ r) = Some (n, r))"

fun json_ok :: "nat \<Rightarrow> json \<Rightarrow> bool" where
  "json_ok d (JNum n) = num_ok n"
| "json_ok d (JStr s) = utf8_valid s"
| "json_ok d (JArr js) = (d < maxNestingDepth \<and> (\<forall>j \<in> set js. json_ok (Suc d) j))"
| "json_ok d (JObj kvs) =
     (d < maxNestingDepth \<and> (\<forall>(k, v) \<in> set kvs. utf8_valid k \<and> json_ok (Suc d) v))"
| "json_ok d _ = True"

lemma delim_simps [simp]:
  "delim []" "delim (CHR '','' # s)" "delim (CHR '']'' # s)" "delim (CHR ''}'' # s)"
  by (simp_all add: delim_def)

lemma skip_ws_Cons [simp]: "\<not> is_ws c \<Longrightarrow> skip_ws (c # s) = c # s"
  by (simp add: skip_ws_def)

lemma not_ws [simp]:
  "\<not> is_ws dquote" "\<not> is_ws CHR '']''" "\<not> is_ws CHR ''}''" "\<not> is_ws CHR '',''" "\<not> is_ws CHR '':''"
  "\<not> is_ws CHR ''[''" "\<not> is_ws CHR ''{''" "\<not> is_ws CHR ''-''"
  by (simp_all add: is_ws_def)

lemma digit_not_ws: "is_digit c \<Longrightarrow> \<not> is_ws c"
  by (auto simp: is_digit_def is_ws_def)

text \<open>The first character of a written value.\<close>

lemma render_first:
  assumes "json_ok d j"
  obtains c t where "render j = c # t" and "\<not> is_ws c" and "c \<noteq> CHR '']''"
proof -
  have "\<exists>c t. render j = c # t \<and> \<not> is_ws c \<and> c \<noteq> CHR '']''"
  proof (cases j)
    case (JNum n)
    with assms show ?thesis
      by (cases n) (auto simp: num_ok_def is_digit_def is_ws_def)
  qed (auto simp: quote_def is_ws_def)
  then show ?thesis using that by blast
qed

lemma parse_scalar:
  assumes "json_ok d j" and "delim rest" and "case j of JArr _ \<Rightarrow> False | JObj _ \<Rightarrow> False | _ \<Rightarrow> True"
  shows "parse_value (Suc k) d (render j @ rest) = Some (j, rest)"
proof (cases j)
  case JNull
  then show ?thesis by (simp add: scalar_at_def is_ws_def)
next
  case (JBool b)
  then show ?thesis by (simp add: scalar_at_def is_ws_def)
next
  case (JNum n)
  with assms(1) obtain c m where n: "n = c # m" "c = CHR ''-'' \<or> is_digit c" and
      "number_at (n @ rest) = Some (n, rest)"
    using assms(2) by (cases n) (auto simp: num_ok_def)
  moreover have "\<not> is_ws c" "c \<noteq> dquote" "c \<noteq> CHR ''[''" "c \<noteq> CHR ''{''" "c \<noteq> CHR ''n''"
      "c \<noteq> CHR ''t''" "c \<noteq> CHR ''f''"
    using n(2) by (auto simp: is_digit_def is_ws_def)
  ultimately show ?thesis
    using JNum by (simp add: scalar_at_def)
next
  case (JStr s)
  with assms(1) show ?thesis
    by (simp add: quote_def parse_string_quote_body)
qed (use assms(3) in simp_all)

definition parses :: "nat \<Rightarrow> json \<Rightarrow> bool" where
  "parses d j \<longleftrightarrow> (\<forall>rest. delim rest \<longrightarrow>
     (\<exists>k0. \<forall>k \<ge> k0. parse_value k d (render j @ rest) = Some (j, rest)))"

lemma parsesD:
  "parses d j \<Longrightarrow> delim rest \<Longrightarrow>
     \<exists>k0. \<forall>k \<ge> k0. parse_value k d (render j @ rest) = Some (j, rest)"
  by (simp add: parses_def)

lemma parses_scalar:
  assumes "json_ok d j" and "case j of JArr _ \<Rightarrow> False | JObj _ \<Rightarrow> False | _ \<Rightarrow> True"
  shows "parses d j"
  unfolding parses_def
proof (intro allI impI)
  fix rest assume "delim rest"
  with assms have "parse_value k d (render j @ rest) = Some (j, rest)" if "1 \<le> k" for k
    using that parse_scalar [of d j rest "k - 1"] by simp
  then show "\<exists>k0. \<forall>k \<ge> k0. parse_value k d (render j @ rest) = Some (j, rest)" by blast
qed

lemma parse_elems_render:
  assumes "js \<noteq> []" and "\<forall>j \<in> set js. parses d j"
  shows "\<exists>k0. \<forall>k \<ge> k0. parse_elems k d (Join (map render js) '','' @ '']'' @ rest) = Some (js, rest)"
  using assms
proof (induction js rule: list_nonempty_induct)
  case (single j)
  then obtain k0 where k0: "\<forall>k \<ge> k0. parse_value k d (render j @ CHR '']'' # rest) = Some (j, CHR '']'' # rest)"
    using parsesD [of d j "CHR '']'' # rest"] by auto
  have "parse_elems k d (Join (map render [j]) '','' @ '']'' @ rest) = Some ([j], rest)" if "Suc k0 \<le> k" for k
    using that k0 by (cases k) auto
  then show ?case by blast
next
  case (cons j js)
  define r where "r = Join (map render js) '','' @ '']'' @ rest"
  obtain k1 where k1: "\<forall>k \<ge> k1. parse_elems k d r = Some (js, rest)"
    using cons by (auto simp: r_def)
  have "parses d j" using cons.prems by simp
  then obtain k0 where k0: "\<forall>k \<ge> k0. parse_value k d (render j @ CHR '','' # r) = Some (j, CHR '','' # r)"
    using parsesD delim_simps(2) by blast
  have eq: "Join (map render (j # js)) '','' @ '']'' @ rest = render j @ CHR '','' # r"
    using cons.hyps by (cases js) (auto simp: r_def)
  have "parse_elems k d (Join (map render (j # js)) '','' @ '']'' @ rest) = Some (j # js, rest)"
    if "Suc (max k0 k1) \<le> k" for k
    unfolding eq using that k0 k1 by (cases k) auto
  then show ?case by blast
qed

lemma parse_members_render:
  assumes "kvs \<noteq> []" and "\<forall>(key, v) \<in> set kvs. utf8_valid key \<and> parses d v"
  shows "\<exists>k0. \<forall>k \<ge> k0. parse_members k d
    (Join (map (\<lambda>(k, v). quote k @ '':'' @ render v) kvs) '','' @ ''}'' @ rest) = Some (kvs, rest)"
  using assms
proof (induction kvs rule: list_nonempty_induct)
  case (single kv)
  obtain key v where kv: "kv = (key, v)" by (cases kv)
  with single obtain k0 where
      k0: "\<forall>k \<ge> k0. parse_value k d (render v @ CHR ''}'' # rest) = Some (v, CHR ''}'' # rest)"
    using parsesD [of d v "CHR ''}'' # rest"] by auto
  have "parse_members k d (Join (map (\<lambda>(k, v). quote k @ '':'' @ render v) [kv]) '','' @ ''}'' @ rest)
      = Some ([kv], rest)" if "Suc k0 \<le> k" for k
    using that k0 single kv by (cases k) (auto simp: quote_def parse_string_quote_body)
  then show ?case by blast
next
  case (cons kv kvs)
  obtain key v where kv: "kv = (key, v)" by (cases kv)
  define r where "r = Join (map (\<lambda>(k, v). quote k @ '':'' @ render v) kvs) '','' @ ''}'' @ rest"
  obtain k1 where k1: "\<forall>k \<ge> k1. parse_members k d r = Some (kvs, rest)"
    using cons by (auto simp: r_def)
  have key: "parses d v" "utf8_valid key" using cons.prems kv by auto
  then obtain k0 where k0: "\<forall>k \<ge> k0. parse_value k d (render v @ CHR '','' # r) = Some (v, CHR '','' # r)"
    using parsesD delim_simps(2) by blast
  have eq: "Join (map (\<lambda>(k, v). quote k @ '':'' @ render v) (kv # kvs)) '','' @ ''}'' @ rest
      = dquote # quote_body key @ dquote # CHR '':'' # render v @ CHR '','' # r"
    using cons.hyps kv by (cases kvs) (auto simp: r_def quote_def)
  have "parse_members k d (Join (map (\<lambda>(k, v). quote k @ '':'' @ render v) (kv # kvs)) '','' @ ''}'' @ rest)
      = Some (kv # kvs, rest)" if "Suc (max k0 k1) \<le> k" for k
    unfolding eq using that k0 k1 key kv by (cases k) (auto simp: parse_string_quote_body)
  then show ?case by blast
qed

lemma parses_brackets:
  assumes "d < maxNestingDepth" and "\<exists>k0. \<forall>k \<ge> k0. parse_elems k (Suc d) (c # s) = Some (js, rest)"
    and "\<not> is_ws c" and "c \<noteq> CHR '']''"
  shows "\<exists>k0. \<forall>k \<ge> k0. parse_value k d (CHR ''['' # c # s) = Some (JArr js, rest)"
proof -
  from assms(2) obtain k0 where "\<forall>k \<ge> k0. parse_elems k (Suc d) (c # s) = Some (js, rest)" ..
  then have "parse_value k d (CHR ''['' # c # s) = Some (JArr js, rest)" if "Suc k0 \<le> k" for k
    using that assms by (cases k) auto
  then show ?thesis by blast
qed

lemma parses_braces:
  assumes "d < maxNestingDepth" and "\<exists>k0. \<forall>k \<ge> k0. parse_members k (Suc d) (c # s) = Some (kvs, rest)"
    and "\<not> is_ws c" and "c \<noteq> CHR ''}''"
  shows "\<exists>k0. \<forall>k \<ge> k0. parse_value k d (CHR ''{'' # c # s) = Some (JObj kvs, rest)"
proof -
  from assms(2) obtain k0 where "\<forall>k \<ge> k0. parse_members k (Suc d) (c # s) = Some (kvs, rest)" ..
  then have "parse_value k d (CHR ''{'' # c # s) = Some (JObj kvs, rest)" if "Suc k0 \<le> k" for k
    using that assms by (cases k) auto
  then show ?thesis by blast
qed

lemma Join_Cons_first: "\<exists>t. Join ((c # s) # ss) sep = c # t"
  by (cases ss) auto

lemma json_parses: "json_ok d j \<Longrightarrow> parses d j"
proof (induction j arbitrary: d rule: render.induct)
  case (5 js)
  show ?case unfolding parses_def
  proof (intro allI impI)
    fix rest assume "delim rest"
    show "\<exists>k0. \<forall>k \<ge> k0. parse_value k d (render (JArr js) @ rest) = Some (JArr js, rest)"
    proof (cases js)
      case Nil
      have "parse_value k d (render (JArr js) @ rest) = Some (JArr js, rest)" if "1 \<le> k" for k
        using that Nil "5.prems" by (cases k) auto
      then show ?thesis by blast
    next
      case (Cons j js')
      with "5.prems" obtain c t where c: "render j = c # t" "\<not> is_ws c" "c \<noteq> CHR '']''"
        using render_first [of "Suc d" j] by auto
      obtain u where u: "Join (map render js) '','' = c # u"
        using Join_Cons_first [of c t "map render js'"] Cons c(1) by auto
      have "\<exists>k0. \<forall>k \<ge> k0. parse_elems k (Suc d) (c # u @ '']'' @ rest) = Some (js, rest)"
        using parse_elems_render [of js "Suc d" rest] "5.IH" "5.prems" Cons u by auto
      with parses_brackets [of d c "u @ '']'' @ rest" js rest] "5.prems" c u show ?thesis by simp
    qed
  qed
next
  case (6 kvs)
  show ?case unfolding parses_def
  proof (intro allI impI)
    fix rest assume "delim rest"
    show "\<exists>k0. \<forall>k \<ge> k0. parse_value k d (render (JObj kvs) @ rest) = Some (JObj kvs, rest)"
    proof (cases kvs)
      case Nil
      have "parse_value k d (render (JObj kvs) @ rest) = Some (JObj kvs, rest)" if "1 \<le> k" for k
        using that Nil "6.prems" by (cases k) (auto simp: is_ws_def)
      then show ?thesis by blast
    next
      case (Cons kv kvs')
      let ?m = "\<lambda>(k, v). quote k @ '':'' @ render v"
      obtain u where u: "Join (map ?m kvs) '','' = dquote # u"
        using Join_Cons_first [of dquote _ "map ?m kvs'"] Cons by (cases kv) (auto simp: quote_def)
      have "\<forall>(key, v) \<in> set kvs. utf8_valid key \<and> parses (Suc d) v"
        using "6.IH" "6.prems" by fastforce
      then have "\<exists>k0. \<forall>k \<ge> k0. parse_members k (Suc d) (dquote # u @ ''}'' @ rest) = Some (kvs, rest)"
        using parse_members_render [of kvs "Suc d" rest] Cons u by auto
      with parses_braces [of d dquote "u @ ''}'' @ rest" kvs rest] "6.prems" u show ?thesis by simp
    qed
  qed
qed (rule parses_scalar; simp)+

lemma parse_json_render:
  assumes "json_ok 0 j"
  shows "parse_json (render j) = Some j"
proof -
  obtain k0 where k0: "\<forall>k \<ge> k0. parse_value k 0 (render j @ []) = Some (j, [])"
    using parsesD [OF json_parses [OF assms] delim_simps(1)] by blast
  let ?k = "2 * length (render j) + 1"
  have "parse_value (max k0 ?k) 0 (render j) = parse_value ?k 0 (render j)"
    by (rule parse_value_fuel) auto
  then have "parse_value ?k 0 (render j) = Some (j, [])"
    using k0 by (metis max.cobounded1 append_Nil2)
  then show ?thesis by (simp only: parse_json_def) (simp add: skip_ws_def)
qed

end
