(* ===== verification/Base64.thy ===== *)
theory Base64
  imports GoStd
begin

text \<open>
  The standard encoding of \<^verbatim>\<open>encoding/base64\<close>, in which \<^verbatim>\<open>encoding/json\<close> writes and
  reads byte slices.
\<close>

definition b64_alphabet :: string where
  "b64_alphabet = ''ABCDEFGHIJKLMNOPQRSTUVWXYZabcdefghijklmnopqrstuvwxyz0123456789+/''"

abbreviation b64 :: "nat \<Rightarrow> char" where
  "b64 n \<equiv> b64_alphabet ! n"

fun Base64Encode :: "bytes \<Rightarrow> string" where
  "Base64Encode [] = []"
| "Base64Encode [a] = (let n = unat a * 16 in [b64 (n div 64), b64 (n mod 64), CHR ''='', CHR ''='' ])"
| "Base64Encode [a, b] = (let n = (unat a * 256 + unat b) * 4 in
     [b64 (n div 4096), b64 (n div 64 mod 64), b64 (n mod 64), CHR ''='' ])"
| "Base64Encode (a # b # c # r) = (let n = (unat a * 256 + unat b) * 256 + unat c in
     [b64 (n div 262144), b64 (n div 4096 mod 64), b64 (n div 64 mod 64), b64 (n mod 64)] @ Base64Encode r)"

definition b64_val :: "char \<Rightarrow> nat option" where
  "b64_val c = (let n = of_char c :: nat in
     if 65 \<le> n \<and> n \<le> 90 then Some (n - 65)
     else if 97 \<le> n \<and> n \<le> 122 then Some (n - 71)
     else if 48 \<le> n \<and> n \<le> 57 then Some (n + 4)
     else if n = 43 then Some 62
     else if n = 47 then Some 63
     else None)"

text \<open>
  Groups of four; padding only at the end.  The unused low bits before the padding are not
  checked.
\<close>

fun b64_groups :: "string \<Rightarrow> bytes option" where
  "b64_groups [] = Some []"
| "b64_groups (c1 # c2 # c3 # c4 # r) =
     (case (b64_val c1, b64_val c2) of
        (Some v1, Some v2) \<Rightarrow>
          if c3 = CHR ''='' then
            (if c4 = CHR ''='' \<and> r = [] then Some [of_nat ((v1 * 64 + v2) div 16)] else None)
          else (case b64_val c3 of None \<Rightarrow> None
            | Some v3 \<Rightarrow>
               if c4 = CHR ''='' then
                 (if r = [] then (let n = ((v1 * 64 + v2) * 64 + v3) div 4
                                  in Some [of_nat (n div 256), of_nat (n mod 256)]) else None)
               else (case b64_val c4 of None \<Rightarrow> None
                 | Some v4 \<Rightarrow> (let n = ((v1 * 64 + v2) * 64 + v3) * 64 + v4
                     in map_option (\<lambda>bs. of_nat (n div 65536) # of_nat (n div 256 mod 256) # of_nat (n mod 256) # bs)
                          (b64_groups r))))
      | _ \<Rightarrow> None)"
| "b64_groups _ = None"

text \<open>Line breaks are ignored everywhere.\<close>

definition Base64Decode :: "string \<Rightarrow> bytes result" where
  "Base64Decode s = (case b64_groups (filter (\<lambda>c. c \<noteq> CHR 0x0A \<and> c \<noteq> CHR 0x0D) s) of
     None \<Rightarrow> Err ErrJson | Some bs \<Rightarrow> Ok bs)"

lemma b64_val_b64: "n < 64 \<Longrightarrow> b64_val (b64 n) = Some n"
proof -
  assume n: "n < 64"
  have "map b64_val b64_alphabet = map Some [0..<64]"
    by (simp add: b64_alphabet_def b64_val_def upt_rec)
  then have "map b64_val b64_alphabet ! n = map Some [0..<64] ! n" by simp
  moreover have "length b64_alphabet = 64" by (simp add: b64_alphabet_def)
  ultimately show ?thesis using n by simp
qed

lemma b64_plain: "n < 64 \<Longrightarrow> b64 n \<noteq> CHR ''='' \<and> b64 n \<noteq> CHR 0x0A \<and> b64 n \<noteq> CHR 0x0D
    \<and> (of_char (b64 n) :: nat) < 128"
proof -
  assume n: "n < 64"
  have "list_all (\<lambda>c. c \<noteq> CHR ''='' \<and> c \<noteq> CHR 0x0A \<and> c \<noteq> CHR 0x0D \<and> (of_char c :: nat) < 128) b64_alphabet"
    by (simp add: b64_alphabet_def)
  moreover have "length b64_alphabet = 64" by (simp add: b64_alphabet_def)
  ultimately show ?thesis using n by (simp add: list_all_length)
qed

lemma b64_quad:
  assumes "n < (16777216 :: nat)"
  shows "n div 262144 < 64" and "n div 4096 mod 64 < 64"
    and "((n div 262144 * 64 + n div 4096 mod 64) * 64 + n div 64 mod 64) * 64 + n mod 64 = n"
proof -
  show "n div 262144 < 64" using assms by (simp add: less_mult_imp_div_less)
  show "n div 4096 mod 64 < 64" by simp
  have "n div 4096 = n div 262144 * 64 + n div 4096 mod 64"
    using div_mult_mod_eq [of "n div 4096" 64] by (simp add: div_mult2_eq [symmetric])
  moreover have "n div 64 = n div 4096 * 64 + n div 64 mod 64"
    using div_mult_mod_eq [of "n div 64" 64] by (simp add: div_mult2_eq [symmetric])
  ultimately show "((n div 262144 * 64 + n div 4096 mod 64) * 64 + n div 64 mod 64) * 64 + n mod 64 = n"
    by simp
qed

lemma three_bytes:
  assumes "a < 256" and "b < 256" and "c < (256 :: nat)"
  shows "(a * 256 + b) * 256 + c < 16777216"
    and "((a * 256 + b) * 256 + c) div 65536 = a"
    and "((a * 256 + b) * 256 + c) div 256 mod 256 = b"
    and "((a * 256 + b) * 256 + c) mod 256 = c"
proof -
  have "((a * 256 + b) * 256 + c) div 256 = a * 256 + b" using assms by simp
  moreover have "((a * 256 + b) * 256 + c) div 65536 = ((a * 256 + b) * 256 + c) div 256 div 256"
    by (simp add: div_mult2_eq [symmetric])
  ultimately show "((a * 256 + b) * 256 + c) div 65536 = a"
    and "((a * 256 + b) * 256 + c) div 256 mod 256 = b" using assms by simp_all
  show "((a * 256 + b) * 256 + c) mod 256 = c"
    using assms(3) by (metis mod_mult_self3 mod_less)
qed (use assms in simp)

lemma two_bytes: "a < 256 \<Longrightarrow> b < 256 \<Longrightarrow> (a * 256 + b) * 4 < (262144 :: nat)"
  by simp

lemma b64_groups_1:
  "x < 4096 \<Longrightarrow> b64_groups [b64 (x div 64), b64 (x mod 64), CHR ''='', CHR ''='' ] = Some [of_nat (x div 16)]"
  using div_mult_mod_eq [of x 64] by (simp add: b64_val_b64 less_mult_imp_div_less)

lemma b64_groups_2:
  assumes "x < 262144"
  shows "b64_groups [b64 (x div 4096), b64 (x div 64 mod 64), b64 (x mod 64), CHR ''='' ]
    = Some [of_nat (x div 4 div 256), of_nat (x div 4 mod 256)]"
proof -
  have "x div 64 = x div 4096 * 64 + x div 64 mod 64"
    using div_mult_mod_eq [of "x div 64" 64] by (simp add: div_mult2_eq [symmetric])
  then have "(x div 4096 * 64 + x div 64 mod 64) * 64 + x mod 64 = x"
    by simp
  moreover have "x div 4096 < 64" using assms by (simp add: less_mult_imp_div_less)
  ultimately show ?thesis by (simp add: b64_val_b64 b64_plain Let_def)
qed

lemma b64_groups_3:
  assumes "x < 16777216"
  shows "b64_groups ([b64 (x div 262144), b64 (x div 4096 mod 64), b64 (x div 64 mod 64), b64 (x mod 64)] @ r)
    = map_option (\<lambda>bs. of_nat (x div 65536) # of_nat (x div 256 mod 256) # of_nat (x mod 256) # bs) (b64_groups r)"
  using b64_quad [OF assms] b64_plain [of "x div 64 mod 64"] b64_plain [of "x mod 64"]
  by (simp add: b64_val_b64 Let_def)

lemma b64_groups_encode: "b64_groups (Base64Encode bs) = Some bs"
proof (induction bs rule: Base64Encode.induct)
  case (2 a)
  have "unat a * 16 < 4096" using unat_byte_less [of a] by simp
  from b64_groups_1 [OF this] show ?case unfolding Base64Encode.simps Let_def by simp
next
  case (3 a b)
  let ?m = "unat a * 256 + unat b"
  from b64_groups_2 [OF two_bytes [OF unat_byte_less unat_byte_less], of a b] have "b64_groups (Base64Encode [a, b])
      = Some [of_nat (?m div 256), of_nat (?m mod 256)]"
    unfolding Base64Encode.simps Let_def by (simp only: nonzero_mult_div_cancel_right)
  moreover have "?m div 256 = unat a" "?m mod 256 = unat b" by simp_all
  ultimately show ?case by (simp only:) simp
next
  case (4 a b c r)
  note n = three_bytes [OF unat_byte_less unat_byte_less unat_byte_less, of a b c]
  from 4 have IH: "b64_groups (Base64Encode r) = Some r" by blast
  show ?case
    unfolding Base64Encode.simps Let_def b64_groups_3 [OF n(1)] IH n(2,3,4) by simp
qed simp

lemma Base64Encode_plain:
  "c \<in> set (Base64Encode bs) \<Longrightarrow> c \<noteq> CHR 0x0A \<and> c \<noteq> CHR 0x0D \<and> (of_char c :: nat) < 128"
proof (induction bs rule: Base64Encode.induct)
  case (2 a)
  have "unat a * 16 div 64 < 64"
    using unat_byte_less [of a] by (intro less_mult_imp_div_less) simp
  with 2 show ?case using b64_plain by (auto simp: Let_def)
next
  case (3 a b)
  have "(unat a * 256 + unat b) * 4 div 4096 < 64"
    using two_bytes [OF unat_byte_less unat_byte_less, of a b] by (intro less_mult_imp_div_less) simp
  with 3 show ?case using b64_plain by (auto simp: Let_def)
next
  case (4 a b c' r)
  note n = three_bytes [OF unat_byte_less unat_byte_less unat_byte_less, of a b c']
  from b64_quad(1) [OF n(1)] 4 show ?case using b64_plain by (auto simp: Let_def)
qed simp

lemma Base64Decode_Base64Encode [simp]: "Base64Decode (Base64Encode bs) = Ok bs"
proof -
  have "filter (\<lambda>c. c \<noteq> CHR 0x0A \<and> c \<noteq> CHR 0x0D) (Base64Encode bs) = Base64Encode bs"
    using Base64Encode_plain by (auto simp: filter_id_conv)
  then show ?thesis by (simp add: Base64Decode_def b64_groups_encode)
qed

lemma Base64Encode_eq_Nil [simp]: "Base64Encode bs = [] \<longleftrightarrow> bs = []"
  by (cases bs rule: Base64Encode.cases) (auto simp: Let_def)

interpretation base64: encoding "\<lambda>bs. Ok (Base64Encode bs)" Base64Decode
  by unfold_locales auto

end
