(* ===== verification/Node.thy ===== *)
theory Node
  imports Address JsonValue Base64 "HOL-Library.List_Lexorder" "HOL-Library.Char_ord" "HOL-Library.Multiset"
begin

text \<open>
  \<^verbatim>\<open>dag/node.go\<close> and \<^verbatim>\<open>dag/util.go\<close>: the node of the graph, the bytes that are signed,
  signatures, and the JSON form in which a node is stored.

  A field of the Go struct carries the prefix \<open>n\<close>.  A Go map is the list of its entries in
  ascending key order, so equal maps are equal lists; a nil slice or map is the empty list.
\<close>

section \<open>Nodes\<close>

record Node =
  nSeq :: "32 word"
  nTimestamp :: string
  nAddress :: string
  nPrevious :: string
  nBranch :: string
  nBranchRoot :: string
  nProperties :: "(string \<times> string) list"
  nBranches :: "string list"
  nData :: bytes
  nPubKey :: string
  nSignature :: string

definition NewNode :: Node where
  "NewNode = \<lparr>nSeq = 0, nTimestamp = '''', nAddress = '''', nPrevious = '''', nBranch = '''',
     nBranchRoot = '''', nProperties = [], nBranches = [], nData = [], nPubKey = '''', nSignature = ''''\<rparr>"

section \<open>The signed bytes\<close>

text \<open>
  \<open>getMapBytes\<close> ranges over the map in an arbitrary order \<open>ks\<close> of its keys, sorts
  them, and appends each key and its value.
\<close>

definition getMapBytes_in :: "string list \<Rightarrow> (string \<times> string) list \<Rightarrow> bytes" where
  "getMapBytes_in ks dataMap =
     concat (map (\<lambda>k. bytes_of k @ bytes_of (case map_of dataMap k of None \<Rightarrow> '''' | Some v \<Rightarrow> v))
       (sort ks))"

definition getMapBytes :: "(string \<times> string) list \<Rightarrow> bytes" where
  "getMapBytes dataMap = getMapBytes_in (map fst dataMap) dataMap"

definition getSliceBytes :: "string list \<Rightarrow> bytes" where
  "getSliceBytes dataSlice = concat (map bytes_of dataSlice)"

definition GetBytesForSigning :: "Node \<Rightarrow> bytes" where
  "GetBytesForSigning m =
     bytes_of (Itoa (sint (nSeq m))) @
     bytes_of (nTimestamp m) @
     bytes_of (nAddress m) @
     bytes_of (nPrevious m) @
     bytes_of (nBranch m) @
     getMapBytes (nProperties m) @
     getSliceBytes (nBranches m) @
     nData m"

text \<open>The package has its own copy of \<open>VerifySignature\<close>.\<close>

definition dag_VerifySignature :: "crypto_env \<Rightarrow> bytes \<Rightarrow> bytes \<Rightarrow> bytes \<Rightarrow> bool" where
  "dag_VerifySignature E signature pubKey data =
     (let sigLen = length signature;
          r = SetBytes (take (sigLen div 2) signature);
          s = SetBytes (drop (sigLen div 2) signature);
          keyLen = length pubKey;
          x = SetBytes (take (keyLen div 2) pubKey);
          y = SetBytes (drop (keyLen div 2) pubKey)
      in ecdsa_verify E (x, y) data (r, s))"

definition node_Sign :: "crypto_env \<Rightarrow> bytes \<Rightarrow> Node \<Rightarrow> ecdsa_key \<Rightarrow> Node result" where
  "node_Sign E rnd m privateKey =
     (let data = GetBytesForSigning m; hash = sha256 E data in
      bind_result (Sign E rnd hash privateKey) (\<lambda>s. Ok (m\<lparr>nSignature := HexEncode s\<rparr>)))"

text \<open>The result of a check that returns only an error.\<close>

definition node_VerifySignature :: "crypto_env \<Rightarrow> Node \<Rightarrow> unit result" where
  "node_VerifySignature E m =
     (case HexDecode (nSignature m) of
        (_, Some _) \<Rightarrow> Err ErrUnableToDecodeNodeSignature
      | (sign, None) \<Rightarrow>
        (case HexDecode (nPubKey m) of
           (_, Some _) \<Rightarrow> Err ErrUnableToDecodeNodePubKey
         | (pubKey, None) \<Rightarrow>
           (let data = GetBytesForSigning m; hash = sha256 E data in
            if \<not> dag_VerifySignature E sign pubKey hash then Err ErrNodeSignatureDoesNotMatch
            else Ok ())))"

section \<open>The JSON of a node\<close>

text \<open>
  \<^verbatim>\<open>json.Marshal\<close> of the struct: the fields in declaration order, those with an empty value
  left out.
\<close>

definition str_field :: "string \<Rightarrow> string \<Rightarrow> (string \<times> json) list" where
  "str_field name v = (if v = '''' then [] else [(name, JStr v)])"

definition node_fields :: "Node \<Rightarrow> (string \<times> json) list" where
  "node_fields m =
     (if nSeq m = 0 then [] else [(''seq'', JNum (Itoa (sint (nSeq m))))]) @
     str_field ''timestamp'' (nTimestamp m) @
     str_field ''address'' (nAddress m) @
     str_field ''previous'' (nPrevious m) @
     str_field ''branch'' (nBranch m) @
     str_field ''branchRoot'' (nBranchRoot m) @
     (if nProperties m = [] then []
      else [(''properties'', JObj (map (\<lambda>(k, v). (k, JStr v)) (nProperties m)))]) @
     (if nBranches m = [] then [] else [(''branches'', JArr (map JStr (nBranches m)))]) @
     (if nData m = [] then [] else [(''data'', JStr (Base64Encode (nData m)))]) @
     str_field ''pubKey'' (nPubKey m) @
     str_field ''signature'' (nSignature m)"

definition ToJson :: "Node \<Rightarrow> bytes result" where
  "ToJson m = Ok (bytes_of (render (JObj (node_fields m))))"

text \<open>
  \<^verbatim>\<open>json.Unmarshal\<close> into a node.  A member selects a field when the names agree but for the
  case of letters; the long s and the Kelvin sign fold to ASCII letters.  Unknown
  members are skipped, \<open>null\<close> leaves strings and numbers as they are and clears slices
  and maps, and a value of another type is an error.
\<close>

fun fold_name :: "string \<Rightarrow> string" where
  "fold_name [] = []"
| "fold_name (c # s) =
     (if 97 \<le> code c \<and> code c \<le> 122 then char_of (code c - 32) # fold_name s
      else if take 2 (c # s) = [CHR 0xC5, CHR 0xBF] then CHR ''S'' # fold_name (drop 1 s)
      else if take 3 (c # s) = [CHR 0xE2, CHR 0x84, CHR 0xAA] then CHR ''K'' # fold_name (drop 2 s)
      else c # fold_name s)"

definition decode_string :: "string \<Rightarrow> json \<Rightarrow> string option" where
  "decode_string old j = (case j of JStr s \<Rightarrow> Some s | JNull \<Rightarrow> Some old | _ \<Rightarrow> None)"

text \<open>An integer literal without fraction and exponent, as \<^verbatim>\<open>strconv.ParseInt\<close> wants it.\<close>

definition literal_nat :: "string \<Rightarrow> nat option" where
  "literal_nat s = (if s \<noteq> [] \<and> list_all is_digit s
     then Some (undigits 10 (map (\<lambda>c. code c - 48) s)) else None)"

definition literal_int :: "string \<Rightarrow> int option" where
  "literal_int s = (case s of
     c # r \<Rightarrow> if c = CHR ''-'' then map_option (\<lambda>n. - int n) (literal_nat r)
              else map_option int (literal_nat s)
   | [] \<Rightarrow> None)"

definition decode_int32 :: "32 word \<Rightarrow> json \<Rightarrow> (32 word) option" where
  "decode_int32 old j = (case j of
     JNum s \<Rightarrow> (case literal_int s of
        Some i \<Rightarrow> if - (2 ^ 31) \<le> i \<and> i < 2 ^ 31 then Some (word_of_int i) else None
      | None \<Rightarrow> None)
   | JNull \<Rightarrow> Some old
   | _ \<Rightarrow> None)"

text \<open>The elements of an array go into the slice in order; a \<open>null\<close> keeps what is there.\<close>

fun decode_elems :: "('a \<Rightarrow> json \<Rightarrow> 'a option) \<Rightarrow> 'a \<Rightarrow> 'a list \<Rightarrow> json list \<Rightarrow> 'a list option" where
  "decode_elems f z old [] = Some []"
| "decode_elems f z old (j # js) =
     (case f (case old of [] \<Rightarrow> z | x # _ \<Rightarrow> x) j of None \<Rightarrow> None
      | Some v \<Rightarrow> map_option (\<lambda>vs. v # vs) (decode_elems f z (tl old) js))"

definition decode_strings :: "string list \<Rightarrow> json \<Rightarrow> string list option" where
  "decode_strings old j = (case j of
     JArr js \<Rightarrow> decode_elems decode_string '''' old js | JNull \<Rightarrow> Some [] | _ \<Rightarrow> None)"

definition decode_byte :: "byte \<Rightarrow> json \<Rightarrow> byte option" where
  "decode_byte old j = (case j of
     JNum s \<Rightarrow> (case literal_nat s of Some n \<Rightarrow> if n < 256 then Some (of_nat n) else None | None \<Rightarrow> None)
   | JNull \<Rightarrow> Some old
   | _ \<Rightarrow> None)"

definition decode_bytes :: "bytes \<Rightarrow> json \<Rightarrow> bytes option" where
  "decode_bytes old j = (case j of
     JStr s \<Rightarrow> (case Base64Decode s of Ok bs \<Rightarrow> Some bs | _ \<Rightarrow> None)
   | JArr js \<Rightarrow> decode_elems decode_byte 0 old js
   | JNull \<Rightarrow> Some []
   | _ \<Rightarrow> None)"

fun map_put :: "string \<Rightarrow> 'v \<Rightarrow> (string \<times> 'v) list \<Rightarrow> (string \<times> 'v) list" where
  "map_put k v [] = [(k, v)]"
| "map_put k v ((k', v') # m) =
     (if k = k' then (k, v) # m
      else if k < k' then (k, v) # (k', v') # m
      else (k', v') # map_put k v m)"

fun decode_members :: "(string \<times> string) list \<Rightarrow> (string \<times> json) list \<Rightarrow> (string \<times> string) list option" where
  "decode_members m [] = Some m"
| "decode_members m ((k, j) # kvs) =
     (case decode_string '''' j of None \<Rightarrow> None | Some v \<Rightarrow> decode_members (map_put k v m) kvs)"

definition decode_map :: "(string \<times> string) list \<Rightarrow> json \<Rightarrow> (string \<times> string) list option" where
  "decode_map old j = (case j of
     JObj kvs \<Rightarrow> decode_members old kvs | JNull \<Rightarrow> Some [] | _ \<Rightarrow> None)"

definition decode_field :: "string \<Rightarrow> json \<Rightarrow> Node \<Rightarrow> Node option" where
  "decode_field name j m =
     (let f = fold_name name in
      if f = ''SEQ'' then map_option (\<lambda>v. m\<lparr>nSeq := v\<rparr>) (decode_int32 (nSeq m) j)
      else if f = ''TIMESTAMP'' then map_option (\<lambda>v. m\<lparr>nTimestamp := v\<rparr>) (decode_string (nTimestamp m) j)
      else if f = ''ADDRESS'' then map_option (\<lambda>v. m\<lparr>nAddress := v\<rparr>) (decode_string (nAddress m) j)
      else if f = ''PREVIOUS'' then map_option (\<lambda>v. m\<lparr>nPrevious := v\<rparr>) (decode_string (nPrevious m) j)
      else if f = ''BRANCH'' then map_option (\<lambda>v. m\<lparr>nBranch := v\<rparr>) (decode_string (nBranch m) j)
      else if f = ''BRANCHROOT'' then map_option (\<lambda>v. m\<lparr>nBranchRoot := v\<rparr>) (decode_string (nBranchRoot m) j)
      else if f = ''PROPERTIES'' then map_option (\<lambda>v. m\<lparr>nProperties := v\<rparr>) (decode_map (nProperties m) j)
      else if f = ''BRANCHES'' then map_option (\<lambda>v. m\<lparr>nBranches := v\<rparr>) (decode_strings (nBranches m) j)
      else if f = ''DATA'' then map_option (\<lambda>v. m\<lparr>nData := v\<rparr>) (decode_bytes (nData m) j)
      else if f = ''PUBKEY'' then map_option (\<lambda>v. m\<lparr>nPubKey := v\<rparr>) (decode_string (nPubKey m) j)
      else if f = ''SIGNATURE'' then map_option (\<lambda>v. m\<lparr>nSignature := v\<rparr>) (decode_string (nSignature m) j)
      else Some m)"

fun decode_fields :: "(string \<times> json) list \<Rightarrow> Node \<Rightarrow> Node option" where
  "decode_fields [] m = Some m"
| "decode_fields ((k, j) # kvs) m =
     (case decode_field k j m of None \<Rightarrow> None | Some m' \<Rightarrow> decode_fields kvs m')"

text \<open>\<open>FromJson\<close> fills the node it is called on; the package calls it on an empty one.\<close>

definition FromJson :: "Node \<Rightarrow> bytes \<Rightarrow> Node result" where
  "FromJson m js =
     (case parse_json (string_of js) of
        None \<Rightarrow> Err ErrJson
      | Some j \<Rightarrow>
        (case (case j of JObj kvs \<Rightarrow> decode_fields kvs m | JNull \<Rightarrow> Some m | _ \<Rightarrow> None) of
           None \<Rightarrow> Err ErrJson
         | Some m' \<Rightarrow> Ok m'))"

section \<open>Integers as literals\<close>

lemma code_digit_char: "d < 10 \<Longrightarrow> code (digit_char d) = 48 + d"
  by (simp add: digit_char_def)

lemma utoa_digits: "list_all is_digit (utoa n)"
proof -
  have "48 \<le> code (digit_char d) \<and> code (digit_char d) \<le> 57" if "d \<in> set (digits 10 n)" for d
    using digits_less [of 10 d n] that by (simp add: code_digit_char)
  then show ?thesis by (auto simp: utoa_def list_all_iff is_digit_def)
qed

lemma utoa_neq_Nil [simp]: "utoa n \<noteq> []"
  using undigits_digits [of 10 n] by (auto simp: utoa_def)

lemma utoa_hd: "0 < n \<Longrightarrow> hd (utoa n) \<noteq> CHR ''0''"
proof -
  assume n: "0 < n"
  have lt: "\<forall>d \<in> set (digits 10 n). d < 10" using digits_less [of 10] by auto
  have "dropWhile (\<lambda>d. d = 0) (digits 10 n) = digits 10 n"
    using digits_undigits [of 10 "digits 10 n"] lt by (simp add: undigits_digits)
  moreover have ne: "digits 10 n \<noteq> []" using utoa_neq_Nil [of n] n by (simp add: utoa_def)
  ultimately have "hd (digits 10 n) \<noteq> 0"
    by (metis (full_types) hd_dropWhile)
  moreover have "code (hd (utoa n)) = 48 + hd (digits 10 n)"
    using n ne lt by (simp add: utoa_def hd_map code_digit_char)
  ultimately show ?thesis by auto
qed

lemma literal_nat_utoa: "literal_nat (utoa n) = Some n"
proof (cases "n = 0")
  case True
  then show ?thesis by (simp add: literal_nat_def utoa_def is_digit_def undigits_def)
next
  case False
  have "((\<lambda>c. code c - 48) \<circ> digit_char) d = d" if "d \<in> set (digits 10 n)" for d
    using digits_less [of 10 d n] that by (simp add: code_digit_char)
  then have "map ((\<lambda>c. code c - 48) \<circ> digit_char) (digits 10 n) = digits 10 n"
    by (rule map_idI)
  then have "undigits 10 (map (\<lambda>c. code c - 48) (utoa n)) = n"
    using False by (simp add: utoa_def undigits_digits)
  then show ?thesis
    using utoa_digits [of n] by (simp add: literal_nat_def)
qed

lemma utoa_hd_digit: "is_digit (hd (utoa n))"
  using utoa_digits [of n] by (cases "utoa n") auto

lemma minus_not_digit [simp]: "\<not> is_digit CHR ''-''"
  by (simp add: is_digit_def)

lemma literal_int_Itoa: "literal_int (Itoa i) = Some i"
  using utoa_hd_digit [of "nat i"] utoa_neq_Nil [of "nat i"] literal_nat_utoa [of "nat i"]
  by (cases "utoa (nat i)") (auto simp: literal_int_def Itoa_def literal_nat_utoa split: if_splits)

lemma delim_not_number:
  "delim r \<Longrightarrow> takeWhile is_digit r = [] \<and> dropWhile is_digit r = r
     \<and> fraction_at r = Some ([], r) \<and> exponent_at r = Some ([], r)"
  by (cases r) (auto simp: delim_def is_digit_def fraction_at_def exponent_at_def)

lemma integer_at_utoa: "delim r \<Longrightarrow> integer_at (utoa n @ r) = Some (utoa n, r)"
proof (cases "n = 0")
  case True
  then show ?thesis by (simp add: integer_at_def utoa_def)
next
  case False
  assume r: "delim r"
  obtain c s where cs: "utoa n = c # s" by (cases "utoa n") auto
  have "takeWhile is_digit (utoa n @ r) = utoa n" "dropWhile is_digit (utoa n @ r) = r"
    using utoa_digits [of n] delim_not_number [OF r]
    by (simp_all add: takeWhile_append dropWhile_append list_all_iff)
  then show ?thesis
    using utoa_hd [of n] False cs by (simp add: integer_at_def digits_at_def)
qed

lemma num_ok_Itoa: "num_ok (Itoa i)"
proof -
  have *: "number_at (utoa n @ r) = Some (utoa n, r)" "number_at (CHR ''-'' # utoa n @ r) = Some (CHR ''-'' # utoa n, r)"
    if "delim r" for n r
  proof -
    obtain c s where cs: "utoa n = c # s" by (cases "utoa n") auto
    then have "c \<noteq> CHR ''-''" using utoa_hd_digit [of n] by auto
    with cs show "number_at (utoa n @ r) = Some (utoa n, r)"
        "number_at (CHR ''-'' # utoa n @ r) = Some (CHR ''-'' # utoa n, r)"
      using integer_at_utoa [OF that, of n] delim_not_number [OF that]
      by (simp_all add: number_at_def)
  qed
  then show ?thesis
    using utoa_hd_digit [of "nat i"] by (simp add: num_ok_def Itoa_def)
qed

lemma decode_int32_Itoa: "decode_int32 old (JNum (Itoa (sint w))) = Some w"
proof -
  have "- (2 ^ 31) \<le> sint w" "sint w < 2 ^ 31"
    using sint_greater_eq [of w] sint_less [of w] by simp_all
  then show ?thesis by (simp add: decode_int32_def literal_int_Itoa)
qed

section \<open>Nodes survive storage\<close>

text \<open>
  A node whose texts are valid UTF-8 (the representation of its map being in key order)
  is read back as it was written.
\<close>

definition node_ok :: "Node \<Rightarrow> bool" where
  "node_ok m \<longleftrightarrow>
     list_all utf8_valid [nTimestamp m, nAddress m, nPrevious m, nBranch m, nBranchRoot m, nPubKey m, nSignature m]
     \<and> list_all utf8_valid (nBranches m)
     \<and> list_all (\<lambda>(k, v). utf8_valid k \<and> utf8_valid v) (nProperties m)
     \<and> sorted_wrt (<) (map fst (nProperties m))"

lemma fold_names:
  "fold_name ''seq'' = ''SEQ''" "fold_name ''timestamp'' = ''TIMESTAMP''"
  "fold_name ''address'' = ''ADDRESS''" "fold_name ''previous'' = ''PREVIOUS''"
  "fold_name ''branch'' = ''BRANCH''" "fold_name ''branchRoot'' = ''BRANCHROOT''"
  "fold_name ''properties'' = ''PROPERTIES''" "fold_name ''branches'' = ''BRANCHES''"
  "fold_name ''data'' = ''DATA''" "fold_name ''pubKey'' = ''PUBKEY''"
  "fold_name ''signature'' = ''SIGNATURE''"
  by code_simp+

lemma node_fields_ok:
  assumes "node_ok m"
  shows "json_ok 0 (JObj (node_fields m))"
proof -
  have names: "utf8_valid ''seq''" "utf8_valid ''timestamp''" "utf8_valid ''address''"
    "utf8_valid ''previous''" "utf8_valid ''branch''" "utf8_valid ''branchRoot''"
    "utf8_valid ''properties''" "utf8_valid ''branches''" "utf8_valid ''data''"
    "utf8_valid ''pubKey''" "utf8_valid ''signature''"
    by simp_all
  have "utf8_valid (Base64Encode bs)" for bs
    by (rule utf8_valid_ascii) (auto dest: Base64Encode_plain)
  with assms names show ?thesis
    by (auto simp: node_ok_def node_fields_def str_field_def num_ok_Itoa maxNestingDepth_def list_all_iff)
qed

lemma decode_field_simps:
  "decode_field ''seq'' j m = map_option (\<lambda>v. m\<lparr>nSeq := v\<rparr>) (decode_int32 (nSeq m) j)"
  "decode_field ''timestamp'' j m = map_option (\<lambda>v. m\<lparr>nTimestamp := v\<rparr>) (decode_string (nTimestamp m) j)"
  "decode_field ''address'' j m = map_option (\<lambda>v. m\<lparr>nAddress := v\<rparr>) (decode_string (nAddress m) j)"
  "decode_field ''previous'' j m = map_option (\<lambda>v. m\<lparr>nPrevious := v\<rparr>) (decode_string (nPrevious m) j)"
  "decode_field ''branch'' j m = map_option (\<lambda>v. m\<lparr>nBranch := v\<rparr>) (decode_string (nBranch m) j)"
  "decode_field ''branchRoot'' j m = map_option (\<lambda>v. m\<lparr>nBranchRoot := v\<rparr>) (decode_string (nBranchRoot m) j)"
  "decode_field ''properties'' j m = map_option (\<lambda>v. m\<lparr>nProperties := v\<rparr>) (decode_map (nProperties m) j)"
  "decode_field ''branches'' j m = map_option (\<lambda>v. m\<lparr>nBranches := v\<rparr>) (decode_strings (nBranches m) j)"
  "decode_field ''data'' j m = map_option (\<lambda>v. m\<lparr>nData := v\<rparr>) (decode_bytes (nData m) j)"
  "decode_field ''pubKey'' j m = map_option (\<lambda>v. m\<lparr>nPubKey := v\<rparr>) (decode_string (nPubKey m) j)"
  "decode_field ''signature'' j m = map_option (\<lambda>v. m\<lparr>nSignature := v\<rparr>) (decode_string (nSignature m) j)"
  by (simp_all only: decode_field_def fold_names Let_def) (simp_all add: option.map_ident)

text \<open>A written field sets an empty field, whether it was left out or not.\<close>

lemma decode_str_fields:
  "nTimestamp m = '''' \<Longrightarrow> decode_fields (str_field ''timestamp'' v @ ys) m = decode_fields ys (m\<lparr>nTimestamp := v\<rparr>)"
  "nAddress m = '''' \<Longrightarrow> decode_fields (str_field ''address'' v @ ys) m = decode_fields ys (m\<lparr>nAddress := v\<rparr>)"
  "nPrevious m = '''' \<Longrightarrow> decode_fields (str_field ''previous'' v @ ys) m = decode_fields ys (m\<lparr>nPrevious := v\<rparr>)"
  "nBranch m = '''' \<Longrightarrow> decode_fields (str_field ''branch'' v @ ys) m = decode_fields ys (m\<lparr>nBranch := v\<rparr>)"
  "nBranchRoot m = '''' \<Longrightarrow> decode_fields (str_field ''branchRoot'' v @ ys) m = decode_fields ys (m\<lparr>nBranchRoot := v\<rparr>)"
  "nPubKey m = '''' \<Longrightarrow> decode_fields (str_field ''pubKey'' v @ ys) m = decode_fields ys (m\<lparr>nPubKey := v\<rparr>)"
  "nSignature m = '''' \<Longrightarrow> decode_fields (str_field ''signature'' v @ ys) m = decode_fields ys (m\<lparr>nSignature := v\<rparr>)"
  by (cases m; simp add: str_field_def decode_field_simps decode_string_def)+

lemma decode_strings_JStr: "decode_strings old (JArr (map JStr ss)) = Some ss"
proof -
  have "decode_elems decode_string '''' old (map JStr ss) = Some ss"
    by (induction ss arbitrary: old) (simp_all add: decode_string_def)
  then show ?thesis by (simp add: decode_strings_def)
qed

lemma map_put_snoc: "\<forall>k' \<in> fst ` set m. k' < k \<Longrightarrow> map_put k v m = m @ [(k, v)]"
  by (induction k v m rule: map_put.induct) auto

lemma decode_members_sorted:
  "sorted_wrt (<) (map fst (m @ kvs)) \<Longrightarrow>
     decode_members m (map (\<lambda>(k, v). (k, JStr v)) kvs) = Some (m @ kvs)"
proof (induction kvs arbitrary: m)
  case (Cons kv kvs)
  obtain k v where kv: "kv = (k, v)" by (cases kv)
  have "map_put k v m = m @ [(k, v)]"
    using Cons.prems kv by (intro map_put_snoc) (auto simp: sorted_wrt_append)
  with Cons.IH [of "m @ [(k, v)]"] Cons.prems kv show ?case
    by (simp add: decode_string_def)
qed simp

lemma decode_map_JObj:
  "sorted_wrt (<) (map fst kvs) \<Longrightarrow>
     decode_map [] (JObj (map (\<lambda>(k, v). (k, JStr v)) kvs)) = Some kvs"
  using decode_members_sorted [of "[]" kvs] by (simp add: decode_map_def)

lemma decode_other_fields:
  "nSeq m = 0 \<Longrightarrow> decode_fields ((if w = 0 then [] else [(''seq'', JNum (Itoa (sint w)))]) @ ys) m
     = decode_fields ys (m\<lparr>nSeq := w\<rparr>)"
  "nProperties m = [] \<Longrightarrow> sorted_wrt (<) (map fst ps) \<Longrightarrow>
     decode_fields ((if ps = [] then [] else [(''properties'', JObj (map (\<lambda>(k, v). (k, JStr v)) ps))]) @ ys) m
     = decode_fields ys (m\<lparr>nProperties := ps\<rparr>)"
  "nBranches m = [] \<Longrightarrow>
     decode_fields ((if bs = [] then [] else [(''branches'', JArr (map JStr bs))]) @ ys) m
     = decode_fields ys (m\<lparr>nBranches := bs\<rparr>)"
  "nData m = [] \<Longrightarrow>
     decode_fields ((if d = [] then [] else [(''data'', JStr (Base64Encode d))]) @ ys) m
     = decode_fields ys (m\<lparr>nData := d\<rparr>)"
  by (cases m; simp add: decode_field_simps decode_int32_Itoa decode_map_JObj decode_strings_JStr decode_bytes_def)+

lemma decode_node_fields:
  assumes "sorted_wrt (<) (map fst (nProperties m))"
  shows "decode_fields (node_fields m) NewNode = Some m"
proof -
  have "decode_fields (str_field ''signature'' v) n = decode_fields [] (n\<lparr>nSignature := v\<rparr>)"
    if "nSignature n = ''''" for n v
    using decode_str_fields(7) [OF that, of v "[]"] by simp
  with assms show ?thesis
    by (simp add: node_fields_def decode_str_fields decode_other_fields NewNode_def)
qed

lemma FromJson_ToJson:
  assumes "node_ok m" and "ToJson m = Ok js"
  shows "FromJson NewNode js = Ok m"
proof -
  have "decode_fields (node_fields m) NewNode = Some m"
    using assms(1) by (simp add: node_ok_def decode_node_fields)
  then show ?thesis
    using assms parse_json_render [OF node_fields_ok [OF assms(1)]]
    by (auto simp: ToJson_def FromJson_def simp del: render.simps)
qed

interpretation node_json: partial_encoding ToJson "FromJson NewNode" node_ok
  by unfold_locales (rule FromJson_ToJson)

section \<open>Signatures of nodes\<close>

lemma dag_VerifySignature_eq: "dag_VerifySignature = VerifySignature"
  by (intro ext) (simp add: dag_VerifySignature_def VerifySignature_def)

lemma GetBytesForSigning_unsigned [simp]:
  "GetBytesForSigning (m\<lparr>nSignature := s\<rparr>) = GetBytesForSigning m"
  "GetBytesForSigning (m\<lparr>nPubKey := pk\<rparr>) = GetBytesForSigning m"
  "GetBytesForSigning (m\<lparr>nBranchRoot := r\<rparr>) = GetBytesForSigning m"
  by (simp_all add: GetBytesForSigning_def)

lemma node_VerifySignature_cong:
  "nSignature m = nSignature m' \<Longrightarrow> nPubKey m = nPubKey m' \<Longrightarrow>
     GetBytesForSigning m = GetBytesForSigning m' \<Longrightarrow> node_VerifySignature E m = node_VerifySignature E m'"
  by (simp only: node_VerifySignature_def)

lemma node_Sign_Ok:
  "node_Sign E rnd m k = Ok m' \<longleftrightarrow>
     (\<exists>s. Sign E rnd (sha256 E (GetBytesForSigning m)) k = Ok s \<and> m' = m\<lparr>nSignature := HexEncode s\<rparr>)"
  by (auto simp: node_Sign_def)

lemma node_VerifySignature_Ok:
  "node_VerifySignature E m = Ok () \<longleftrightarrow>
     (\<exists>sig pk. HexDecode (nSignature m) = (sig, None) \<and> HexDecode (nPubKey m) = (pk, None)
        \<and> VerifySignature E sig pk (sha256 E (GetBytesForSigning m)))"
  by (auto simp: node_VerifySignature_def dag_VerifySignature_eq Let_def split: prod.splits option.splits)

lemma node_Sign_verifies:
  assumes "ecdsa_signs E k" and "key_fits k" and "node_Sign E rnd m k = Ok m'"
    and "nPubKey m = HexEncode (pair_bytes (keyX k) (keyY k))"
  shows "node_VerifySignature E m' = Ok ()"
proof -
  obtain s where s: "Sign E rnd (sha256 E (GetBytesForSigning m)) k = Ok s"
    and m': "m' = m\<lparr>nSignature := HexEncode s\<rparr>"
    using assms(3) by (auto simp: node_Sign_Ok)
  have "VerifySignature E s (pair_bytes (keyX k) (keyY k)) (sha256 E (GetBytesForSigning m))"
    using assms(2) by (intro VerifySignature_Sign [OF assms(1) _ _ s]) (auto simp: key_fits_def)
  then show ?thesis using m' assms(4) by (simp add: node_VerifySignature_Ok)
qed

section \<open>Properties\<close>

text \<open>
  C32: a node survives its JSON.  For every node of valid UTF-8 texts, decoding the JSON the
  node is stored as gives the node back, all fields included.
\<close>

theorem node_json_roundtrip:
  assumes "node_ok m"
  shows "bind_result (ToJson m) (FromJson NewNode) = Ok m"
proof -
  obtain js where "ToJson m = Ok js" by (simp add: ToJson_def)
  with node_json.dec_enc_ok [OF assms this] show ?thesis by simp
qed

definition sample_node :: Node where
  "sample_node = NewNode\<lparr>nSeq := - 1, nTimestamp := ''2024-02-29T23:59:59Z'',
     nBranch := ''main'', nProperties := [(''k'', ''<v>''), (''l'', '''')], nBranches := [''x'', ''''], nData := [0, 255]\<rparr>"

theorem node_json_roundtrip_witness:
  "bind_result (ToJson sample_node) (FromJson NewNode) = Ok sample_node"
  by (rule node_json_roundtrip) (simp add: node_ok_def sample_node_def NewNode_def)

text \<open>
  A signed node verifies.  A node that carries the signer's public key and is then signed
  passes the verification of its signature.
\<close>

theorem node_sign_verify:
  assumes "ecdsa_signs E k" and "key_fits k" and "nPubKey m = PublicKey (keypair_of k)"
    and "node_Sign E rnd m (ToEcdsaPrivateKey (keypair_of k)) = Ok m'"
  shows "node_VerifySignature E m' = Ok ()"
  using node_Sign_verifies [of E k rnd m m'] assms by (simp add: ToEcdsaPrivateKey_keypair_of)

theorem node_sign_verify_witness:
  "\<exists>m'. node_Sign sample_env [] (sample_node\<lparr>nPubKey := PublicKey (keypair_of sample_key)\<rparr>)
      (ToEcdsaPrivateKey (keypair_of sample_key)) = Ok m' \<and> node_VerifySignature sample_env m' = Ok ()"
proof -
  let ?m = "sample_node\<lparr>nPubKey := PublicKey (keypair_of sample_key)\<rparr>"
  have fits: "key_fits sample_key" by (simp add: key_fits_def sample_key_def fits32_def)
  obtain s where "Sign sample_env [] (sha256 sample_env (GetBytesForSigning ?m))
      (ToEcdsaPrivateKey (keypair_of sample_key)) = Ok s" using sample_Sign by blast
  then have "node_Sign sample_env [] ?m (ToEcdsaPrivateKey (keypair_of sample_key)) = Ok (?m\<lparr>nSignature := HexEncode s\<rparr>)"
    unfolding node_Sign_Ok by blast
  with node_sign_verify [OF sample_signs fits _ this] show ?thesis by simp
qed

text \<open>
  The signed bytes do not depend on the order in which Go ranges over the properties.
  Every order of the keys gives the same bytes.
\<close>

theorem signed_map_order:
  assumes "mset ks = mset (map fst props)"
  shows "getMapBytes_in ks props = getMapBytes props"
proof -
  have "sort ks = sort (map fst props)"
    by (rule properties_for_sort) (use assms in simp_all)
  then show ?thesis by (simp add: getMapBytes_def getMapBytes_in_def)
qed

theorem signed_map_order_witness:
  "getMapBytes_in [''b'', ''a''] [(''a'', ''1''), (''b'', ''2'')] = getMapBytes [(''a'', ''1''), (''b'', ''2'')]"
  by (rule signed_map_order) simp

text \<open>
  C39: what a signature does not cover.  Changing the branch root of a node, or moving text
  between the end of one signed field and the start of the next, leaves the outcome of the
  verification as it was.
\<close>

theorem signature_gaps:
  "node_VerifySignature E (m\<lparr>nBranchRoot := r\<rparr>) = node_VerifySignature E m
   \<and> node_VerifySignature E (m\<lparr>nPrevious := p @ x, nBranch := b\<rparr>)
     = node_VerifySignature E (m\<lparr>nPrevious := p, nBranch := x @ b\<rparr>)
   \<and> node_VerifySignature E (m\<lparr>nBranches := bs @ [x], nData := d\<rparr>)
     = node_VerifySignature E (m\<lparr>nBranches := bs, nData := bytes_of x @ d\<rparr>)"
proof -
  have "GetBytesForSigning (m\<lparr>nPrevious := p @ x, nBranch := b\<rparr>)
      = GetBytesForSigning (m\<lparr>nPrevious := p, nBranch := x @ b\<rparr>)"
      "GetBytesForSigning (m\<lparr>nBranches := bs @ [x], nData := d\<rparr>)
      = GetBytesForSigning (m\<lparr>nBranches := bs, nData := bytes_of x @ d\<rparr>)"
    by (simp_all add: GetBytesForSigning_def getSliceBytes_def)
  then show ?thesis by (intro conjI node_VerifySignature_cong) simp_all
qed

end
