(* ===== verification/DataStore.thy ===== *)
theory DataStore
  imports Crypto
begin

text \<open>
  \<^verbatim>\<open>datastore/data-store.go\<close> and \<^verbatim>\<open>datastore/local-data-store.go\<close>: the content-addressed
  store of the nodes.  The interface is the locale \<open>data_store\<close>, what its clients rely on;
  the store in memory is interpreted as one.
\<close>

section \<open>Readers\<close>

text \<open>
  An \<^verbatim>\<open>io.Reader\<close>: the bytes it has still to deliver, and the error it ends with, or
  \<open>None\<close> for a proper end of file.  \<^verbatim>\<open>bytes.Reader\<close> reports the end only when nothing is left.
\<close>

datatype reader = Reader bytes "error option"

datatype read_status = ReadOk | EOF | ReadError error

fun Read :: "nat \<Rightarrow> reader \<Rightarrow> bytes \<times> read_status \<times> reader" where
  "Read n (Reader bs er) =
     (if bs = [] then ([], (case er of None \<Rightarrow> EOF | Some e \<Rightarrow> ReadError e), Reader [] er)
      else (take n bs, ReadOk, Reader (drop n bs) er))"

section \<open>The interface\<close>

text \<open>
  \<open>Put\<close> files a value under a key that is a function \<open>cid\<close> of its bytes, and touches no
  other key; a failed \<open>Put\<close> changes nothing that can be read.
\<close>

locale data_store =
  fixes Put :: "bytes \<Rightarrow> (string \<Rightarrow> string) option \<Rightarrow> (string \<times> string, 'w) io"
    and Get :: "string \<Rightarrow> 'w \<Rightarrow> reader result"
    and cid :: "bytes \<Rightarrow> string"
  assumes put_key: "Put b pf w = (Ok (k, p), w') \<Longrightarrow> k = cid b"
    and get_put: "Put b pf w = (Ok (k, p), w') \<Longrightarrow> Get k w' = Ok (Reader b None)"
    and get_put_other: "Put b pf w = (r, w') \<Longrightarrow> k' \<noteq> cid b \<Longrightarrow> Get k' w' = Get k' w"
    and get_put_failed: "Put b pf w = (r, w') \<Longrightarrow> \<not> is_ok r \<Longrightarrow> Get k' w' = Get k' w"
begin

text \<open>A value that no stored value collides with leaves every stored value in place.\<close>

lemma get_put_stored:
  assumes "Put b pf w = (r, w')" and "Get k w = Ok (Reader b' None)" and "k = cid b \<longrightarrow> b' = b"
  shows "Get k w' = Ok (Reader b' None)"
proof (cases "k = cid b \<and> is_ok r")
  case True
  then obtain k0 p where "r = Ok (k0, p)" by (auto simp: is_ok_iff)
  with True get_put [of b pf w k0 p w'] put_key [of b pf w k0 p w'] assms show ?thesis by auto
next
  case False
  with assms get_put_other [OF assms(1), of k] get_put_failed [OF assms(1)] show ?thesis by auto
qed

text \<open>Storing a value again gives the same key.\<close>

lemma put_again:
  "Put b pf w = (Ok (k, p), w') \<Longrightarrow> Put b pf' v = (Ok (k', p'), v') \<Longrightarrow> k' = k"
  using put_key by blast

end

section \<open>The store in memory\<close>

record localDataStore =
  pairs :: "string \<rightharpoonup> bytes"
  paths :: "string \<rightharpoonup> string"
  tip :: bytes

definition NewLocalFileStore :: localDataStore where
  "NewLocalFileStore = \<lparr>pairs = Map.empty, paths = Map.empty, tip = []\<rparr>"

text \<open>The hash of the bytes, in hexadecimal, is the key.\<close>

definition hexHash :: "crypto_env \<Rightarrow> bytes \<Rightarrow> string" where
  "hexHash E b = HexEncode (sha256 E b)"

lemma slash_notin_hexHash [simp]: "CHR ''/'' \<notin> set (hexHash E b)"
  by (simp add: hexHash_def)

definition local_Put ::
    "crypto_env \<Rightarrow> bytes \<Rightarrow> (string \<Rightarrow> string) option \<Rightarrow> (string \<times> string, localDataStore) io" where
  "local_Put E b pathFunc d =
     (let h = hexHash E b;
          d1 = d\<lparr>pairs := (pairs d)(h \<mapsto> b)\<rparr>
      in case pathFunc of
           None \<Rightarrow> (Ok (h, ''''), d1)
         | Some f \<Rightarrow> let p = f h in (Ok (h, p), d1\<lparr>paths := (paths d1)(p \<mapsto> h)\<rparr>))"

text \<open>\<open>Remove\<close> deletes the value and leaves the paths.\<close>

definition local_Remove ::
    "string \<Rightarrow> (string \<Rightarrow> string) option \<Rightarrow> (unit, localDataStore) io" where
  "local_Remove key pathFunc d = (Ok (), d\<lparr>pairs := (pairs d)(key := None)\<rparr>)"

definition local_Get :: "string \<Rightarrow> localDataStore \<Rightarrow> reader result" where
  "local_Get key d = (case pairs d key of
     None \<Rightarrow> Err DatastoreErrNotFound | Some b \<Rightarrow> Ok (Reader b None))"

interpretation local_store: data_store "local_Put E" local_Get "hexHash E" for E
  by unfold_locales
    (auto simp: local_Put_def local_Get_def Let_def split: option.splits)

text \<open>The invariant of the store: every value is under its own hash.\<close>

definition content_addressed :: "crypto_env \<Rightarrow> localDataStore \<Rightarrow> bool" where
  "content_addressed E d \<longleftrightarrow> (\<forall>k b. pairs d k = Some b \<longrightarrow> k = hexHash E b)"

lemma content_addressed_New [simp]: "content_addressed E NewLocalFileStore"
  by (simp add: content_addressed_def NewLocalFileStore_def)

lemma pairs_local_Put: "local_Put E b pf d = (r, d') \<Longrightarrow> pairs d' = (pairs d)(hexHash E b \<mapsto> b)"
  by (auto simp: local_Put_def Let_def split: option.splits)

lemma content_addressed_Put:
  "content_addressed E d \<Longrightarrow> local_Put E b pf d = (r, d') \<Longrightarrow> content_addressed E d'"
  by (auto simp: content_addressed_def pairs_local_Put)

lemma content_addressed_Remove:
  "content_addressed E d \<Longrightarrow> local_Remove k pf d = (r, d') \<Longrightarrow> content_addressed E d'"
  by (auto simp: content_addressed_def local_Remove_def split: if_splits)

lemma local_Get_Ok: "local_Get k d = Ok rd \<longleftrightarrow> (\<exists>b. pairs d k = Some b \<and> rd = Reader b None)"
  by (auto simp: local_Get_def split: option.splits)

end
