(* ===== verification/GoTime.thy ===== *)
theory GoTime
  imports JsonValue
begin

text \<open>
  What the program uses of package \<^verbatim>\<open>time\<close>: \<open>time.Parse(time.RFC3339, s)\<close>, \<open>Time.Before\<close>,
  and \<open>Format(time.RFC3339)\<close> of a time in UTC.

  The parser is the general one of the standard library run over the layout
  \<open>2006-01-02T15:04:05Z07:00\<close>, with what it accepts beyond RFC 3339: an hour of one digit, a
  fraction after a point or a comma, and offsets of up to 24 hours and 60 minutes.
  A time is a count of seconds and the nanoseconds within the second.
\<close>

section \<open>The calendar\<close>

definition isLeap :: "int \<Rightarrow> bool" where
  "isLeap year \<longleftrightarrow> year mod 4 = 0 \<and> (year mod 100 \<noteq> 0 \<or> year mod 400 = 0)"

definition daysIn :: "nat \<Rightarrow> int \<Rightarrow> nat" where
  "daysIn m year = (if m = 2 then (if isLeap year then 29 else 28)
     else if m = 4 \<or> m = 6 \<or> m = 9 \<or> m = 11 then 30 else 31)"

text \<open>Days from 1 January of year 0 to 1 January of a year, and to the first day of a month.\<close>

definition days_before_year :: "int \<Rightarrow> int" where
  "days_before_year year = 365 * year + (year + 3) div 4 - (year + 99) div 100 + (year + 399) div 400"

definition days_before_month :: "nat \<Rightarrow> int \<Rightarrow> nat" where
  "days_before_month m year = sum_list (map (\<lambda>k. daysIn k year) [1..<m])"

record datetime =
  dtYear :: nat
  dtMonth :: nat
  dtDay :: nat
  dtHour :: nat
  dtMinute :: nat
  dtSecond :: nat

type_synonym instant = "int \<times> nat"

definition Date :: "datetime \<Rightarrow> nat \<Rightarrow> int \<Rightarrow> instant" where
  "Date d nsec zoneOffset =
     ((((days_before_year (int (dtYear d)) + int (days_before_month (dtMonth d) (int (dtYear d)))
         + int (dtDay d) - 1) * 24 + int (dtHour d)) * 60 + int (dtMinute d)) * 60
       + int (dtSecond d) - zoneOffset, nsec)"

definition Before :: "instant \<Rightarrow> instant \<Rightarrow> bool" where
  "Before t u \<longleftrightarrow> fst t < fst u \<or> fst t = fst u \<and> snd t < snd u"

section \<open>Parsing\<close>

definition digit_val :: "char \<Rightarrow> nat" where
  "digit_val c = code c - 48"

text \<open>\<open>getnum\<close>: two digits, or one where the layout does not fix the width.\<close>

definition getnum :: "string \<Rightarrow> bool \<Rightarrow> (nat \<times> string) option" where
  "getnum s fixed =
     (case s of
        c # r \<Rightarrow>
          if \<not> is_digit c then None
          else (case r of
                  c' # r' \<Rightarrow>
                    if is_digit c' then Some (digit_val c * 10 + digit_val c', r')
                    else if fixed then None else Some (digit_val c, r)
                | [] \<Rightarrow> if fixed then None else Some (digit_val c, r))
      | [] \<Rightarrow> None)"

definition get_year :: "string \<Rightarrow> (nat \<times> string) option" where
  "get_year s = (if length s < 4 \<or> \<not> list_all is_digit (take 4 s) then None
     else Some (undigits 10 (map digit_val (take 4 s)), drop 4 s))"

definition skip_char :: "char \<Rightarrow> string \<Rightarrow> string option" where
  "skip_char c s = (case s of d # r \<Rightarrow> if d = c then Some r else None | [] \<Rightarrow> None)"

text \<open>A number of a field, below its bound.\<close>

definition get_below :: "nat \<Rightarrow> string \<Rightarrow> bool \<Rightarrow> (nat \<times> string) option" where
  "get_below n s fixed = (case getnum s fixed of
     Some (v, r) \<Rightarrow> if v < n then Some (v, r) else None | None \<Rightarrow> None)"

text \<open>A point or comma and digits: the nanoseconds, cut after nine digits.\<close>

definition get_fraction :: "string \<Rightarrow> nat \<times> string" where
  "get_fraction s = (case s of
     c # d # r \<Rightarrow>
       if (c = CHR ''.'' \<or> c = CHR '','') \<and> is_digit d then
         (let ds = takeWhile is_digit (d # r); used = take 9 ds
          in (undigits 10 (map digit_val used) * 10 ^ (9 - length used), dropWhile is_digit (d # r)))
       else (0, s)
   | _ \<Rightarrow> (0, s))"

definition get_zone :: "string \<Rightarrow> (int \<times> string) option" where
  "get_zone s =
     (if take 1 s = ''Z'' then Some (0, drop 1 s)
      else if length s < 6 then None
      else if s ! 3 \<noteq> CHR '':'' then None
      else (case getnum (take 2 (drop 1 s)) True of
              None \<Rightarrow> None
            | Some (hr, _) \<Rightarrow>
              (case getnum (take 2 (drop 4 s)) True of
                 None \<Rightarrow> None
               | Some (mm, _) \<Rightarrow>
                 if 24 < hr \<or> 60 < mm then None
                 else if s ! 0 = CHR ''+'' then Some (int ((hr * 60 + mm) * 60), drop 6 s)
                 else if s ! 0 = CHR ''-'' then Some (- int ((hr * 60 + mm) * 60), drop 6 s)
                 else None)))"

definition Parse_RFC3339 :: "string \<Rightarrow> instant option" where
  "Parse_RFC3339 value =
     Option.bind (get_year value) (\<lambda>(year, s).
     Option.bind (skip_char CHR ''-'' s) (\<lambda>s.
     Option.bind (getnum s True) (\<lambda>(month, s).
     if month = 0 \<or> 12 < month then None else
     Option.bind (skip_char CHR ''-'' s) (\<lambda>s.
     Option.bind (getnum s True) (\<lambda>(day, s).
     Option.bind (skip_char CHR ''T'' s) (\<lambda>s.
     Option.bind (get_below 24 s False) (\<lambda>(hour, s).
     Option.bind (skip_char CHR '':'' s) (\<lambda>s.
     Option.bind (get_below 60 s True) (\<lambda>(minute, s).
     Option.bind (skip_char CHR '':'' s) (\<lambda>s.
     Option.bind (get_below 60 s True) (\<lambda>(second, s).
     let (nsec, s) = get_fraction s in
     Option.bind (get_zone s) (\<lambda>(zoneOffset, s).
     if s \<noteq> [] then None
     else if day < 1 \<or> daysIn month (int year) < day then None
     else Some (Date \<lparr>dtYear = year, dtMonth = month, dtDay = day, dtHour = hour,
                  dtMinute = minute, dtSecond = second\<rparr> nsec zoneOffset)))))))))))))"

section \<open>Formatting\<close>

text \<open>The calendar date and clock time of a moment in UTC, of a year of four digits.\<close>

definition datetime_ok :: "datetime \<Rightarrow> bool" where
  "datetime_ok d \<longleftrightarrow> dtYear d < 10000 \<and> 1 \<le> dtMonth d \<and> dtMonth d \<le> 12
     \<and> 1 \<le> dtDay d \<and> dtDay d \<le> daysIn (dtMonth d) (int (dtYear d))
     \<and> dtHour d < 24 \<and> dtMinute d < 60 \<and> dtSecond d < 60"

definition two_digits :: "nat \<Rightarrow> string" where
  "two_digits n = [digit_char (n div 10), digit_char (n mod 10)]"

definition Format_RFC3339 :: "datetime \<Rightarrow> string" where
  "Format_RFC3339 d =
     two_digits (dtYear d div 100) @ two_digits (dtYear d mod 100) @ ''-'' @ two_digits (dtMonth d)
     @ ''-'' @ two_digits (dtDay d) @ ''T'' @ two_digits (dtHour d) @ '':'' @ two_digits (dtMinute d)
     @ '':'' @ two_digits (dtSecond d) @ ''Z''"

text \<open>A local time, with the offset of its zone from UTC in minutes.\<close>

definition Format_local :: "datetime \<Rightarrow> int \<Rightarrow> string" where
  "Format_local d off =
     (if off = 0 then Format_RFC3339 d
      else (let a = nat \<bar>off\<bar> in
        butlast (Format_RFC3339 d) @ (if off < 0 then ''-'' else ''+'')
        @ two_digits (a div 60) @ '':'' @ two_digits (a mod 60)))"

section \<open>What is formatted parses\<close>

lemma digit_char_simps [simp]:
  "n < 10 \<Longrightarrow> is_digit (digit_char n)" "n < 10 \<Longrightarrow> digit_val (digit_char n) = n"
  by (simp_all add: digit_char_def is_digit_def digit_val_def)

lemma getnum_two_digits [simp]: "n < 100 \<Longrightarrow> getnum (two_digits n @ s) fixed = Some (n, s)"
  by (simp add: getnum_def two_digits_def less_mult_imp_div_less)

lemma get_below_two_digits [simp]:
  "n < b \<Longrightarrow> b \<le> 100 \<Longrightarrow> get_below b (two_digits n @ s) fixed = Some (n, s)"
  by (simp add: get_below_def)

lemma skip_char_Cons [simp]: "skip_char c (c # s) = Some s"
  by (simp add: skip_char_def)

lemma four_digits:
  fixes a b c d h l n :: nat
  assumes "a * 10 + b = h" and "c * 10 + d = l" and "h * 100 + l = n"
  shows "((a * 10 + b) * 10 + c) * 10 + d = n"
  unfolding assms [symmetric] by (simp add: algebra_simps)

lemma get_year_two_digits:
  assumes "n < 10000"
  shows "get_year (two_digits (n div 100) @ two_digits (n mod 100) @ s) = Some (n, s)"
proof -
  have *: "n div 100 div 10 < 10" "n div 100 mod 10 < 10" "n mod 100 div 10 < 10" "n mod 100 mod 10 < 10"
    using assms by (auto simp: less_mult_imp_div_less)
  have "((n div 100 div 10 * 10 + n div 100 mod 10) * 10 + n mod 100 div 10) * 10 + n mod 100 mod 10 = n"
    by (rule four_digits; rule div_mult_mod_eq)
  with * show ?thesis
    by (simp add: get_year_def two_digits_def undigits_def)
qed

lemma get_fraction_Z [simp]: "get_fraction ''Z'' = (0, ''Z'')"
  by (simp add: get_fraction_def)

lemma get_zone_Z [simp]: "get_zone ''Z'' = Some (0, '''')"
  by (simp add: get_zone_def)

lemma daysIn_le: "daysIn m y \<le> 31"
  by (simp add: daysIn_def)

lemma Parse_Format:
  assumes "datetime_ok d"
  shows "Parse_RFC3339 (Format_RFC3339 d) = Some (Date d 0 0)"
  using assms daysIn_le [of "dtMonth d" "int (dtYear d)"]
  by (simp add: Parse_RFC3339_def Format_RFC3339_def get_year_two_digits datetime_ok_def Date_def)

lemma Format_ascii: "datetime_ok d \<Longrightarrow> list_all (\<lambda>c. code c < 128) (Format_RFC3339 d)"
proof -
  assume d: "datetime_ok d"
  have *: "list_all (\<lambda>c. code c < 128) (two_digits n)" if "n < 100" for n
    using that by (simp add: two_digits_def digit_char_def less_mult_imp_div_less)
  have "dtDay d < 100" using d daysIn_le [of "dtMonth d" "int (dtYear d)"]
    by (simp add: datetime_ok_def)
  with d show ?thesis
    by (simp add: Format_RFC3339_def datetime_ok_def * less_mult_imp_div_less)
qed

lemma Format_local_ascii:
  assumes "datetime_ok d" and "\<bar>off\<bar> < 24 * 60"
  shows "list_all (\<lambda>c. code c < 128) (Format_local d off)"
proof -
  have two: "list_all (\<lambda>c. code c < 128) (two_digits n)" if "n < 100" for n
    using that by (simp add: two_digits_def digit_char_def less_mult_imp_div_less)
  have "nat \<bar>off\<bar> div 60 < 100" "nat \<bar>off\<bar> mod 60 < 100" using assms(2) by (auto intro: less_trans [of _ 60])
  moreover have "list_all (\<lambda>c. code c < 128) (butlast (Format_RFC3339 d))"
    using Format_ascii [OF assms(1)] by (auto simp: list_all_iff dest: in_set_butlastD)
  ultimately show ?thesis
    using Format_ascii [OF assms(1)] two by (simp add: Format_local_def Let_def)
qed

section \<open>Order of times\<close>

lemma Before_irrefl [simp]: "\<not> Before t t"
  by (simp add: Before_def)

lemma Before_trans: "Before t u \<Longrightarrow> Before u v \<Longrightarrow> Before t v"
  by (auto simp: Before_def)

lemma Before_linear: "t \<noteq> u \<Longrightarrow> Before t u \<or> Before u t"
  by (cases t; cases u) (auto simp: Before_def)

end
