(* ===== verification/Message.thy ===== *)
theory Message
  imports Address GoTime
begin

text \<open>
  \<^verbatim>\<open>message/messages.go\<close> and \<^verbatim>\<open>message/payload.go\<close>: the signed messages that peers exchange,
  with the three payloads the program sends (a text, a name query of
  \<^verbatim>\<open>resolver/messages.go\<close>, an event of \<^verbatim>\<open>event/event.go\<close>).
\<close>

section \<open>Payloads\<close>

record Query =
  qData :: string
  qReference :: string

record event =
  N :: string
  D :: bytes

datatype payload = StringPayload string | QueryPayload Query | EventPayload event

definition Query_Bytes :: "Query \<Rightarrow> bytes" where
  "Query_Bytes m = bytes_of (qData m) @ bytes_of (qReference m)"

definition event_Data :: "event \<Rightarrow> bytes" where
  "event_Data e = D e"

definition event_Bytes :: "event \<Rightarrow> bytes" where
  [simp]: "event_Bytes e = event_Data e"

fun Payload_Bytes :: "payload \<Rightarrow> bytes" where
  "Payload_Bytes (StringPayload s) = bytes_of s"
| "Payload_Bytes (QueryPayload q) = Query_Bytes q"
| "Payload_Bytes (EventPayload e) = event_Bytes e"

section \<open>Messages\<close>

text \<open>A nil payload is \<open>None\<close>.\<close>

record Message =
  mTimestamp :: string
  mAddress :: string
  mType :: string
  mPayload :: "payload option"
  mPublicKey :: string
  mSignature :: string

definition Message_zero :: Message where
  "Message_zero = \<lparr>mTimestamp = '''', mAddress = '''', mType = '''', mPayload = None,
     mPublicKey = '''', mSignature = ''''\<rparr>"

definition payload_part :: "payload option \<Rightarrow> bytes" where
  "payload_part p = (case p of None \<Rightarrow> [] | Some p \<Rightarrow> Payload_Bytes p)"

definition Message_Bytes :: "Message \<Rightarrow> bytes" where
  "Message_Bytes m =
     bytes_of (mTimestamp m) @
     bytes_of (mAddress m) @
     bytes_of (mType m) @
     payload_part (mPayload m) @
     bytes_of (mPublicKey m)"

definition GetID :: "crypto_env \<Rightarrow> Message \<Rightarrow> string" where
  "GetID E m = HexEncode (sha256 E
     (bytes_of (mAddress m) @ bytes_of (mType m) @ payload_part (mPayload m)))"

definition ExtractQuery :: "Message \<Rightarrow> Query" where
  "ExtractQuery m = (case mPayload m of Some (QueryPayload q) \<Rightarrow> q
     | _ \<Rightarrow> \<lparr>qData = '''', qReference = ''''\<rparr>)"

text \<open>
  \<open>SignWithKey\<close> stores the public key before it computes the digest, and keeps it in the
  message even when signing fails.
\<close>

definition SignWithKey :: "crypto_env \<Rightarrow> bytes \<Rightarrow> ecdsa_key \<Rightarrow> (unit, Message) io" where
  "SignWithKey E rnd privateKey m =
     (let pubKey = LeftPadBytes (BigBytes (keyX privateKey)) 32
                 @ LeftPadBytes (BigBytes (keyY privateKey)) 32;
          m1 = m\<lparr>mPublicKey := HexEncode pubKey\<rparr>;
          hash = sha256 E (Message_Bytes m1)
      in case Sign E rnd hash privateKey of
           Ok s \<Rightarrow> (Ok (), m1\<lparr>mSignature := HexEncode s\<rparr>)
         | Err er \<Rightarrow> (Err er, m1)
         | Panic \<Rightarrow> (Panic, m1))"

definition Message_VerifySignature :: "crypto_env \<Rightarrow> Message \<Rightarrow> unit result" where
  "Message_VerifySignature E m =
     (case HexDecode (mSignature m) of
        (_, Some er) \<Rightarrow> Err er
      | (signature, None) \<Rightarrow>
        (let sigLen = length signature;
             R = SetBytes (take (sigLen div 2) signature);
             S = SetBytes (drop (sigLen div 2) signature)
         in case HexDecode (mPublicKey m) of
              (_, Some er) \<Rightarrow> Err er
            | (pubKey, None) \<Rightarrow>
              (let keyLen = length pubKey;
                   x = SetBytes (take (keyLen div 2) pubKey);
                   y = SetBytes (drop (keyLen div 2) pubKey);
                   hash = sha256 E (Message_Bytes m)
               in if ecdsa_verify E (x, y) hash (R, S) then Ok ()
                  else Err ErrSignatureDoesNotMatch)))"

definition Older :: "Message \<Rightarrow> Message \<Rightarrow> bool" where
  "Older m rec =
     (case Parse_RFC3339 (mTimestamp m) of
        None \<Rightarrow> False
      | Some rTimestamp \<Rightarrow>
        (case Parse_RFC3339 (mTimestamp rec) of
           None \<Rightarrow> False
         | Some recTimestamp \<Rightarrow> Before rTimestamp recTimestamp))"

section \<open>Lemmas\<close>

lemma Older_iff:
  "Older m rec \<longleftrightarrow> (\<exists>t u. Parse_RFC3339 (mTimestamp m) = Some t
     \<and> Parse_RFC3339 (mTimestamp rec) = Some u \<and> Before t u)"
  by (simp add: Older_def split: option.splits)

lemma Message_Bytes_signature [simp]: "Message_Bytes (m\<lparr>mSignature := s\<rparr>) = Message_Bytes m"
  by (simp add: Message_Bytes_def)

lemma Message_VerifySignature_decoded:
  assumes "mSignature m = HexEncode sig" and "mPublicKey m = HexEncode pk"
  shows "Message_VerifySignature E m =
    (if VerifySignature E sig pk (sha256 E (Message_Bytes m)) then Ok () else Err ErrSignatureDoesNotMatch)"
  using assms by (simp add: Message_VerifySignature_def VerifySignature_def Let_def)

lemma SignWithKey_Ok:
  "SignWithKey E rnd k m = (Ok u, m') \<longleftrightarrow>
     (let m1 = m\<lparr>mPublicKey := HexEncode (pair_bytes (keyX k) (keyY k))\<rparr> in
      \<exists>s. Sign E rnd (sha256 E (Message_Bytes m1)) k = Ok s \<and> m' = m1\<lparr>mSignature := HexEncode s\<rparr>)"
  by (auto simp: SignWithKey_def pair_bytes_def Let_def split: result.splits)

lemma SignWithKey_verifies:
  assumes "ecdsa_signs E k" and "key_fits k" and "SignWithKey E rnd k m = (Ok (), m')"
  shows "Message_VerifySignature E m' = Ok ()
     \<and> mPublicKey m' = HexEncode (pair_bytes (keyX k) (keyY k))
     \<and> GetID E m' = GetID E m"
proof -
  obtain m1 s where m1: "m1 = m\<lparr>mPublicKey := HexEncode (pair_bytes (keyX k) (keyY k))\<rparr>"
    and s: "Sign E rnd (sha256 E (Message_Bytes m1)) k = Ok s" and m': "m' = m1\<lparr>mSignature := HexEncode s\<rparr>"
    using assms(3) by (auto simp: SignWithKey_Ok Let_def)
  have "VerifySignature E s (pair_bytes (keyX k) (keyY k)) (sha256 E (Message_Bytes m1))"
    using assms(2) by (intro VerifySignature_Sign [OF assms(1) _ _ s]) (auto simp: key_fits_def)
  then have "Message_VerifySignature E m' = Ok ()"
    using Message_VerifySignature_decoded [of m' s "pair_bytes (keyX k) (keyY k)" E] m1 m' by simp
  then show ?thesis using m1 m' by (simp add: GetID_def)
qed

section \<open>Properties\<close>

text \<open>
  A signed message verifies.  When signing succeeds, the message it leaves carries the
  signer's public key, keeps its other fields, and passes the verification a receiver runs.
\<close>

theorem message_sign_verify:
  assumes "ecdsa_signs E k" and "key_fits k" and "SignWithKey E rnd k m = (Ok (), m')"
  shows "Message_VerifySignature E m' = Ok ()
     \<and> mPublicKey m' = HexEncode (pair_bytes (keyX k) (keyY k))
     \<and> GetID E m' = GetID E m"
  by (rule SignWithKey_verifies [OF assms])

theorem message_sign_verify_witness:
  "\<exists>m'. SignWithKey sample_env [] sample_key Message_zero = (Ok (), m')
     \<and> Message_VerifySignature sample_env m' = Ok ()"
proof -
  let ?m1 = "Message_zero\<lparr>mPublicKey := HexEncode (pair_bytes (keyX sample_key) (keyY sample_key))\<rparr>"
  have fits: "key_fits sample_key" by (simp add: key_fits_def sample_key_def fits32_def)
  obtain s where "Sign sample_env [] (sha256 sample_env (Message_Bytes ?m1)) sample_key = Ok s"
    using sample_Sign by blast
  then have "SignWithKey sample_env [] sample_key Message_zero = (Ok (), ?m1\<lparr>mSignature := HexEncode s\<rparr>)"
    by (auto simp: SignWithKey_Ok Let_def)
  with message_sign_verify [OF sample_signs fits this] show ?thesis by blast
qed

text \<open>
  The age of messages.  \<open>Older\<close> is a strict partial order on messages, total on those
  with different readable times; a message whose time cannot be read is neither older
  nor newer than any other.
\<close>

theorem older_order:
  "\<not> Older m m
     \<and> (Older m m' \<and> Older m' m'' \<longrightarrow> Older m m'')
     \<and> (Older m m' \<longrightarrow> \<not> Older m' m)
     \<and> (Parse_RFC3339 (mTimestamp m) = None \<longrightarrow> \<not> Older m m' \<and> \<not> Older m' m)
     \<and> (Parse_RFC3339 (mTimestamp m) = Some t \<and> Parse_RFC3339 (mTimestamp m') = Some t' \<and> t \<noteq> t'
        \<longrightarrow> Older m m' \<or> Older m' m)"
  by (auto simp: Older_iff dest: Before_trans Before_linear)

theorem older_order_witness:
  "let m = Message_zero\<lparr>mTimestamp := ''2024-02-29T23:59:59Z''\<rparr>;
       m' = Message_zero\<lparr>mTimestamp := ''2024-03-01T1:00:00+01:00''\<rparr>
   in Older m m' \<and> \<not> Older m' m"
proof -
  let ?m = "Message_zero\<lparr>mTimestamp := ''2024-02-29T23:59:59Z''\<rparr>"
  let ?m' = "Message_zero\<lparr>mTimestamp := ''2024-03-01T1:00:00+01:00''\<rparr>"
  have "Parse_RFC3339 ''2024-02-29T23:59:59Z'' = Some (63876470399, 0)" by code_simp
  moreover have "Parse_RFC3339 ''2024-03-01T1:00:00+01:00'' = Some (63876470400, 0)" by code_simp
  ultimately have older: "Older ?m ?m'" by (simp add: Older_iff Before_def)
  have "Older ?m ?m' \<longrightarrow> \<not> Older ?m' ?m"
    using older_order [of ?m ?m' ?m "(0, 0)" "(0, 0)"] by (elim conjE)
  from mp [OF this older] show ?thesis unfolding Let_def by (rule conjI [OF older])
qed

end
