(* ===== verification/Cache.thy ===== *)
theory Cache
  imports Prelude
begin

text \<open>
  \<^verbatim>\<open>cache/cache.go\<close> and \<^verbatim>\<open>cache/memory.go\<close>: a map whose records may expire.

  The clock is an explicit argument: a time is a number of nanoseconds, and 0 is Go's zero
  time, at which a record never expires.  The map itself is a \<^verbatim>\<open>sync.Map\<close>, whose operations
  are atomic.
\<close>

section \<open>The code\<close>

type_synonym time = int

record 'a cacheRecord =
  expiresAt :: time
  cvalue :: 'a

definition IsExpired :: "time \<Rightarrow> 'a cacheRecord \<Rightarrow> bool" where
  "IsExpired now r = (if expiresAt r = 0 then False else expiresAt r < now)"

record 'a memoryCache =
  cdata :: "string \<rightharpoonup> 'a cacheRecord"
  defaultTTL :: int

definition NewMemoryCache :: "int \<Rightarrow> 'a memoryCache" where
  "NewMemoryCache ttl = \<lparr>cdata = Map.empty, defaultTTL = ttl\<rparr>"

definition AddWithTTL :: "time \<Rightarrow> string \<Rightarrow> 'a \<Rightarrow> int \<Rightarrow> (unit, 'a memoryCache) io" where
  "AddWithTTL now key v ttl m =
     (let expires = (if ttl > 0 then now + ttl else 0);
          rec = \<lparr>expiresAt = expires, cvalue = v\<rparr>
      in (Ok (), m\<lparr>cdata := (cdata m)(key \<mapsto> rec)\<rparr>))"

definition cache_Add :: "time \<Rightarrow> string \<Rightarrow> 'a \<Rightarrow> (unit, 'a memoryCache) io" where
  "cache_Add now key v m = AddWithTTL now key v (defaultTTL m) m"

text \<open>A record that is not found, or has expired, is \<open>None\<close>.\<close>

definition cache_Get :: "time \<Rightarrow> string \<Rightarrow> 'a memoryCache \<Rightarrow> 'a option result" where
  "cache_Get now key m = (case cdata m key of
     None \<Rightarrow> Ok None
   | Some rec \<Rightarrow> if IsExpired now rec then Ok None else Ok (Some (cvalue rec)))"

definition cache_Delete :: "string \<Rightarrow> (unit, 'a memoryCache) io" where
  "cache_Delete key m = (Ok (), m\<lparr>cdata := (cdata m)(key := None)\<rparr>)"

section \<open>The interface\<close>

text \<open>
  What the users of a cache rely on.  A record is there for its lifetime and not after it,
  where a lifetime that is not positive does not end; a later record replaces an earlier one;
  a record does not disturb another key.
\<close>

definition alive :: "time \<Rightarrow> int \<Rightarrow> time \<Rightarrow> bool" where
  "alive added ttl now \<longleftrightarrow> ttl \<le> 0 \<or> now \<le> added + ttl"

locale cache =
  fixes add :: "time \<Rightarrow> string \<Rightarrow> 'a \<Rightarrow> int \<Rightarrow> (unit, 'c) io"
    and get :: "time \<Rightarrow> string \<Rightarrow> 'c \<Rightarrow> 'a option result"
    and del :: "string \<Rightarrow> (unit, 'c) io"
  assumes get_add: "0 < now \<Longrightarrow> add now k v ttl c = (Ok (), c') \<Longrightarrow>
      get now' k c' = Ok (if alive now ttl now' then Some v else None)"
    and get_add_other: "add now k v ttl c = (r, c') \<Longrightarrow> k' \<noteq> k \<Longrightarrow> get now' k' c' = get now' k' c"
    and get_del: "del k c = (Ok (), c') \<Longrightarrow> get now' k' c' = (if k' = k then Ok None else get now' k' c)"
    and add_ok: "\<exists>c'. add now k v ttl c = (Ok (), c')"
begin

lemma get_forever: "0 < now \<Longrightarrow> add now k v 0 c = (Ok (), c') \<Longrightarrow> get now' k c' = Ok (Some v)"
  using get_add [of now k v 0 c c' now'] by (simp add: alive_def)

lemma get_replaced:
  assumes "0 < t" and "0 < t'" and "add t k v ttl c = (Ok (), c')" and "add t' k v' ttl' c' = (Ok (), c'')"
  shows "get now k c'' = Ok (if alive t' ttl' now then Some v' else None)"
  using get_add assms by blast

end

interpretation memory_cache: cache AddWithTTL cache_Get cache_Delete
  by unfold_locales
    (auto simp: AddWithTTL_def cache_Get_def cache_Delete_def IsExpired_def alive_def Let_def
      split: option.splits if_splits)

section \<open>Properties\<close>

text \<open>
  The lifetime of a cached record.  A record added at a time with a lifetime is found until
  the lifetime has passed and not after it; without a positive lifetime it is found at every
  time; and until it is added again or deleted, no operation on another key changes this.
\<close>

theorem cache_lifetime:
  assumes "0 < now" and "AddWithTTL now k v ttl c = (r, c1)" and "k' \<noteq> k"
    and "AddWithTTL now2 k' v2 ttl2 c1 = (r2, c2)" and "cache_Delete k' c2 = (r3, c3)"
  shows "cache_Get t k c3 = Ok (if ttl \<le> 0 \<or> t \<le> now + ttl then Some v else None)
     \<and> cache_Get t k' c3 = Ok None"
proof -
  have r: "r = Ok ()" "r3 = Ok ()"
    using assms by (auto simp: AddWithTTL_def cache_Delete_def Let_def)
  have "cache_Get t k c1 = Ok (if alive now ttl t then Some v else None)"
    using memory_cache.get_add [of now k v ttl c c1 t] assms(1,2) r(1) by simp
  moreover have "cache_Get t k c2 = cache_Get t k c1"
    using memory_cache.get_add_other [OF assms(4), of k t] assms(3) by simp
  moreover have "cache_Get t l c3 = (if l = k' then Ok None else cache_Get t l c2)" for l
    using memory_cache.get_del [of k' c2 c3 t l] assms(5) r(2) by simp
  ultimately show ?thesis using assms(3) by (simp add: alive_def)
qed

theorem cache_lifetime_witness:
  "\<exists>c. cache_Get 30 ''a'' c = Ok (Some (1 :: nat)) \<and> cache_Get 31 ''a'' c = Ok None"
proof -
  obtain r c1 where c1: "AddWithTTL 10 ''a'' (1 :: nat) 20 (NewMemoryCache 0) = (r, c1)" by (meson surj_pair)
  obtain r2 c2 where c2: "AddWithTTL 12 ''b'' (2 :: nat) 0 c1 = (r2, c2)" by (meson surj_pair)
  obtain r3 c3 where c3: "cache_Delete ''b'' c2 = (r3, c3)" by (meson surj_pair)
  have "cache_Get 30 ''a'' c3 = Ok (Some 1)" "cache_Get 31 ''a'' c3 = Ok None"
    using cache_lifetime [OF _ c1 _ c2 c3, of 30] cache_lifetime [OF _ c1 _ c2 c3, of 31] by simp_all
  then show ?thesis by blast
qed

end
