(* ===== verification/Resolver.thy ===== *)
theory Resolver
  imports Message Cache
begin

text \<open>
  \<^verbatim>\<open>resolver/resolver.go\<close>, \<^verbatim>\<open>resolver/local_resolver.go\<close>, \<^verbatim>\<open>resolver/memory_backend.go\<close>:
  the names under which the heads of the branches are found.  The interface is the
  locale \<open>name_resolver\<close>.
\<close>

section \<open>Names\<close>

definition QueryNameRequest :: string where
  "QueryNameRequest = ''QUERY.NAME.REQUEST''"

definition QueryNameResponse :: string where
  "QueryNameResponse = ''QUERY.NAME.RESPONSE''"

definition getQueryNameRequestFromName :: "crypto_env \<Rightarrow> string \<Rightarrow> Message result" where
  "getQueryNameRequestFromName E name =
     (let parts = Split name CHR ''/'' in
      if length parts < 3 then Err ErrInvalidName
      else (let a = parts ! 1 in
            case IsValid E a of
              Panic \<Rightarrow> Panic
            | Err _ \<Rightarrow> Err ErrInvalidAddrComponent
            | Ok (ok, _) \<Rightarrow>
                if \<not> ok then Err ErrInvalidAddrComponent
                else Ok \<lparr>mTimestamp = '''', mAddress = a, mType = QueryNameRequest,
                         mPayload = Some (QueryPayload \<lparr>qData = name, qReference = ''''\<rparr>),
                         mPublicKey = '''', mSignature = ''''\<rparr>))"

section \<open>The interface\<close>

text \<open>
  A name that was added resolves to its value and no other name changes; a failed
  \<open>Add\<close> changes nothing.
\<close>

locale name_table =
  fixes Resolve :: "string \<Rightarrow> 'w \<Rightarrow> string result"
    and Add :: "string \<Rightarrow> string \<Rightarrow> (unit, 'w) io"
  assumes resolve_add: "Add n v w = (Ok (), w') \<Longrightarrow> Resolve n w' = Ok v"
    and resolve_add_other: "Add n v w = (r, w') \<Longrightarrow> n' \<noteq> n \<Longrightarrow> Resolve n' w' = Resolve n' w"
    and resolve_add_failed: "Add n v w = (r, w') \<Longrightarrow> \<not> is_ok r \<Longrightarrow> Resolve n' w' = Resolve n' w"
begin

lemma resolve_add_cases:
  assumes "Add n v w = (r, w')"
  shows "Resolve n' w' = (if n' = n \<and> is_ok r then Ok v else Resolve n' w)"
  using resolve_add [of n v w w'] resolve_add_other [OF assms] resolve_add_failed [OF assms] assms
  by (cases r) auto

lemma resolve_add_twice:
  "Add n v w = (Ok (), w') \<Longrightarrow> Add n v' w' = (Ok (), w'') \<Longrightarrow> Resolve n w'' = Ok v'"
  by (rule resolve_add)

end

text \<open>A resolver in which \<open>Manage\<close> changes no name.\<close>

locale name_resolver = name_table Resolve Add
  for Resolve :: "string \<Rightarrow> 'w \<Rightarrow> string result"
    and Add :: "string \<Rightarrow> string \<Rightarrow> (unit, 'w) io" +
  fixes Manage :: "Address \<Rightarrow> (unit, 'w) io"
  assumes resolve_manage: "Manage a w = (r, w') \<Longrightarrow> Resolve n w' = Resolve n w"

section \<open>The resolver in memory\<close>

record localResolver =
  names :: "string \<rightharpoonup> string"
  addresses :: "string \<rightharpoonup> Address"

definition NewLocalResolver :: localResolver where
  "NewLocalResolver = \<lparr>names = Map.empty, addresses = Map.empty\<rparr>"

definition local_Add :: "crypto_env \<Rightarrow> string \<Rightarrow> string \<Rightarrow> (unit, localResolver) io" where
  "local_Add E name v r =
     (case getQueryNameRequestFromName E name of
        Panic \<Rightarrow> (Panic, r)
      | Err er \<Rightarrow> (Err er, r)
      | Ok rec \<Rightarrow>
          (case addresses r (mAddress rec) of
             None \<Rightarrow> (Err ErrUnmanagedAddress, r)
           | Some _ \<Rightarrow> (Ok (), r\<lparr>names := (names r)(name \<mapsto> v)\<rparr>)))"

definition local_Resolve :: "crypto_env \<Rightarrow> string \<Rightarrow> localResolver \<Rightarrow> string result" where
  "local_Resolve E name r =
     (case getQueryNameRequestFromName E name of
        Panic \<Rightarrow> Panic
      | Err er \<Rightarrow> Err er
      | Ok _ \<Rightarrow> (case names r name of None \<Rightarrow> Err ResolverErrNotFound | Some res \<Rightarrow> Ok res))"

text \<open>An address without key pair is dereferenced.\<close>

definition local_Manage :: "Address \<Rightarrow> (unit, localResolver) io" where
  "local_Manage addr r =
     (case Keys addr of
        None \<Rightarrow> (Panic, r)
      | Some keys \<Rightarrow>
          if PrivateKey keys = '''' then (Err ErrNoPrivateKey, r)
          else (Ok (), r\<lparr>addresses := (addresses r)(Addr addr \<mapsto> addr)\<rparr>))"

lemma local_Add_Ok:
  "local_Add E n v r = (Ok u, r') \<longleftrightarrow>
     (\<exists>rec. getQueryNameRequestFromName E n = Ok rec \<and> addresses r (mAddress rec) \<noteq> None)
     \<and> r' = r\<lparr>names := (names r)(n \<mapsto> v)\<rparr>"
  by (auto simp: local_Add_def split: result.splits option.splits)

lemma local_Add_failed: "local_Add E n v r = (res, r') \<Longrightarrow> \<not> is_ok res \<Longrightarrow> r' = r"
  by (auto simp: local_Add_def split: result.splits option.splits)

interpretation local_resolver: name_resolver "local_Resolve E" "local_Add E" local_Manage for E
proof
  show "local_Add E n v w = (Ok (), w') \<Longrightarrow> local_Resolve E n w' = Ok v" for n v w w'
    by (auto simp: local_Add_Ok local_Resolve_def)
  show "local_Add E n v w = (r, w') \<Longrightarrow> n' \<noteq> n \<Longrightarrow> local_Resolve E n' w' = local_Resolve E n' w"
    for n v w r w' n'
    by (auto simp: local_Add_def local_Resolve_def split: result.splits option.splits)
  show "local_Add E n v w = (r, w') \<Longrightarrow> \<not> is_ok r \<Longrightarrow> local_Resolve E n' w' = local_Resolve E n' w"
    for n v w r w' n'
    using local_Add_failed by blast
  show "local_Manage a w = (r, w') \<Longrightarrow> local_Resolve E n w' = local_Resolve E n w" for a w r w' n
    by (auto simp: local_Manage_def local_Resolve_def split: result.splits option.splits if_splits)
qed

section \<open>The backend in memory\<close>

text \<open>Its cache is the one of \<open>NewMemoryCache\<close> with no lifetime; the clock is an argument.\<close>

definition NewMemoryBackend :: "string memoryCache" where
  "NewMemoryBackend = NewMemoryCache 0"

definition memory_Add :: "time \<Rightarrow> string \<Rightarrow> string \<Rightarrow> (unit, string memoryCache) io" where
  "memory_Add now name v r = cache_Add now name v r"

definition memory_Resolve :: "time \<Rightarrow> string \<Rightarrow> string memoryCache \<Rightarrow> string result" where
  "memory_Resolve now name r =
     (case cache_Get now name r of
        Ok None \<Rightarrow> Err ResolverErrNotFound
      | Ok (Some v) \<Rightarrow> Ok v
      | Err er \<Rightarrow> Err ResolverErrNotFound
      | Panic \<Rightarrow> Panic)"

section \<open>Names of an address\<close>

text \<open>A name that starts with a slash, an address without slashes, and another slash.\<close>

lemma parts_of_name:
  assumes "CHR ''/'' \<notin> set a"
  shows "Split (CHR ''/'' # a @ CHR ''/'' # rest) CHR ''/'' = [] # a # Split rest CHR ''/''"
  using Split_append_sep [OF assms] by simp

lemma getQueryNameRequest_address:
  assumes "CHR ''/'' \<notin> set a" and "IsValid E a = Ok (True, None)"
  shows "\<exists>rec. getQueryNameRequestFromName E (CHR ''/'' # a @ CHR ''/'' # rest) = Ok rec \<and> mAddress rec = a"
  using assms parts_of_name [OF assms(1), of rest]
  by (cases "Split rest CHR ''/''") (auto simp: getQueryNameRequestFromName_def)

lemma local_Add_managed:
  assumes "CHR ''/'' \<notin> set a" and "IsValid E a = Ok (True, None)" and "addresses r a \<noteq> None"
  shows "local_Add E (CHR ''/'' # a @ CHR ''/'' # rest) v r
    = (Ok (), r\<lparr>names := (names r)(CHR ''/'' # a @ CHR ''/'' # rest \<mapsto> v)\<rparr>)"
proof -
  obtain rec where "getQueryNameRequestFromName E (CHR ''/'' # a @ CHR ''/'' # rest) = Ok rec" "mAddress rec = a"
    using getQueryNameRequest_address [OF assms(1,2)] by blast
  then show ?thesis using assms(3) by (auto simp: local_Add_def split: option.splits)
qed

lemma local_Resolve_name:
  assumes "CHR ''/'' \<notin> set a" and "IsValid E a = Ok (True, None)"
  shows "local_Resolve E (CHR ''/'' # a @ CHR ''/'' # rest) r
    = (case names r (CHR ''/'' # a @ CHR ''/'' # rest) of None \<Rightarrow> Err ResolverErrNotFound | Some v \<Rightarrow> Ok v)"
proof -
  obtain rec where "getQueryNameRequestFromName E (CHR ''/'' # a @ CHR ''/'' # rest) = Ok rec"
    using getQueryNameRequest_address [OF assms(1,2)] by blast
  then show ?thesis by (auto simp: local_Resolve_def split: option.splits)
qed

end
