(* ===== verification/Dag.thy ===== *)
theory Dag
  imports Node DataStore Resolver
begin

text \<open>
  \<^verbatim>\<open>dag/dag.go\<close>: nodes in a content-addressed store, and the names under which the root and
  the branch heads of an address are found.

  \<open>Dag\<close> keeps a data store and a resolver behind interfaces; here they are the operations
  of a record, over a state \<open>'w\<close> of both.  Reading (\<open>Get\<close>, \<open>Resolve\<close>) does not change the state.
  The locale \<open>dag_backend\<close> states what the operations promise; the store and the resolver in
  memory are interpreted as such a backend.
\<close>

section \<open>The structure\<close>

record 'w dag =
  nameSpace :: string
  dag_env :: crypto_env
  dt_Put :: "bytes \<Rightarrow> (string \<Rightarrow> string) option \<Rightarrow> (string \<times> string, 'w) io"
  dt_Get :: "string \<Rightarrow> 'w \<Rightarrow> reader result"
  rs_Resolve :: "string \<Rightarrow> 'w \<Rightarrow> string result"
  rs_Add :: "string \<Rightarrow> string \<Rightarrow> (unit, 'w) io"
  rs_Manage :: "Address \<Rightarrow> (unit, 'w) io"

definition translateError :: "error \<Rightarrow> error" where
  "translateError er = (if er = DatastoreErrNotFound then ErrNodeNotFound else er)"

section \<open>Names\<close>

definition getName :: "'w dag \<Rightarrow> string \<Rightarrow> string list \<Rightarrow> string" where
  "getName da addr parts = ''/'' @ addr @ ''/'' @ nameSpace da @ ''/dag/'' @ Join parts ''/''"

definition getRootNodeName :: "'w dag \<Rightarrow> string \<Rightarrow> string" where
  "getRootNodeName da addr = getName da addr [''shortcuts'', ''root'']"

definition getLastNodeName :: "'w dag \<Rightarrow> Node \<Rightarrow> string \<Rightarrow> string \<Rightarrow> string" where
  "getLastNodeName da node nodeKey branch =
     getName da (nAddress node) [''shortcuts'', nodeKey, branch, ''last'']"

section \<open>Reading nodes\<close>

text \<open>The loop reads into a buffer of 512 bytes until the end of the file or an error.\<close>

definition NBUF :: nat where
  "NBUF = 512"

function read_loop :: "reader \<Rightarrow> bytes \<Rightarrow> bytes result" where
  "read_loop (Reader bs er) json =
     (case Read NBUF (Reader bs er) of
        (buf, ReadOk, f) \<Rightarrow> read_loop f (json @ buf)
      | (buf, EOF, f) \<Rightarrow> Ok (json @ buf)
      | (buf, ReadError e, f) \<Rightarrow> Err e)"
  by pat_completeness auto
termination
  by (relation "measure (\<lambda>(f, _). case f of Reader bs er \<Rightarrow> length bs)")
     (auto simp: NBUF_def split: if_splits option.splits)

text \<open>A nil node is \<open>None\<close>.\<close>

definition getNodeByKey :: "'w dag \<Rightarrow> string \<Rightarrow> 'w \<Rightarrow> Node option result" where
  "getNodeByKey da key w =
     bind_result (map_error translateError (dt_Get da key w)) (\<lambda>f.
     bind_result (map_error translateError (read_loop f [])) (\<lambda>json.
     if length json = 0 then Ok None
     else bind_result (map_error translateError (FromJson NewNode json)) (\<lambda>n. Ok (Some n))))"

definition hasBranch :: "Node \<Rightarrow> string \<Rightarrow> bool" where
  "hasBranch p branch = list_ex (\<lambda>b. b = branch) (nBranches p)"

definition resolveRootNodeKey :: "'w dag \<Rightarrow> string \<Rightarrow> 'w \<Rightarrow> string result" where
  "resolveRootNodeKey da addr w = rs_Resolve da (getRootNodeName da addr) w"

text \<open>The name of a head needs the address of the branch root, which must not be nil.\<close>

definition resolveLastNodeKey ::
    "'w dag \<Rightarrow> Node option \<Rightarrow> string \<Rightarrow> string \<Rightarrow> 'w \<Rightarrow> string result" where
  "resolveLastNodeKey da node branchRootNodeKey branch w =
     (case node of
        None \<Rightarrow> Panic
      | Some node \<Rightarrow> rs_Resolve da (getLastNodeName da node branchRootNodeKey branch) w)"

definition GetRoot :: "'w dag \<Rightarrow> string \<Rightarrow> 'w \<Rightarrow> (Node option \<times> string) result" where
  "GetRoot da addr w =
     bind_result (map_error translateError (resolveRootNodeKey da addr w)) (\<lambda>key.
     bind_result (map_error translateError (getNodeByKey da key w)) (\<lambda>n. Ok (n, key)))"

definition GetLast :: "'w dag \<Rightarrow> string \<Rightarrow> string \<Rightarrow> 'w \<Rightarrow> (Node option \<times> string) result" where
  "GetLast da branchRootNodeKey branch w =
     (if branch = '''' then Err ErrInvalidBranch
      else
        bind_result (map_error translateError (getNodeByKey da branchRootNodeKey w)) (\<lambda>branchRootNode.
        bind_result (map_error translateError
            (resolveLastNodeKey da branchRootNode branchRootNodeKey branch w)) (\<lambda>key.
        case getNodeByKey da key w of
          Panic \<Rightarrow> Panic
        | Err er \<Rightarrow> if er = ErrNodeNotFound then Ok (branchRootNode, branchRootNodeKey)
                    else Err (translateError er)
        | Ok fromTipTx \<Rightarrow> Ok (fromTipTx, key))))"

definition dag_Get :: "'w dag \<Rightarrow> string \<Rightarrow> 'w \<Rightarrow> Node option result" where
  "dag_Get da key w = getNodeByKey da key w"

text \<open>Two readings of the previous node; \<open>VerifyNode\<close> has its own.\<close>

definition findPrevious :: "'w dag \<Rightarrow> Node \<Rightarrow> 'w \<Rightarrow> Node option result" where
  "findPrevious da node w = getNodeByKey da (nPrevious node) w"

definition getPreviousNode :: "'w dag \<Rightarrow> Node \<Rightarrow> 'w \<Rightarrow> Node result" where
  "getPreviousNode da node w =
     bind_result (map_error translateError (getNodeByKey da (nPrevious node) w)) (\<lambda>previous.
       case previous of None \<Rightarrow> Err ErrPreviousNodeNotFound | Some previous \<Rightarrow> Ok previous)"

section \<open>Verification\<close>

definition verifyTimeStamp :: "Node \<Rightarrow> bool" where
  "verifyTimeStamp node = (case Parse_RFC3339 (nTimestamp node) of None \<Rightarrow> False | Some _ \<Rightarrow> True)"

text \<open>The flag and the error.\<close>

definition verifyAddress :: "crypto_env \<Rightarrow> Node \<Rightarrow> (bool \<times> error option) result" where
  "verifyAddress E node =
     bind_result (IsValid E (nAddress node)) (\<lambda>(ok, er).
       if \<not> ok then Ok (ok, map_option translateError er)
       else bind_result (MatchesPubKey E (nAddress node) (nPubKey node)) (\<lambda>matches.
         if \<not> matches then Ok (False, Some ErrAddressDoesNotMatchPubKey) else Ok (True, None)))"

text \<open>The checks of a node that do not need the graph.\<close>

definition verify_self :: "crypto_env \<Rightarrow> Node \<Rightarrow> unit result" where
  "verify_self E node =
     (if \<not> verifyTimeStamp node then Err ErrInvalidNodeTimestamp
      else if nSeq node = 0 then Err ErrInvalidBranchSeq
      else bind_result (map_error translateError (node_VerifySignature E node)) (\<lambda>_.
        if nBranch node = '''' then Err ErrInvalidBranch else Ok ()))"

text \<open>The checks of a new node against the head of its branch.\<close>

definition verify_new :: "'w dag \<Rightarrow> Node \<Rightarrow> Node \<Rightarrow> string \<Rightarrow> 'w \<Rightarrow> unit result" where
  "verify_new da node previous branchRootNodeKey w =
     bind_result (map_error translateError (getNodeByKey da branchRootNodeKey w)) (\<lambda>branchRoot.
     case branchRoot of
       None \<Rightarrow> Err ErrBranchRootNotFound
     | Some branchRoot \<Rightarrow>
       if \<not> hasBranch branchRoot (nBranch node) then Err ErrInvalidBranch
       else bind_result (map_error translateError (GetLast da branchRootNodeKey (nBranch node) w))
         (\<lambda>(branchHead, branchHeadKey).
         case branchHead of
           None \<Rightarrow> Err ErrHeadNodeNotFound
         | Some branchHead \<Rightarrow>
           if branchHeadKey \<noteq> nPrevious node then Err ErrPreviousNodeIsNotHead
           else if branchHeadKey = branchRootNodeKey \<and> nBranch node \<noteq> nBranch branchHead
                   \<and> nSeq node \<noteq> 1 then Err ErrInvalidBranchSeq
           else if nBranch node = nBranch previous \<and> nSeq node \<noteq> nSeq previous + 1
                then Err ErrInvalidBranchSeq
           else Ok ()))"

definition VerifyNode :: "'w dag \<Rightarrow> Node \<Rightarrow> string \<Rightarrow> bool \<Rightarrow> 'w \<Rightarrow> unit result" where
  "VerifyNode da node branchRootNodeKey mustBeNew w =
     bind_result (verifyAddress (dag_env da) node) (\<lambda>(ok, er).
     if \<not> ok then (case er of None \<Rightarrow> Ok () | Some er \<Rightarrow> Err (translateError er))
     else bind_result (verify_self (dag_env da) node) (\<lambda>_.
     case getNodeByKey da (nPrevious node) w of
       Panic \<Rightarrow> Panic
     | Err er \<Rightarrow> if er = ErrNodeNotFound then Err ErrPreviousNodeNotFound else Err (translateError er)
     | Ok None \<Rightarrow> Err ErrPreviousNodeNotFound
     | Ok (Some previous) \<Rightarrow>
         if mustBeNew then verify_new da node previous branchRootNodeKey w else Ok ()))"

section \<open>The full path of a node\<close>

text \<open>
  The recursion follows \<open>BranchRoot\<close> and may not end: \<open>None\<close> is a recursion without end.  The path is
  returned with an error; a nil node is dereferenced.
\<close>

partial_function (option) getFullPath ::
    "'w dag \<Rightarrow> 'w \<Rightarrow> string \<Rightarrow> (string \<times> error option) result option" where
  "getFullPath da w key =
     (if key = '''' then Some (Ok ('''', None))
      else (case getNodeByKey da key w of
          Panic \<Rightarrow> Some Panic
        | Err er \<Rightarrow> Some (Ok ('''', Some er))
        | Ok None \<Rightarrow> Some Panic
        | Ok (Some node) \<Rightarrow>
            if nBranchRoot node = '''' then Some (Ok (getName da (nAddress node) [key], None))
            else Option.bind (getFullPath da w (nBranchRoot node)) (\<lambda>r.
              case r of
                Ok (s, None) \<Rightarrow>
                  if s = '''' then Some (Ok (key, None))
                  else Some (Ok (s @ ''/branches/'' @ nBranch node @ ''/'' @ key, None))
              | Ok (s, Some er) \<Rightarrow> Some (Ok (key, Some er))
              | Err er \<Rightarrow> Some (Err er)
              | Panic \<Rightarrow> Some Panic)))"

section \<open>Writing nodes\<close>

fun addResolutionForNodeBranches ::
    "'w dag \<Rightarrow> Node \<Rightarrow> string \<Rightarrow> string list \<Rightarrow> (unit, 'w) io" where
  "addResolutionForNodeBranches da node key [] = return_io ()"
| "addResolutionForNodeBranches da node key (branch # branches) =
     bind_io (rs_Add da (getLastNodeName da node key branch) key) (\<lambda>_.
       addResolutionForNodeBranches da node key branches)"

text \<open>
  The error of \<open>getFullPath\<close> is not looked at; a recursion without end exhausts the stack, which
  stops the program like a panic.
\<close>

definition saveNode :: "'w dag \<Rightarrow> Node \<Rightarrow> string \<Rightarrow> (string, 'w) io" where
  "saveNode da node branchRootNodeKey =
     bind_io (map_error_io translateError (read_io (getNodeByKey da branchRootNodeKey))) (\<lambda>branchRoot.
     case branchRoot of
       None \<Rightarrow> fail_io ErrBranchRootNotFound
     | Some branchRoot \<Rightarrow>
         bind_io (read_io (\<lambda>w. case getFullPath da w branchRootNodeKey of None \<Rightarrow> Panic | Some r \<Rightarrow> r))
           (\<lambda>(fullPath, er).
         bind_io (map_error_io translateError (read_io (\<lambda>_. ToJson node))) (\<lambda>data.
         bind_io (map_error_io translateError (dt_Put da data
            (Some (\<lambda>cid. Join [fullPath, ''branches'', nBranch node, cid, ''node''] ''/'')))) (\<lambda>(key, p).
         bind_io (map_error_io translateError
            (rs_Add da (getLastNodeName da branchRoot branchRootNodeKey (nBranch node)) key)) (\<lambda>_.
         bind_io (map_error_io translateError
            (addResolutionForNodeBranches da node key (nBranches node))) (\<lambda>_.
         return_io key))))))"

definition saveRootNode :: "'w dag \<Rightarrow> Node \<Rightarrow> (string, 'w) io" where
  "saveRootNode da node =
     bind_io (map_error_io translateError (read_io (\<lambda>_. ToJson node))) (\<lambda>data.
     bind_io (map_error_io translateError (dt_Put da data
        (Some (\<lambda>cid. getName da (nAddress node) [cid, ''node''])))) (\<lambda>(key, p).
     bind_io (map_error_io translateError
        (rs_Add da (getLastNodeName da node key (nBranch node)) key)) (\<lambda>_.
     bind_io (map_error_io translateError
        (rs_Add da (getRootNodeName da (nAddress node)) key)) (\<lambda>_.
     bind_io (map_error_io translateError
        (addResolutionForNodeBranches da node key (nBranches node))) (\<lambda>_.
     return_io key)))))"

text \<open>An error of \<open>GetRoot\<close> comes with a nil node.\<close>

definition SetRoot :: "'w dag \<Rightarrow> Node \<Rightarrow> (string, 'w) io" where
  "SetRoot da rootNode w =
     (if nBranch rootNode = '''' then fail_io ErrInvalidBranch w
      else if \<not> hasBranch rootNode (nBranch rootNode) then fail_io ErrDefaultBranchNotSpecified w
      else (let got = GetRoot da (nAddress rootNode) w;
                root = (case got of Ok (n, _) \<Rightarrow> n | _ \<Rightarrow> None)
            in if got = Panic then (Panic, w)
               else if got = Err ErrNodeNotFound \<or> root = None then saveRootNode da rootNode w
               else (case got of
                   Err er \<Rightarrow> fail_io (translateError er) w
                 | _ \<Rightarrow> fail_io ErrDagAlreadyInitialized w)))"

definition dag_Append :: "'w dag \<Rightarrow> Node \<Rightarrow> string \<Rightarrow> (string, 'w) io" where
  "dag_Append da node branchRootNodeKey w =
     (case VerifyNode da node branchRootNodeKey True w of
        Panic \<Rightarrow> (Panic, w)
      | Err er \<Rightarrow> (Err (translateError er), w)
      | Ok _ \<Rightarrow> saveNode da node branchRootNodeKey w)"

definition dag_Manage :: "'w dag \<Rightarrow> Address \<Rightarrow> (unit, 'w) io" where
  "dag_Manage da addr = rs_Manage da addr"

end
