(* ===== verification/DagBackend.thy ===== *)
theory DagBackend
  imports Dag
begin

text \<open>
  What a store and a resolver behind a \<open>Dag\<close> promise (the locale \<open>dag_backend\<close>), the effect of the
  writing operations proved from it, and the backend in memory, \<open>local_dag\<close>, which keeps
  the promises.
\<close>

section \<open>Reading\<close>

declare read_loop.simps [simp del]

lemma read_loop_step:
  "read_loop (Reader bs er) json =
     (if bs = [] then (case er of None \<Rightarrow> Ok json | Some e \<Rightarrow> Err e)
      else read_loop (Reader (drop NBUF bs) er) (json @ take NBUF bs))"
  by (simp add: read_loop.simps [of bs] split: option.splits)

lemma read_loop_eq:
  "read_loop (Reader bs er) json = (case er of None \<Rightarrow> Ok (json @ bs) | Some e \<Rightarrow> Err e)"
proof (induction "length bs" arbitrary: bs json rule: less_induct)
  case less
  show ?case
  proof (cases "bs = []")
    case True
    then show ?thesis using read_loop_step [of bs er json] by (simp split: option.split)
  next
    case False
    then have "length (drop NBUF bs) < length bs" by (simp add: NBUF_def)
    from less [OF this, of "json @ take NBUF bs"] False show ?thesis
      by (simp add: read_loop_step [of bs] split: option.split)
  qed
qed

lemma FromJson_Err: "FromJson m js = Err e \<Longrightarrow> e = ErrJson"
  by (auto simp: FromJson_def split: option.splits)

lemma FromJson_not_Panic [simp]: "FromJson m js \<noteq> Panic"
  by (auto simp: FromJson_def split: option.splits)

definition decode_node :: "bytes \<Rightarrow> Node option result" where
  "decode_node bs = (if bs = [] then Ok None else bind_result (FromJson NewNode bs) (\<lambda>n. Ok (Some n)))"

lemma getNodeByKey_stored:
  assumes "dt_Get da key w = Ok (Reader bs None)"
  shows "getNodeByKey da key w = decode_node bs"
  using assms FromJson_Err [of NewNode bs]
  by (cases "FromJson NewNode bs") (auto simp: getNodeByKey_def read_loop_eq decode_node_def translateError_def)

lemma getNodeByKey_cong: "dt_Get da key w' = dt_Get da key w \<Longrightarrow> getNodeByKey da key w' = getNodeByKey da key w"
  by (simp add: getNodeByKey_def)

lemma ToJson_nonempty: "ToJson m = Ok js \<Longrightarrow> js \<noteq> []"
  by (auto simp: ToJson_def)

lemma ToJson_total: "\<exists>js. ToJson m = Ok js"
  by (simp add: ToJson_def)

lemma decode_node_ToJson: "node_ok m \<Longrightarrow> ToJson m = Ok js \<Longrightarrow> decode_node js = Ok (Some m)"
  using node_json.dec_enc_ok [of m js] ToJson_nonempty [of m js] by (simp add: decode_node_def)

lemma decode_node_inj_ToJson:
  "node_ok m \<Longrightarrow> node_ok m' \<Longrightarrow> ToJson m = Ok js \<Longrightarrow> ToJson m' = Ok js \<Longrightarrow> m = m'"
  by (rule node_json.enc_inj_ok)

lemma translateError_idem [simp]: "translateError (translateError e) = translateError e"
  by (simp add: translateError_def)

lemma map_translate_idem [simp]:
  "map_error translateError (map_error translateError r) = map_error translateError r"
  by (cases r) simp_all

lemma getNodeByKey_translated [simp]:
  "map_error translateError (getNodeByKey da key w) = getNodeByKey da key w"
proof (cases "dt_Get da key w")
  case (Ok f)
  then show ?thesis
    by (cases "read_loop f []"; cases "FromJson NewNode (case read_loop f [] of Ok j \<Rightarrow> j | _ \<Rightarrow> [])")
       (auto simp: getNodeByKey_def)
qed (auto simp: getNodeByKey_def)

lemma hasBranch_iff [simp]: "hasBranch p b \<longleftrightarrow> b \<in> set (nBranches p)"
  by (auto simp: hasBranch_def list_ex_iff)

section \<open>Names\<close>

text \<open>The names of branch heads are different for different addresses, roots or branches.\<close>

lemma getLastNodeName_inj:
  assumes "CHR ''/'' \<notin> set (nAddress n)" "CHR ''/'' \<notin> set (nAddress n')" "CHR ''/'' \<notin> set k" "CHR ''/'' \<notin> set k'"
  shows "getLastNodeName da n k b = getLastNodeName da n' k' b' \<longleftrightarrow>
    nAddress n = nAddress n' \<and> k = k' \<and> b = b'"
  using cut_at_sep [OF assms(1,2)] cut_at_sep [OF assms(3,4)]
  by (auto simp: getLastNodeName_def getName_def)

lemma getLastNodeName_same_root:
  assumes "CHR ''/'' \<notin> set k" "CHR ''/'' \<notin> set k'"
  shows "getLastNodeName da n k b = getLastNodeName da n k' b' \<longleftrightarrow> k = k' \<and> b = b'"
  using cut_at_sep [OF assms] by (auto simp: getLastNodeName_def getName_def)

lemma getRootNodeName_inj:
  assumes "CHR ''/'' \<notin> set a" "CHR ''/'' \<notin> set a'"
  shows "getRootNodeName da a = getRootNodeName da a' \<longleftrightarrow> a = a'"
  using cut_at_sep [OF assms] by (auto simp: getRootNodeName_def getName_def)

lemma getRootNodeName_neq_last:
  assumes "CHR ''/'' \<notin> set a" "CHR ''/'' \<notin> set (nAddress n)"
  shows "getRootNodeName da a \<noteq> getLastNodeName da n k b"
proof
  assume "getRootNodeName da a = getLastNodeName da n k b"
  then have "''root'' = k @ ''/'' @ b @ ''/last''"
    using cut_at_sep [OF assms] by (auto simp: getRootNodeName_def getLastNodeName_def getName_def)
  then have "CHR ''/'' \<in> set ''root''" by (metis Un_iff append_Cons list.set_intros(1) set_append)
  then show False by simp
qed

section \<open>Effects\<close>

text \<open>
  The effect of a successful write of a node: its JSON is under the key, every other key
  reads as before, the names \<open>ns\<close> resolve to the key, and every other name as before.
\<close>

definition saved :: "'w dag \<Rightarrow> (bytes \<Rightarrow> string) \<Rightarrow> Node \<Rightarrow> string set \<Rightarrow> 'w \<Rightarrow> string \<Rightarrow> 'w \<Rightarrow> bool" where
  "saved da cid node ns w key w' \<longleftrightarrow>
     (\<exists>js. ToJson node = Ok js \<and> key = cid js \<and> dt_Get da key w' = Ok (Reader js None))
     \<and> (\<forall>k. k \<noteq> key \<longrightarrow> dt_Get da k w' = dt_Get da k w)
     \<and> (\<forall>n. rs_Resolve da n w' = (if n \<in> ns then Ok key else rs_Resolve da n w))"

text \<open>The names of the heads of a node's own branches.\<close>

definition branch_names :: "'w dag \<Rightarrow> Node \<Rightarrow> string \<Rightarrow> string set" where
  "branch_names da node key = getLastNodeName da node key ` set (nBranches node)"

text \<open>The effect of any write, failed or not: at most the new value and names of it appear.\<close>

definition bounded_write :: "'w dag \<Rightarrow> (bytes \<Rightarrow> string) \<Rightarrow> Node \<Rightarrow> 'w \<Rightarrow> 'w \<Rightarrow> bool" where
  "bounded_write da cid node w w' \<longleftrightarrow>
     (\<forall>js k. ToJson node = Ok js \<longrightarrow>
        dt_Get da k w' = dt_Get da k w \<or> k = cid js \<and> dt_Get da k w' = Ok (Reader js None))
     \<and> (\<forall>js n. ToJson node = Ok js \<longrightarrow>
        rs_Resolve da n w' = rs_Resolve da n w
        \<or> rs_Resolve da n w' = Ok (cid js) \<and> dt_Get da (cid js) w' = Ok (Reader js None))"

lemma bounded_write_refl [simp]: "bounded_write da cid node w w"
  by (simp add: bounded_write_def)

section \<open>Backends\<close>

text \<open>
  The store and the resolver do not disturb each other, and keys never contain a slash.  \<open>dag_backend\<close> adds a
  resolver that stays the same when an address is managed.
\<close>

locale dag_writer =
  store: data_store "dt_Put da" "dt_Get da" cid +
  names: name_table "rs_Resolve da" "rs_Add da"
  for da :: "'w dag" and cid :: "bytes \<Rightarrow> string" +
  assumes resolve_put: "dt_Put da b pf w = (r, w') \<Longrightarrow> rs_Resolve da n w' = rs_Resolve da n w"
    and get_add: "rs_Add da n v w = (r', w') \<Longrightarrow> dt_Get da k w' = dt_Get da k w"
    and cid_slash: "CHR ''/'' \<notin> set (cid b)"
begin

lemma addResolution_get:
  "addResolutionForNodeBranches da node key bs w = (r, w') \<Longrightarrow> dt_Get da k w' = dt_Get da k w"
proof (induction bs arbitrary: w)
  case (Cons b bs)
  then show ?case
    by (auto simp: bind_io_def split: prod.splits result.splits dest: get_add)
qed simp

lemma addResolution_Ok:
  "addResolutionForNodeBranches da node key bs w = (Ok (), w') \<Longrightarrow>
     rs_Resolve da n w' = (if n \<in> getLastNodeName da node key ` set bs then Ok key else rs_Resolve da n w)"
proof (induction bs arbitrary: w)
  case (Cons b bs)
  then obtain w1 where w1: "rs_Add da (getLastNodeName da node key b) key w = (Ok (), w1)"
      "addResolutionForNodeBranches da node key bs w1 = (Ok (), w')"
    by (auto simp: bind_io_eq_Ok)
  show ?case
    using Cons.IH [OF w1(2)] names.resolve_add_cases [OF w1(1), of n] by auto
qed simp

lemma addResolution_cases:
  "addResolutionForNodeBranches da node key bs w = (r, w') \<Longrightarrow>
     rs_Resolve da n w' = rs_Resolve da n w \<or> rs_Resolve da n w' = Ok key"
proof (induction bs arbitrary: w)
  case (Cons b bs)
  obtain r1 w1 where w1: "rs_Add da (getLastNodeName da node key b) key w = (r1, w1)" by fastforce
  show ?case
  proof (cases r1)
    case (Ok u)
    then have "addResolutionForNodeBranches da node key bs w1 = (r, w')"
      using Cons.prems w1 by (simp add: bind_io_def)
    from Cons.IH [OF this] names.resolve_add_cases [OF w1, of n] show ?thesis by auto
  qed (use Cons.prems w1 names.resolve_add_cases [OF w1, of n] in \<open>auto simp: bind_io_def\<close>)
qed simp

lemma put_get:
  assumes "dt_Put da js pf w = (Ok (key, p), w1)" and "\<And>k. dt_Get da k w' = dt_Get da k w1"
  shows "key = cid js" "dt_Get da key w' = Ok (Reader js None)" "k \<noteq> key \<Longrightarrow> dt_Get da k w' = dt_Get da k w"
  using store.put_key [OF assms(1)] store.get_put [OF assms(1)] store.get_put_other [OF assms(1), of k] assms(2)
  by auto

lemma saveNode_Ok:
  assumes "saveNode da node rk w = (Ok key, w')"
  shows "\<exists>br. getNodeByKey da rk w = Ok (Some br)
    \<and> saved da cid node (insert (getLastNodeName da br rk (nBranch node)) (branch_names da node key)) w key w'"
proof -
  obtain br js pf p w1 w2 where br: "getNodeByKey da rk w = Ok (Some br)" and js: "ToJson node = Ok js"
    and put: "dt_Put da js pf w = (Ok (key, p), w1)"
    and add: "rs_Add da (getLastNodeName da br rk (nBranch node)) key w1 = (Ok (), w2)"
    and names: "addResolutionForNodeBranches da node key (nBranches node) w2 = (Ok (), w')"
    using assms by (auto simp: saveNode_def bind_io_eq_Ok split: option.splits)
  have "dt_Get da k w' = dt_Get da k w1" for k
    using addResolution_get [OF names] get_add [OF add] by simp
  note get = put_get [OF put this]
  have "rs_Resolve da n w' = (if n \<in> insert (getLastNodeName da br rk (nBranch node)) (branch_names da node key)
      then Ok key else rs_Resolve da n w)" for n
    using addResolution_Ok [OF names, of n] names.resolve_add_cases [OF add, of n] resolve_put [OF put, of n]
    by (auto simp: branch_names_def)
  then show ?thesis using br js get by (auto simp: saved_def)
qed

lemma saveRootNode_Ok:
  assumes "saveRootNode da node w = (Ok key, w')"
  shows "saved da cid node (insert (getRootNodeName da (nAddress node))
      (insert (getLastNodeName da node key (nBranch node)) (branch_names da node key))) w key w'"
proof -
  obtain js pf p w1 w2 w3 where js: "ToJson node = Ok js"
    and put: "dt_Put da js pf w = (Ok (key, p), w1)"
    and add: "rs_Add da (getLastNodeName da node key (nBranch node)) key w1 = (Ok (), w2)"
    and root: "rs_Add da (getRootNodeName da (nAddress node)) key w2 = (Ok (), w3)"
    and names: "addResolutionForNodeBranches da node key (nBranches node) w3 = (Ok (), w')"
    using assms by (auto simp: saveRootNode_def bind_io_eq_Ok)
  have "dt_Get da k w' = dt_Get da k w1" for k
    using addResolution_get [OF names] get_add [OF add] get_add [OF root] by simp
  note get = put_get [OF put this]
  have "rs_Resolve da n w' = (if n \<in> insert (getRootNodeName da (nAddress node))
      (insert (getLastNodeName da node key (nBranch node)) (branch_names da node key))
      then Ok key else rs_Resolve da n w)" for n
    using addResolution_Ok [OF names, of n] names.resolve_add_cases [OF add, of n]
      names.resolve_add_cases [OF root, of n] resolve_put [OF put, of n]
    by (auto simp: branch_names_def)
  then show ?thesis using js get by (auto simp: saved_def)
qed

text \<open>After the value is in the store, adding names keeps the bound.\<close>

lemma bounded_write_names:
  assumes "bounded_write da cid node w w1" and "dt_Get da (cid js) w1 = Ok (Reader js None)"
    and "ToJson node = Ok js" and "\<And>k. dt_Get da k w2 = dt_Get da k w1"
    and "\<And>n. rs_Resolve da n w2 = rs_Resolve da n w1 \<or> rs_Resolve da n w2 = Ok (cid js)"
  shows "bounded_write da cid node w w2"
  using assms unfolding bounded_write_def by (metis result.inject(1))

lemma put_bounded:
  assumes "dt_Put da js pf w = (r, w1)" and "ToJson node = Ok js"
  shows "bounded_write da cid node w w1"
    and "r = Ok (key, p) \<Longrightarrow> key = cid js \<and> dt_Get da (cid js) w1 = Ok (Reader js None)"
proof -
  show *: "r = Ok (key, p) \<Longrightarrow> key = cid js \<and> dt_Get da (cid js) w1 = Ok (Reader js None)" for key p
    using store.put_key [of js pf w key p w1] store.get_put [of js pf w key p w1] assms(1) by auto
  have "dt_Get da k w1 = dt_Get da k w \<or> k = cid js \<and> dt_Get da k w1 = Ok (Reader js None)" for k
    using * store.get_put_other [OF assms(1), of k] store.get_put_failed [OF assms(1), of k]
    by (cases r) auto
  then show "bounded_write da cid node w w1"
    using assms(2) resolve_put [OF assms(1)] by (auto simp: bounded_write_def)
qed

lemma add_step:
  assumes "bounded_write da cid node w w1" and "dt_Get da (cid js) w1 = Ok (Reader js None)"
    and "ToJson node = Ok js" and "rs_Add da n (cid js) w1 = (r, w2)"
  shows "bounded_write da cid node w w2" "dt_Get da (cid js) w2 = Ok (Reader js None)"
proof -
  show "bounded_write da cid node w w2"
    by (rule bounded_write_names [OF assms(1-3)])
      (use get_add [OF assms(4)] names.resolve_add_cases [OF assms(4)] in auto)
  show "dt_Get da (cid js) w2 = Ok (Reader js None)"
    using get_add [OF assms(4)] assms(2) by simp
qed

lemma names_step:
  assumes "bounded_write da cid node w w1" and "dt_Get da (cid js) w1 = Ok (Reader js None)"
    and "ToJson node = Ok js" and "addResolutionForNodeBranches da node (cid js) bs w1 = (r, w2)"
  shows "bounded_write da cid node w w2"
  by (rule bounded_write_names [OF assms(1-3) addResolution_get [OF assms(4)] addResolution_cases [OF assms(4)]])

lemma names_bounded:
  assumes "bounded_write da cid node w w1" and "dt_Get da (cid js) w1 = Ok (Reader js None)"
    and "ToJson node = Ok js"
    and "bind_io (map_error_io translateError (addResolutionForNodeBranches da node (cid js) bs))
      (\<lambda>_. return_io key) w1 = (r, w')"
  shows "bounded_write da cid node w w'"
  using assms(4) names_step [OF assms(1-3)]
  by (auto simp: io_defs split: prod.splits result.splits)

lemma saveNode_bounded: "saveNode da node rk w = (r, w') \<Longrightarrow> bounded_write da cid node w w'"
proof -
  assume save: "saveNode da node rk w = (r, w')"
  obtain js where js: "ToJson node = Ok js" using ToJson_total by blast
  show ?thesis
  proof (cases "\<exists>br fp. getNodeByKey da rk w = Ok (Some br) \<and> getFullPath da w rk = Some (Ok fp)")
    case False
    then have "w' = w" using save
      by (auto simp: saveNode_def bind_io_def map_error_io_def read_io_def fail_io_def
          split: result.splits option.splits)
    then show ?thesis by simp
  next
    case True
    then obtain br fullPath er where br: "getNodeByKey da rk w = Ok (Some br)"
      and fp: "getFullPath da w rk = Some (Ok (fullPath, er))" by auto
    define pf where "pf = (\<lambda>cid. Join [fullPath, ''branches'', nBranch node, cid, ''node''] ''/'')"
    obtain r1 w1 where put: "dt_Put da js (Some pf) w = (r1, w1)" by fastforce
    note b1 = put_bounded [OF put js]
    show ?thesis
    proof (cases r1)
      case (Ok kp)
      then have ok: "r1 = Ok (cid js, snd kp)" "dt_Get da (cid js) w1 = Ok (Reader js None)"
        using b1(2) [of "fst kp" "snd kp"] by (cases kp; simp)+
      obtain r2 w2 where add: "rs_Add da (getLastNodeName da br rk (nBranch node)) (cid js) w1 = (r2, w2)" by fastforce
      note b2 = add_step [OF b1(1) ok(2) js add]
      show ?thesis using save br fp put ok add b2 names_bounded [OF b2 js, of "nBranches node" "cid js"]
        by (cases r2) (auto simp: saveNode_def bind_io_def [of "map_error_io _ (read_io _)"]
            bind_io_def [of "read_io _"] bind_io_def [of "map_error_io _ (dt_Put _ _ _)"]
            bind_io_def [of "map_error_io _ (rs_Add _ _ _)"] map_error_io_def [of _ "read_io _"]
            map_error_io_def [of _ "dt_Put _ _ _"] map_error_io_def [of _ "rs_Add _ _ _"]
            read_io_def js pf_def)
    qed (use save br fp put b1 js in \<open>auto simp: saveNode_def io_defs pf_def\<close>)
  qed
qed

lemma saveRootNode_bounded: "saveRootNode da node w = (r, w') \<Longrightarrow> bounded_write da cid node w w'"
proof -
  assume save: "saveRootNode da node w = (r, w')"
  obtain js where js: "ToJson node = Ok js" using ToJson_total by blast
  define pf where "pf = (\<lambda>cid. getName da (nAddress node) [cid, ''node''])"
  obtain r1 w1 where put: "dt_Put da js (Some pf) w = (r1, w1)" by fastforce
  note b1 = put_bounded [OF put js]
  show ?thesis
  proof (cases r1)
    case (Ok kp)
    then have ok: "r1 = Ok (cid js, snd kp)" "dt_Get da (cid js) w1 = Ok (Reader js None)"
      using b1(2) [of "fst kp" "snd kp"] by (cases kp; simp)+
    obtain r2 w2 where add: "rs_Add da (getLastNodeName da node (cid js) (nBranch node)) (cid js) w1 = (r2, w2)"
      by fastforce
    note b2 = add_step [OF b1(1) ok(2) js add]
    obtain r3 w3 where root: "rs_Add da (getRootNodeName da (nAddress node)) (cid js) w2 = (r3, w3)"
      by fastforce
    note b3 = add_step [OF b2 js root]
    show ?thesis using save put ok add root b2 b3 names_bounded [OF b3 js, of "nBranches node" "cid js"]
      by (cases r2; cases r3) (auto simp: saveRootNode_def bind_io_def [of "map_error_io _ (read_io _)"]
          bind_io_def [of "map_error_io _ (dt_Put _ _ _)"]
          bind_io_def [of "map_error_io _ (rs_Add _ _ _)"] map_error_io_def [of _ "read_io _"]
          map_error_io_def [of _ "dt_Put _ _ _"] map_error_io_def [of _ "rs_Add _ _ _"]
          read_io_def js pf_def)
  qed (use save put b1 js in \<open>auto simp: saveRootNode_def io_defs pf_def\<close>)
qed

lemma SetRoot_bounded: "SetRoot da node w = (r, w') \<Longrightarrow> bounded_write da cid node w w'"
  using saveRootNode_bounded [of node w r w']
  by (auto simp: SetRoot_def Let_def split: if_splits result.splits)

lemma dag_Append_bounded: "dag_Append da node rk w = (r, w') \<Longrightarrow> bounded_write da cid node w w'"
  using saveNode_bounded [of node rk w r w']
  by (cases "VerifyNode da node rk True w") (simp_all add: dag_Append_def)

text \<open>What reads as a node keeps reading as that node, unless the new node's key collides with it.\<close>

lemma bounded_write_keeps:
  assumes "bounded_write da cid node w w'" and "ToJson node = Ok js"
    and "dt_Get da k w = Ok (Reader b None)" and "k = cid js \<longrightarrow> b = js"
  shows "dt_Get da k w' = Ok (Reader b None)"
proof -
  have "dt_Get da k w' = dt_Get da k w \<or> k = cid js \<and> dt_Get da k w' = Ok (Reader js None)"
    using assms(1,2) by (simp add: bounded_write_def)
  then show ?thesis using assms(3,4) by auto
qed

end

locale dag_backend = dag_writer da cid + managing: name_resolver "rs_Resolve da" "rs_Add da" "rs_Manage da"
  for da :: "'w dag" and cid :: "bytes \<Rightarrow> string" +
  assumes get_manage: "rs_Manage da a w = (r', w') \<Longrightarrow> dt_Get da k w' = dt_Get da k w"

section \<open>The backend in memory\<close>

record local_world =
  ds :: localDataStore
  rs :: localResolver

definition on_ds :: "('a, localDataStore) io \<Rightarrow> ('a, local_world) io" where
  "on_ds m w = (case m (ds w) of (r, d) \<Rightarrow> (r, w\<lparr>ds := d\<rparr>))"

definition on_rs :: "('a, localResolver) io \<Rightarrow> ('a, local_world) io" where
  "on_rs m w = (case m (rs w) of (r, d) \<Rightarrow> (r, w\<lparr>rs := d\<rparr>))"

text \<open>\<open>NewDag(nameSpace, NewLocalFileStore(), NewLocalResolver())\<close>, and the state it starts in.\<close>

definition NewDag :: "crypto_env \<Rightarrow> string \<Rightarrow> local_world dag" where
  "NewDag E ns = \<lparr>nameSpace = ns, dag_env = E,
     dt_Put = (\<lambda>b pf. on_ds (local_Put E b pf)), dt_Get = (\<lambda>k w. local_Get k (ds w)),
     rs_Resolve = (\<lambda>n w. local_Resolve E n (rs w)), rs_Add = (\<lambda>n v. on_rs (local_Add E n v)),
     rs_Manage = (\<lambda>a. on_rs (local_Manage a))\<rparr>"

definition new_world :: local_world where
  "new_world = \<lparr>ds = NewLocalFileStore, rs = NewLocalResolver\<rparr>"

lemma NewDag_sel [simp]:
  "nameSpace (NewDag E ns) = ns" "dag_env (NewDag E ns) = E"
  "dt_Put (NewDag E ns) b pf = on_ds (local_Put E b pf)" "dt_Get (NewDag E ns) k w = local_Get k (ds w)"
  "rs_Resolve (NewDag E ns) n w = local_Resolve E n (rs w)" "rs_Add (NewDag E ns) n v = on_rs (local_Add E n v)"
  "rs_Manage (NewDag E ns) a = on_rs (local_Manage a)"
  by (simp_all add: NewDag_def)

lemma on_ds_eq: "on_ds m w = (r, w') \<longleftrightarrow> (\<exists>d. m (ds w) = (r, d) \<and> w' = w\<lparr>ds := d\<rparr>)"
  by (auto simp: on_ds_def split: prod.splits)

lemma on_rs_eq: "on_rs m w = (r, w') \<longleftrightarrow> (\<exists>d. m (rs w) = (r, d) \<and> w' = w\<lparr>rs := d\<rparr>)"
  by (auto simp: on_rs_def split: prod.splits)

lemma hexHash_neq_Nil: "digest_sizes E \<Longrightarrow> hexHash E b \<noteq> []"
  by (auto simp: hexHash_def digest_sizes_def dest: spec [of _ b])

interpretation local_dag: dag_backend "NewDag E ns" "hexHash E" for E ns
proof
  note sel = on_ds_eq on_rs_eq
  fix w w' :: local_world and r :: "unit result" and rp :: "(string \<times> string) result"
    and b k p k' n v n' a pf
  show "dt_Put (NewDag E ns) b pf w = (Ok (k, p), w') \<Longrightarrow> k = hexHash E b"
    using local_store.put_key by (auto simp: sel)
  show "dt_Put (NewDag E ns) b pf w = (Ok (k, p), w') \<Longrightarrow> dt_Get (NewDag E ns) k w' = Ok (Reader b None)"
    using local_store.get_put by (auto simp: sel)
  show "dt_Put (NewDag E ns) b pf w = (rp, w') \<Longrightarrow> k' \<noteq> hexHash E b \<Longrightarrow>
      dt_Get (NewDag E ns) k' w' = dt_Get (NewDag E ns) k' w"
    using local_store.get_put_other by (auto simp: sel)
  show "dt_Put (NewDag E ns) b pf w = (rp, w') \<Longrightarrow> \<not> is_ok rp \<Longrightarrow>
      dt_Get (NewDag E ns) k' w' = dt_Get (NewDag E ns) k' w"
    using local_store.get_put_failed by (auto simp: sel)
  show "rs_Add (NewDag E ns) n v w = (Ok (), w') \<Longrightarrow> rs_Resolve (NewDag E ns) n w' = Ok v"
    using local_resolver.resolve_add by (auto simp: sel)
  show "rs_Add (NewDag E ns) n v w = (r, w') \<Longrightarrow> n' \<noteq> n \<Longrightarrow>
      rs_Resolve (NewDag E ns) n' w' = rs_Resolve (NewDag E ns) n' w"
    using local_resolver.resolve_add_other by (auto simp: sel)
  show "rs_Add (NewDag E ns) n v w = (r, w') \<Longrightarrow> \<not> is_ok r \<Longrightarrow>
      rs_Resolve (NewDag E ns) n' w' = rs_Resolve (NewDag E ns) n' w"
    using local_resolver.resolve_add_failed by (auto simp: sel)
  show "rs_Manage (NewDag E ns) a w = (r, w') \<Longrightarrow> rs_Resolve (NewDag E ns) n w' = rs_Resolve (NewDag E ns) n w"
    using local_resolver.resolve_manage by (auto simp: sel)
  show "dt_Put (NewDag E ns) b pf w = (rp, w') \<Longrightarrow> rs_Resolve (NewDag E ns) n w' = rs_Resolve (NewDag E ns) n w"
    by (auto simp: sel)
  show "rs_Add (NewDag E ns) n v w = (r, w') \<Longrightarrow> dt_Get (NewDag E ns) k w' = dt_Get (NewDag E ns) k w"
    by (auto simp: sel)
  show "rs_Manage (NewDag E ns) a w = (r, w') \<Longrightarrow> dt_Get (NewDag E ns) k w' = dt_Get (NewDag E ns) k w"
    by (auto simp: sel)
  show "CHR ''/'' \<notin> set (hexHash E b)"
    by (simp add: hexHash_def)
qed

end
