(* ===== verification/DagVerify.thy ===== *)
theory DagVerify
  imports DagBackend
begin

text \<open>
  What \<open>VerifyNode\<close> accepts, as a declarative specification: a node is authentic by itself, and
  it is the next one of its branch.
\<close>

section \<open>Addresses of verified nodes\<close>

lemma IsValid_False: "IsValid E a = Ok (ok, er) \<Longrightarrow> \<not> ok \<Longrightarrow> er = Some ErrInvalidChecksum"
  by (auto simp: IsValid_def Let_def split: if_splits)

lemma IsValid_True: "IsValid E a = Ok (True, er) \<Longrightarrow> er = None"
  by (auto simp: IsValid_def Let_def split: if_splits)

lemma slash_notin_generated:
  assumes "generateAddressHash E pk = Ok a"
  shows "CHR ''/'' \<notin> set a"
proof -
  have "set (bytes_of a) \<subseteq> set b58Alphabet"
    using assms by (auto simp: generateAddressHash_Ok Let_def dest: Base58Encode_alphabet)
  moreover have "byte_of CHR ''/'' \<notin> set b58Alphabet"
    by (simp add: b58Alphabet_def bytes_of_def)
  ultimately show ?thesis by (auto simp: set_bytes_of)
qed

section \<open>Authentic nodes\<close>

text \<open>
  A node that is authentic carries the address of its public key, a signature of its
  content under that key, a readable time, a sequence number and a branch.
\<close>

definition authentic :: "crypto_env \<Rightarrow> Node \<Rightarrow> bool" where
  "authentic E node \<longleftrightarrow>
     IsValid E (nAddress node) = Ok (True, None)
     \<and> MatchesPubKey E (nAddress node) (nPubKey node) = Ok True
     \<and> Parse_RFC3339 (nTimestamp node) \<noteq> None
     \<and> nSeq node \<noteq> 0
     \<and> node_VerifySignature E node = Ok ()
     \<and> nBranch node \<noteq> ''''"

lemma authentic_slash: "authentic E node \<Longrightarrow> CHR ''/'' \<notin> set (nAddress node)"
  using slash_notin_generated by (auto simp: authentic_def MatchesPubKey_True)

lemma verify_self_Ok:
  "verify_self E node = Ok u \<longleftrightarrow>
     Parse_RFC3339 (nTimestamp node) \<noteq> None \<and> nSeq node \<noteq> 0
     \<and> node_VerifySignature E node = Ok () \<and> nBranch node \<noteq> ''''"
  by (auto simp: verify_self_def verifyTimeStamp_def split: option.splits if_splits)

lemma verifyAddress_True:
  "verifyAddress E node = Ok (True, er) \<longleftrightarrow>
     IsValid E (nAddress node) = Ok (True, None)
     \<and> MatchesPubKey E (nAddress node) (nPubKey node) = Ok True \<and> er = None"
  using IsValid_True [of E "nAddress node"] by (auto simp: verifyAddress_def split: if_splits)

lemma verifyAddress_False: "verifyAddress E node = Ok (False, er) \<Longrightarrow> \<exists>e. er = Some e"
  using IsValid_False [of E "nAddress node"] by (auto simp: verifyAddress_def split: if_splits)

section \<open>The next node of a branch\<close>

lemma GetLast_iff:
  "GetLast da rk b w = Ok (h, k) \<longleftrightarrow> b \<noteq> '''' \<and>
     (\<exists>br key. getNodeByKey da rk w = Ok (Some br)
        \<and> rs_Resolve da (getLastNodeName da br rk b) w = Ok key
        \<and> (getNodeByKey da key w = Ok h \<and> k = key
           \<or> getNodeByKey da key w = Err ErrNodeNotFound \<and> h = Some br \<and> k = rk))"
proof (cases "\<exists>br key. getNodeByKey da rk w = Ok (Some br) \<and> rs_Resolve da (getLastNodeName da br rk b) w = Ok key")
  case True
  then obtain br key where "getNodeByKey da rk w = Ok (Some br)"
    "rs_Resolve da (getLastNodeName da br rk b) w = Ok key" by blast
  then show ?thesis
    by (cases "getNodeByKey da key w") (auto simp: GetLast_def resolveLastNodeKey_def)
next
  case False
  then have "GetLast da rk b w \<noteq> Ok (h, k)"
    by (auto simp: GetLast_def resolveLastNodeKey_def split: option.splits)
  with False show ?thesis by blast
qed

lemma GetLast_node:
  "GetLast da rk b w = Ok (Some h, k) \<Longrightarrow> getNodeByKey da k w = Ok (Some h)"
  by (auto simp: GetLast_iff)

lemma GetLast_translated [simp]:
  "map_error translateError (GetLast da rk b w) = GetLast da rk b w"
  unfolding GetLast_def map_error_bind if_distrib [of "map_error translateError"]
  by (auto simp: translateError_def intro!: bind_result_cong split: result.split)

text \<open>
  The specification: the branch is declared at the branch root, the node points to the
  branch's last node, it counts on from it, and it starts from 1 where a branch begins.
\<close>

definition next_in_branch :: "'w dag \<Rightarrow> Node \<Rightarrow> string \<Rightarrow> 'w \<Rightarrow> bool" where
  "next_in_branch da node rk w \<longleftrightarrow>
     (\<exists>br prev. getNodeByKey da rk w = Ok (Some br)
        \<and> nBranch node \<in> set (nBranches br)
        \<and> GetLast da rk (nBranch node) w = Ok (Some prev, nPrevious node)
        \<and> (if nBranch prev = nBranch node then nSeq node = nSeq prev + 1
           else nPrevious node = rk \<longrightarrow> nSeq node = 1))"

lemma verify_new_Ok:
  assumes "getNodeByKey da (nPrevious node) w = Ok (Some previous)"
  shows "verify_new da node previous rk w = Ok u \<longleftrightarrow> next_in_branch da node rk w"
proof -
  have iff: "verify_new da node previous rk w = Ok u \<longleftrightarrow>
      (\<exists>br h. getNodeByKey da rk w = Ok (Some br) \<and> nBranch node \<in> set (nBranches br)
        \<and> GetLast da rk (nBranch node) w = Ok (Some h, nPrevious node)
        \<and> \<not> (nPrevious node = rk \<and> nBranch node \<noteq> nBranch h \<and> nSeq node \<noteq> 1)
        \<and> \<not> (nBranch node = nBranch previous \<and> nSeq node \<noteq> nSeq previous + 1))"
    by (cases "getNodeByKey da rk w"; cases "GetLast da rk (nBranch node) w")
       (auto simp: verify_new_def split: option.splits if_splits)
  have prev: "h = previous" if "GetLast da rk (nBranch node) w = Ok (Some h, nPrevious node)" for h
    using GetLast_node [OF that] assms by simp
  show ?thesis
  proof
    assume "verify_new da node previous rk w = Ok u"
    then obtain br h where *: "getNodeByKey da rk w = Ok (Some br)" "nBranch node \<in> set (nBranches br)"
        "GetLast da rk (nBranch node) w = Ok (Some h, nPrevious node)"
        "\<not> (nPrevious node = rk \<and> nBranch node \<noteq> nBranch h \<and> nSeq node \<noteq> 1)"
        "\<not> (nBranch node = nBranch previous \<and> nSeq node \<noteq> nSeq previous + 1)"
      using iff by blast
    have "h = previous" by (rule prev) (rule *)
    with * have "if nBranch h = nBranch node then nSeq node = nSeq h + 1 else nPrevious node = rk \<longrightarrow> nSeq node = 1"
      by auto
    with *(1-3) show "next_in_branch da node rk w" unfolding next_in_branch_def by blast
  next
    assume "next_in_branch da node rk w"
    then obtain br h where *: "getNodeByKey da rk w = Ok (Some br)" "nBranch node \<in> set (nBranches br)"
        "GetLast da rk (nBranch node) w = Ok (Some h, nPrevious node)"
        "if nBranch h = nBranch node then nSeq node = nSeq h + 1 else nPrevious node = rk \<longrightarrow> nSeq node = 1"
      unfolding next_in_branch_def by blast
    have "h = previous" by (rule prev) (rule *)
    with * have "\<not> (nPrevious node = rk \<and> nBranch node \<noteq> nBranch h \<and> nSeq node \<noteq> 1)"
        "\<not> (nBranch node = nBranch previous \<and> nSeq node \<noteq> nSeq previous + 1)"
      by (auto split: if_splits)
    with * iff show "verify_new da node previous rk w = Ok u" by blast
  qed
qed

lemma VerifyNode_new_iff:
  "VerifyNode da node rk True w = Ok u \<longleftrightarrow> authentic (dag_env da) node \<and> next_in_branch da node rk w"
proof -
  have prev: "\<exists>p. getNodeByKey da (nPrevious node) w = Ok (Some p)" if "next_in_branch da node rk w"
    using that GetLast_node by (fastforce simp: next_in_branch_def)
  have "VerifyNode da node rk True w = Ok u \<longleftrightarrow>
      verifyAddress (dag_env da) node = Ok (True, None) \<and> verify_self (dag_env da) node = Ok ()
      \<and> (\<exists>p. getNodeByKey da (nPrevious node) w = Ok (Some p) \<and> verify_new da node p rk w = Ok ())"
    using verifyAddress_False [of "dag_env da" node] verifyAddress_True [of "dag_env da" node]
    by (auto simp: VerifyNode_def split: if_splits result.splits option.splits)
  also have "\<dots> \<longleftrightarrow> authentic (dag_env da) node \<and> next_in_branch da node rk w"
    using prev verify_new_Ok [of da node w _ rk "()"]
    unfolding verifyAddress_True verify_self_Ok authentic_def by blast
  finally show ?thesis .
qed

lemma VerifyNode_old_iff:
  "VerifyNode da node rk False w = Ok u \<longleftrightarrow>
     authentic (dag_env da) node \<and> (\<exists>p. getNodeByKey da (nPrevious node) w = Ok (Some p))"
  using verifyAddress_False [of "dag_env da" node] verifyAddress_True [of "dag_env da" node]
  by (auto simp: VerifyNode_def verify_self_Ok authentic_def split: if_splits result.splits option.splits)

text \<open>A node is appended exactly when it is authentic and next, and then it is saved.\<close>

lemma dag_Append_Ok:
  "dag_Append da node rk w = (Ok key, w') \<longleftrightarrow>
     authentic (dag_env da) node \<and> next_in_branch da node rk w \<and> saveNode da node rk w = (Ok key, w')"
  using VerifyNode_new_iff [of da node rk w "()"]
  by (cases "VerifyNode da node rk True w") (auto simp: dag_Append_def)

end
