(* ===== verification/DagHeads.thy ===== *)
theory DagHeads
  imports DagVerify
begin

text \<open>
  How the writing operations of a \<open>Dag\<close> move the heads of its branches, proved for every backend,
  and when they succeed on the backend in memory.
\<close>

section \<open>Every backend\<close>

lemma getNodeByKey_OkD:
  assumes "getNodeByKey da k w = Ok n"
  shows "\<exists>b. dt_Get da k w = Ok (Reader b None) \<and> decode_node b = Ok n"
proof -
  from assms obtain f where f: "dt_Get da k w = Ok f" by (auto simp: getNodeByKey_def)
  obtain b er where "f = Reader b er" by (cases f)
  with f assms have "f = Reader b None"
    by (cases er) (auto simp: getNodeByKey_def read_loop_eq)
  with f assms getNodeByKey_stored [of da k w b] show ?thesis by simp
qed

text \<open>No stored value has the key of the node's JSON, except that JSON itself.\<close>

definition no_clash :: "'w dag \<Rightarrow> (bytes \<Rightarrow> string) \<Rightarrow> Node \<Rightarrow> 'w \<Rightarrow> bool" where
  "no_clash da cid node w \<longleftrightarrow>
     (\<forall>js b. ToJson node = Ok js \<longrightarrow> dt_Get da (cid js) w = Ok (Reader b None) \<longrightarrow> b = js)"

context dag_writer begin

lemma saved_getNode:
  assumes "saved da cid node ns w key w'" and "node_ok node"
  shows "getNodeByKey da key w' = Ok (Some node)"
  using assms getNodeByKey_stored [of da key w'] decode_node_ToJson [of node]
  by (auto simp: saved_def)

lemma saved_getNode_other:
  "saved da cid node ns w key w' \<Longrightarrow> k \<noteq> key \<Longrightarrow> getNodeByKey da k w' = getNodeByKey da k w"
  by (auto simp: saved_def intro: getNodeByKey_cong)

lemma saved_getNode_keeps:
  assumes "saved da cid node ns w key w'" and "no_clash da cid node w" and "getNodeByKey da k w = Ok n"
  shows "getNodeByKey da k w' = Ok n"
proof (cases "k = key")
  case True
  obtain b where b: "dt_Get da k w = Ok (Reader b None)" "decode_node b = Ok n"
    using getNodeByKey_OkD [OF assms(3)] by blast
  obtain js where js: "ToJson node = Ok js" "key = cid js" "dt_Get da key w' = Ok (Reader js None)"
    using assms(1) by (auto simp: saved_def)
  have "b = js" using assms(2) b(1) js True by (auto simp: no_clash_def)
  with b js True getNodeByKey_stored [OF js(3)] show ?thesis by simp
next
  case False
  with saved_getNode_other [OF assms(1)] assms(3) show ?thesis by simp
qed

lemma saved_resolve:
  "saved da cid node ns w key w' \<Longrightarrow>
     rs_Resolve da n w' = (if n \<in> ns then Ok key else rs_Resolve da n w)"
  by (simp add: saved_def)

lemma saved_key: "saved da cid node ns w key w' \<Longrightarrow> CHR ''/'' \<notin> set key"
  using cid_slash by (auto simp: saved_def)

text \<open>A head that was named in the write is the new node.\<close>

lemma saved_GetLast:
  assumes "saved da cid node ns w key w'" and "node_ok node" and "b \<noteq> ''''"
    and "getNodeByKey da rk w' = Ok (Some br)" and "getLastNodeName da br rk b \<in> ns"
  shows "GetLast da rk b w' = Ok (Some node, key)"
  using assms saved_getNode [OF assms(1,2)] saved_resolve [OF assms(1)]
  by (simp add: GetLast_iff)

text \<open>Every other head stays, if it is stored.\<close>

lemma saved_GetLast_other:
  assumes "saved da cid node ns w key w'" and "no_clash da cid node w"
    and "getNodeByKey da rk w = Ok (Some br)" and "getLastNodeName da br rk b \<notin> ns"
    and "rs_Resolve da (getLastNodeName da br rk b) w = Ok k" and "getNodeByKey da k w = Ok n"
  shows "GetLast da rk b w' = GetLast da rk b w"
proof -
  note keeps = saved_getNode_keeps [OF assms(1,2)]
  show ?thesis
    using keeps [OF assms(3)] keeps [OF assms(6)] assms(3-6) saved_resolve [OF assms(1)]
    by (simp add: GetLast_def resolveLastNodeKey_def)
qed

lemma append_saved:
  assumes "dag_Append da node rk w = (Ok key, w')"
  shows "\<exists>br. getNodeByKey da rk w = Ok (Some br)
    \<and> saved da cid node (insert (getLastNodeName da br rk (nBranch node)) (branch_names da node key)) w key w'"
  using saveNode_Ok assms by (auto simp: dag_Append_Ok)

lemma append_head:
  assumes app: "dag_Append da node rk w = (Ok key, w')" and ok: "node_ok node" and "no_clash da cid node w"
  shows "getNodeByKey da key w' = Ok (Some node)"
    and "GetLast da rk (nBranch node) w' = Ok (Some node, key)"
    and "b \<in> set (nBranches node) \<Longrightarrow> b \<noteq> '''' \<Longrightarrow> GetLast da key b w' = Ok (Some node, key)"
proof -
  obtain br where br: "getNodeByKey da rk w = Ok (Some br)"
    and sv: "saved da cid node (insert (getLastNodeName da br rk (nBranch node)) (branch_names da node key)) w key w'"
    using append_saved [OF app] by blast
  show key: "getNodeByKey da key w' = Ok (Some node)" by (rule saved_getNode [OF sv ok])
  have "nBranch node \<noteq> ''''" using app by (auto simp: dag_Append_Ok authentic_def)
  then show "GetLast da rk (nBranch node) w' = Ok (Some node, key)"
    by (rule saved_GetLast [OF sv ok _ saved_getNode_keeps [OF sv assms(3) br]]) simp
  show "GetLast da key b w' = Ok (Some node, key)" if "b \<in> set (nBranches node)" "b \<noteq> ''''" for b
    by (rule saved_GetLast [OF sv ok that(2) key]) (use that in \<open>simp add: branch_names_def\<close>)
qed

lemma SetRoot_save:
  "SetRoot da node w = (Ok key, w') \<Longrightarrow>
     nBranch node \<noteq> '''' \<and> nBranch node \<in> set (nBranches node) \<and> saveRootNode da node w = (Ok key, w')"
  by (auto simp: SetRoot_def Let_def fail_io_def split: if_splits result.splits)

lemma SetRoot_saved:
  "SetRoot da node w = (Ok key, w') \<Longrightarrow>
     saved da cid node (insert (getRootNodeName da (nAddress node))
      (insert (getLastNodeName da node key (nBranch node)) (branch_names da node key))) w key w'"
  using SetRoot_save saveRootNode_Ok by blast

lemma SetRoot_root:
  assumes "SetRoot da node w = (Ok key, w')" and "node_ok node"
  shows "GetRoot da (nAddress node) w' = Ok (Some node, key)"
    and "b \<in> set (nBranches node) \<Longrightarrow> b \<noteq> '''' \<Longrightarrow> GetLast da key b w' = Ok (Some node, key)"
proof -
  note sv = SetRoot_saved [OF assms(1)]
  note key = saved_getNode [OF sv assms(2)]
  show "GetRoot da (nAddress node) w' = Ok (Some node, key)"
    using key saved_resolve [OF sv] by (simp add: GetRoot_def resolveRootNodeKey_def)
  show "GetLast da key b w' = Ok (Some node, key)" if "b \<in> set (nBranches node)" "b \<noteq> ''''" for b
    by (rule saved_GetLast [OF sv assms(2) that(2) key]) (use that in \<open>simp add: branch_names_def\<close>)
qed

lemma SetRoot_again:
  assumes "GetRoot da (nAddress node) w = Ok (Some root, key)"
    and "nBranch node \<noteq> ''''" and "nBranch node \<in> set (nBranches node)"
  shows "SetRoot da node w = (Err ErrDagAlreadyInitialized, w)"
  using assms by (simp add: SetRoot_def fail_io_def)

end

section \<open>Writes that succeed\<close>

text \<open>
  A backend that takes every value, and every name of the addresses \<open>as\<close>, in the states with the property \<open>P\<close>,
  which it keeps.
\<close>

locale dag_writable =
  fixes da :: "'w dag" and cid :: "bytes \<Rightarrow> string" and P :: "'w \<Rightarrow> bool" and as :: "string set"
  assumes put_total: "P w \<Longrightarrow> \<exists>p w'. dt_Put da b pf w = (Ok (cid b, p), w') \<and> P w'"
    and add_total: "P w \<Longrightarrow> a \<in> as \<Longrightarrow> \<exists>w'. rs_Add da (getName da a parts) v w = (Ok (), w') \<and> P w'"
begin

lemma addResolution_total:
  "P w \<Longrightarrow> bs \<noteq> [] \<longrightarrow> nAddress node \<in> as \<Longrightarrow>
     \<exists>w'. addResolutionForNodeBranches da node key bs w = (Ok (), w') \<and> P w'"
proof (induction bs arbitrary: w)
  case (Cons b bs)
  obtain w1 where "rs_Add da (getLastNodeName da node key b) key w = (Ok (), w1)" "P w1"
    using add_total [OF Cons.prems(1)] Cons.prems(2) unfolding getLastNodeName_def by blast
  with Cons.IH [of w1] Cons.prems(2) show ?case by (auto simp: bind_io_def)
qed (simp add: return_io_def)

lemma saveNode_total:
  assumes "getNodeByKey da rk w = Ok (Some br)" and "getFullPath da w rk = Some (Ok fp)"
    and "P w" and "nAddress br \<in> as" and "nBranches node \<noteq> [] \<longrightarrow> nAddress node \<in> as"
  shows "\<exists>key w'. saveNode da node rk w = (Ok key, w') \<and> P w'"
proof -
  obtain js where js: "ToJson node = Ok js" using ToJson_total by blast
  define pf where "pf = (\<lambda>cid. Join [fst fp, ''branches'', nBranch node, cid, ''node''] ''/'')"
  obtain p w1 where put: "dt_Put da js (Some pf) w = (Ok (cid js, p), w1)" "P w1"
    using put_total [OF assms(3)] by blast
  obtain w2 where add: "rs_Add da (getLastNodeName da br rk (nBranch node)) (cid js) w1 = (Ok (), w2)" "P w2"
    using add_total [OF put(2) assms(4)] unfolding getLastNodeName_def by blast
  obtain w3 where names: "addResolutionForNodeBranches da node (cid js) (nBranches node) w2 = (Ok (), w3)" "P w3"
    using addResolution_total [OF add(2) assms(5)] by blast
  have "saveNode da node rk w = (Ok (cid js), w3)"
    using assms(1,2) js put(1) add(1) names(1) unfolding saveNode_def pf_def by (cases fp) (simp add: io_defs)
  with names(2) show ?thesis by blast
qed

lemma saveRootNode_total:
  assumes "P w" and "nAddress node \<in> as"
  shows "\<exists>key w'. saveRootNode da node w = (Ok key, w') \<and> P w'"
proof -
  obtain js where js: "ToJson node = Ok js" using ToJson_total by blast
  define pf where "pf = (\<lambda>cid. getName da (nAddress node) [cid, ''node''])"
  obtain p w1 where put: "dt_Put da js (Some pf) w = (Ok (cid js, p), w1)" "P w1"
    using put_total [OF assms(1)] by blast
  obtain w2 where add: "rs_Add da (getLastNodeName da node (cid js) (nBranch node)) (cid js) w1 = (Ok (), w2)" "P w2"
    using add_total [OF put(2) assms(2)] unfolding getLastNodeName_def by blast
  obtain w3 where root: "rs_Add da (getRootNodeName da (nAddress node)) (cid js) w2 = (Ok (), w3)" "P w3"
    using add_total [OF add(2) assms(2)] unfolding getRootNodeName_def by blast
  obtain w4 where names: "addResolutionForNodeBranches da node (cid js) (nBranches node) w3 = (Ok (), w4)" "P w4"
    using addResolution_total [OF root(2)] assms(2) by blast
  have "saveRootNode da node w = (Ok (cid js), w4)"
    using js put(1) add(1) root(1) names(1) unfolding saveRootNode_def pf_def by (simp add: io_defs)
  with names(2) show ?thesis by blast
qed

end

section \<open>The backend in memory\<close>

text \<open>An address that can be written under: managed, valid and without a slash.\<close>

definition managed :: "crypto_env \<Rightarrow> local_world \<Rightarrow> string \<Rightarrow> bool" where
  "managed E w a \<longleftrightarrow> CHR ''/'' \<notin> set a \<and> IsValid E a = Ok (True, None) \<and> addresses (rs w) a \<noteq> None"

lemma rs_Add_managed:
  assumes "managed E w a"
  shows "rs_Add (NewDag E ns) (getName (NewDag E ns) a parts) v w
    = (Ok (), w\<lparr>rs := (rs w)\<lparr>names := (names (rs w))(getName (NewDag E ns) a parts \<mapsto> v)\<rparr>\<rparr>)"
  using assms local_Add_managed [of a E "rs w" "ns @ ''/dag/'' @ Join parts ''/''" v]
  by (simp add: managed_def on_rs_def getName_def)

lemma managed_names [simp]: "managed E (w\<lparr>rs := (rs w)\<lparr>names := nm\<rparr>\<rparr>) a = managed E w a"
  by (simp add: managed_def)

lemma managed_ds [simp]: "managed E (w\<lparr>ds := d\<rparr>) a = managed E w a"
  by (simp add: managed_def)

lemma dt_Put_local: "\<exists>p w'. dt_Put (NewDag E ns) js pf w = (Ok (hexHash E js, p), w') \<and> rs w' = rs w"
  by (auto simp: on_ds_def local_Put_def Let_def split: option.splits)

lemma managed_rs: "rs w' = rs w \<Longrightarrow> managed E w' a = managed E w a"
  by (simp add: managed_def)

interpretation local_writable: dag_writable "NewDag E ns" "hexHash E" "\<lambda>w. \<forall>a \<in> as. managed E w a" as for E ns as
proof
  show "\<exists>p w'. dt_Put (NewDag E ns) b pf w = (Ok (hexHash E b, p), w') \<and> (\<forall>a \<in> as. managed E w' a)"
    if "\<forall>a \<in> as. managed E w a" for w b pf
    using that dt_Put_local managed_rs by metis
  show "\<exists>w'. rs_Add (NewDag E ns) (getName (NewDag E ns) a parts) v w = (Ok (), w') \<and> (\<forall>a \<in> as. managed E w' a)"
    if "\<forall>a \<in> as. managed E w a" "a \<in> as" for w a parts v
    using that rs_Add_managed [of E w a ns parts v] by (auto simp del: NewDag_sel)
qed

lemma saveNode_succeeds:
  assumes "getNodeByKey (NewDag E ns) rk w = Ok (Some br)" and "getFullPath (NewDag E ns) w rk = Some (Ok fp)"
    and "managed E w (nAddress br)" and "nBranches node \<noteq> [] \<longrightarrow> managed E w (nAddress node)"
  shows "\<exists>key w'. saveNode (NewDag E ns) node rk w = (Ok key, w')"
  using local_writable.saveNode_total [OF assms(1,2), of "{a. managed E w a}" node] assms(3,4) by blast

lemma saveRootNode_succeeds:
  assumes "managed E w (nAddress node)"
  shows "\<exists>key w'. saveRootNode (NewDag E ns) node w = (Ok key, w')"
  using local_writable.saveRootNode_total [of "{nAddress node}" E w node ns] assms by blast

text \<open>No write changes which addresses are managed.\<close>

lemma addResolution_addresses:
  "addResolutionForNodeBranches (NewDag E ns) node key bs w = (r, w') \<Longrightarrow> addresses (rs w') = addresses (rs w)"
proof (induction bs arbitrary: w)
  case (Cons b bs)
  then show ?case
    by (auto simp: bind_io_def on_rs_eq local_Add_def split: prod.splits result.splits option.splits)
qed simp

lemma rs_Add_addresses: "rs_Add (NewDag E ns) n v w = (r, w') \<Longrightarrow> addresses (rs w') = addresses (rs w)"
  by (auto simp: on_rs_eq local_Add_def split: result.splits option.splits)

lemma dt_Put_addresses: "dt_Put (NewDag E ns) b pf w = (r, w') \<Longrightarrow> addresses (rs w') = addresses (rs w)"
  by (auto simp: on_ds_eq)

lemma saveNode_addresses: "saveNode (NewDag E ns) node rk w = (r, w') \<Longrightarrow> addresses (rs w') = addresses (rs w)"
  unfolding saveNode_def bind_io_def map_error_io_def read_io_def
  by (auto simp del: NewDag_sel split: prod.splits result.splits option.splits
      dest!: addResolution_addresses rs_Add_addresses dt_Put_addresses)

lemma saveRootNode_addresses: "saveRootNode (NewDag E ns) node w = (r, w') \<Longrightarrow> addresses (rs w') = addresses (rs w)"
  unfolding saveRootNode_def bind_io_def map_error_io_def read_io_def
  by (auto simp del: NewDag_sel split: prod.splits result.splits option.splits
      dest!: addResolution_addresses rs_Add_addresses dt_Put_addresses)

lemma write_addresses:
  "SetRoot (NewDag E ns) node w = (r, w') \<Longrightarrow> addresses (rs w') = addresses (rs w)"
  "dag_Append (NewDag E ns) node rk w = (r, w') \<Longrightarrow> addresses (rs w') = addresses (rs w)"
proof -
  show "SetRoot (NewDag E ns) node w = (r, w') \<Longrightarrow> addresses (rs w') = addresses (rs w)"
    using saveRootNode_addresses [of E ns node w r w']
    by (auto simp: SetRoot_def Let_def fail_io_def split: if_splits result.splits)
  show "dag_Append (NewDag E ns) node rk w = (r, w') \<Longrightarrow> addresses (rs w') = addresses (rs w)"
    using saveNode_addresses [of E ns node rk w r w']
    by (cases "VerifyNode (NewDag E ns) node rk True w") (simp_all add: dag_Append_def)
qed

lemma managed_addresses: "addresses (rs w') = addresses (rs w) \<Longrightarrow> managed E w' a = managed E w a"
  by (simp add: managed_def)

end
