(* ===== verification/DagSample.thy ===== *)
theory DagSample
  imports DagHeads
begin

text \<open>
  Nodes that the owner of an address makes are authentic; and a concrete run on which the
  properties are exercised: an address, a root, and the nodes after it.
\<close>

section \<open>The owner of an address\<close>

lemma owner_address:
  assumes "digest_sizes E" and "NewAddressForKeys E (keypair_of k) = Ok addr"
  shows "Keys addr = Some (keypair_of k)" and "CHR ''/'' \<notin> set (Addr addr)"
    and "IsValid E (Addr addr) = Ok (True, None)"
    and "MatchesPubKey E (Addr addr) (PublicKey (keypair_of k)) = Ok True"
    and "list_all (\<lambda>c. code c < 128) (Addr addr)"
proof -
  have gen: "generateAddressHash E (pair_bytes (keyX k) (keyY k)) = Ok (Addr addr)"
    and keys: "Keys addr = Some (keypair_of k)"
    using assms(2) by (auto simp: NewAddressForKeys_def)
  show "Keys addr = Some (keypair_of k)" by (rule keys)
  show "CHR ''/'' \<notin> set (Addr addr)" by (rule slash_notin_generated [OF gen])
  show "IsValid E (Addr addr) = Ok (True, None)" by (rule IsValid_generated [OF assms(1) gen])
  show "MatchesPubKey E (Addr addr) (PublicKey (keypair_of k)) = Ok True"
    using gen by (simp add: MatchesPubKey_True)
  have "\<forall>b \<in> set b58Alphabet. unat b < 128"
    by (simp add: b58Alphabet_def bytes_of_def unat_byte_of)
  moreover have "set (bytes_of (Addr addr)) \<subseteq> set b58Alphabet"
    using gen by (auto simp: generateAddressHash_Ok Let_def dest: Base58Encode_alphabet)
  ultimately show "list_all (\<lambda>c. code c < 128) (Addr addr)"
    unfolding list_all_iff set_bytes_of by (metis image_subset_iff unat_byte_of)
qed

lemma signed_authentic:
  assumes "digest_sizes E" and "ecdsa_signs E k" and "key_fits k"
    and "NewAddressForKeys E (keypair_of k) = Ok addr"
    and "node_Sign E rnd m k = Ok n"
    and "nAddress m = Addr addr" and "nPubKey m = PublicKey (keypair_of k)"
    and "nSeq m \<noteq> 0" and "nBranch m \<noteq> ''''" and "Parse_RFC3339 (nTimestamp m) \<noteq> None"
  shows "authentic E n"
proof -
  have "node_VerifySignature E n = Ok ()"
    using assms(7) by (intro node_Sign_verifies [OF assms(2,3,5)]) simp
  moreover have "nAddress n = nAddress m" "nPubKey n = nPubKey m" "nSeq n = nSeq m"
      "nBranch n = nBranch m" "nTimestamp n = nTimestamp m"
    using assms(5) by (auto simp: node_Sign_Ok)
  ultimately show ?thesis
    using owner_address [OF assms(1,4)] assms(6-10) by (simp add: authentic_def)
qed

lemma utf8_hexHash [simp]: "utf8_valid (hexHash E b)"
  by (simp add: hexHash_def)

section \<open>A concrete run\<close>

definition sample_address :: Address where
  "sample_address = (case NewAddressForKeys sample_env (keypair_of sample_key) of
     Ok a \<Rightarrow> a | _ \<Rightarrow> \<lparr>Keys = None, Addr = ''''\<rparr>)"

lemma sample_address: "NewAddressForKeys sample_env (keypair_of sample_key) = Ok sample_address"
proof -
  obtain a where "generateAddressHash sample_env (pair_bytes (keyX sample_key) (keyY sample_key)) = Ok a"
    using sample_generate by blast
  then have "NewAddressForKeys sample_env (keypair_of sample_key) = Ok \<lparr>Keys = Some (keypair_of sample_key), Addr = a\<rparr>"
    by (simp add: NewAddressForKeys_def)
  then show ?thesis by (simp add: sample_address_def)
qed

lemma sample_fits: "key_fits sample_key"
  by (simp add: key_fits_def sample_key_def fits32_def)

text \<open>A node of the owner: sequence number, previous node, branch, own branches.\<close>

definition unsigned_node :: "32 word \<Rightarrow> string \<Rightarrow> string \<Rightarrow> string list \<Rightarrow> Node" where
  "unsigned_node seqn prev branch branches =
     NewNode\<lparr>nSeq := seqn, nTimestamp := ''2024-02-29T23:59:59Z'', nAddress := Addr sample_address,
       nPrevious := prev, nBranch := branch, nBranches := branches, nPubKey := PublicKey (keypair_of sample_key)\<rparr>"

definition signed_node :: "32 word \<Rightarrow> string \<Rightarrow> string \<Rightarrow> string list \<Rightarrow> Node" where
  "signed_node seqn prev branch branches =
     (case node_Sign sample_env [] (unsigned_node seqn prev branch branches) sample_key of Ok n \<Rightarrow> n | _ \<Rightarrow> NewNode)"

lemma signed_node_Sign:
  "node_Sign sample_env [] (unsigned_node seqn prev branch branches) sample_key = Ok (signed_node seqn prev branch branches)"
proof -
  obtain s where "Sign sample_env [] (sha256 sample_env (GetBytesForSigning (unsigned_node seqn prev branch branches))) sample_key = Ok s"
    using sample_Sign by blast
  then show ?thesis by (simp add: signed_node_def node_Sign_def)
qed

lemma signed_node_sel [simp]:
  "nSeq (signed_node seqn prev branch branches) = seqn"
  "nPrevious (signed_node seqn prev branch branches) = prev"
  "nBranch (signed_node seqn prev branch branches) = branch"
  "nBranches (signed_node seqn prev branch branches) = branches"
  "nAddress (signed_node seqn prev branch branches) = Addr sample_address"
  "nBranchRoot (signed_node seqn prev branch branches) = ''''"
  using signed_node_Sign [of seqn prev branch branches]
  by (auto simp: node_Sign_Ok unsigned_node_def NewNode_def)

lemma signed_node_authentic:
  assumes "seqn \<noteq> 0" and "branch \<noteq> ''''"
  shows "authentic sample_env (signed_node seqn prev branch branches)"
proof -
  have "Parse_RFC3339 ''2024-02-29T23:59:59Z'' \<noteq> None" by code_simp
  then show ?thesis
    using assms by (intro signed_authentic [OF sample_sizes sample_signs sample_fits sample_address signed_node_Sign])
      (simp_all add: unsigned_node_def)
qed

lemma signed_node_ok:
  assumes "utf8_valid prev" and "utf8_valid branch" and "list_all utf8_valid branches"
  shows "node_ok (signed_node seqn prev branch branches)"
proof -
  have "utf8_valid (Addr sample_address)"
    by (rule utf8_ascii [OF owner_address(5) [OF sample_sizes sample_address]])
  then show ?thesis
    using assms signed_node_Sign [of seqn prev branch branches]
    by (auto simp: node_Sign_Ok node_ok_def unsigned_node_def NewNode_def)
qed

text \<open>The hash of the sample environment tells nodes with different first digits apart.\<close>

lemma json_first_field:
  assumes "ToJson m = Ok js" and "nSeq m \<noteq> 0"
  shows "\<exists>rest. js = bytes_of (CHR ''{'' # quote ''seq'' @ '':'' @ Itoa (sint (nSeq m)) @ rest)"
proof -
  obtain fs where fs: "node_fields m = (''seq'', JNum (Itoa (sint (nSeq m)))) # fs"
    using assms(2) by (simp add: node_fields_def)
  have "\<exists>rest. Join (s # ss) sep = s @ rest" for s ss and sep :: string
    by (cases ss) auto
  then obtain rest where "Join (map (\<lambda>(k, v). quote k @ '':'' @ render v) (node_fields m)) '',''
      = (quote ''seq'' @ '':'' @ Itoa (sint (nSeq m))) @ rest"
    unfolding fs list.map prod.case render.simps by blast
  note join = this
  have "js = bytes_of (CHR ''{'' # quote ''seq'' @ '':'' @ Itoa (sint (nSeq m)) @ (rest @ ''}''))"
    using assms(1) unfolding ToJson_def render.simps join by simp
  then show ?thesis by blast
qed

lemma quote_seq: "quote ''seq'' = [CHR 0x22, CHR ''s'', CHR ''e'', CHR ''q'', CHR 0x22]"
  by code_simp

lemma sample_json_digit:
  assumes "ToJson m = Ok js" and "nSeq m \<noteq> 0"
  shows "7 < length js" and "js ! 7 = byte_of (hd (Itoa (sint (nSeq m))))"
proof -
  obtain rest where js: "js = bytes_of (CHR ''{'' # quote ''seq'' @ '':'' @ Itoa (sint (nSeq m)) @ rest)"
    using json_first_field [OF assms] by blast
  obtain c t where "Itoa (sint (nSeq m)) = c # t"
    by (cases "Itoa (sint (nSeq m))") (auto simp: Itoa_def split: if_splits)
  then show "7 < length js" "js ! 7 = byte_of (hd (Itoa (sint (nSeq m))))"
    by (simp_all add: js quote_seq)
qed

lemma sample_hexHash_neq:
  assumes "ToJson m = Ok js" and "ToJson m' = Ok js'" and "nSeq m \<noteq> 0" and "nSeq m' \<noteq> 0"
    and "hd (Itoa (sint (nSeq m))) \<noteq> hd (Itoa (sint (nSeq m')))"
  shows "hexHash sample_env js \<noteq> hexHash sample_env js'"
proof -
  have "js ! 7 \<noteq> js' ! 7" "7 < length js" "7 < length js'"
    using sample_json_digit [OF assms(1,3)] sample_json_digit [OF assms(2,4)] assms(5) by simp_all
  then have "sha256 sample_env js \<noteq> sha256 sample_env js'"
    by (simp add: sample_env_def sample_hash_def)
  then show ?thesis by (simp add: hexHash_def del: HexEncode_simps)
qed

lemma sample_digits:
  "hd (Itoa 1) = CHR ''1''" "hd (Itoa 2) = CHR ''2''" "hd (Itoa 3) = CHR ''3''"
  by (simp_all add: Itoa_def utoa_def digits.simps digit_char_def char_of_eq_iff)

definition sample_dag :: "local_world dag" where
  "sample_dag = NewDag sample_env ''ns''"

text \<open>The world in which the address is managed.\<close>

definition sample_world :: local_world where
  "sample_world = snd (dag_Manage sample_dag sample_address new_world)"

lemma sample_key_text: "PrivateKey (keypair_of sample_key) \<noteq> ''''"
proof -
  have "BigBytes 5 \<noteq> []" by (simp add: BigBytes_def digits.simps)
  then show ?thesis by (simp add: sample_key_def)
qed

lemma sample_world_eq:
  "sample_world = new_world\<lparr>rs := NewLocalResolver\<lparr>addresses := [Addr sample_address \<mapsto> sample_address]\<rparr>\<rparr>"
  using owner_address(1) [OF sample_sizes sample_address] sample_key_text
  by (simp add: sample_world_def dag_Manage_def sample_dag_def on_rs_def local_Manage_def new_world_def
      NewLocalResolver_def)

lemma sample_managed: "managed sample_env sample_world (Addr sample_address)"
  using owner_address(2,3) [OF sample_sizes sample_address]
  by (simp add: managed_def sample_world_eq)

definition sample_root :: Node where
  "sample_root = signed_node 1 '''' ''main'' [''main'', ''c'']"

lemma sample_root_ok: "node_ok sample_root"
  unfolding sample_root_def by (rule signed_node_ok) simp_all

lemma sample_world_empty: "dt_Get sample_dag k sample_world = Err DatastoreErrNotFound"
  by (simp add: sample_dag_def sample_world_eq new_world_def NewLocalFileStore_def local_Get_def)

lemma sample_no_root: "GetRoot sample_dag (Addr sample_address) sample_world = Err ResolverErrNotFound"
proof -
  have "local_Resolve sample_env (getRootNodeName sample_dag (Addr sample_address)) (rs sample_world) = Err ResolverErrNotFound"
    using local_Resolve_name [OF owner_address(2,3) [OF sample_sizes sample_address],
        of "''ns'' @ ''/dag/'' @ ''shortcuts/root''" "rs sample_world"]
    by (simp add: getRootNodeName_def getName_def sample_dag_def sample_world_eq NewLocalResolver_def)
  then show ?thesis by (simp add: GetRoot_def resolveRootNodeKey_def sample_dag_def translateError_def)
qed

lemma sample_SetRoot_as:
  assumes "nAddress node = Addr sample_address" and "nBranch node \<noteq> ''''" and "nBranch node \<in> set (nBranches node)"
  obtains key w where "SetRoot sample_dag node sample_world = (Ok key, w)"
proof -
  obtain key w where "saveRootNode sample_dag node sample_world = (Ok key, w)"
    using saveRootNode_succeeds [of sample_env sample_world node "''ns''"] sample_managed assms
    by (auto simp: sample_dag_def)
  then have "SetRoot sample_dag node sample_world = (Ok key, w)"
    using assms sample_no_root by (simp add: SetRoot_def hasBranch_iff)
  then show ?thesis by (rule that)
qed

lemma sample_SetRoot:
  obtains key w where "SetRoot sample_dag sample_root sample_world = (Ok key, w)"
  by (rule sample_SetRoot_as [of sample_root]) (simp_all add: sample_root_def that)

text \<open>The world after the root, and a node after it.\<close>

definition sample_key0 :: string where
  "sample_key0 = (case SetRoot sample_dag sample_root sample_world of (Ok k, w) \<Rightarrow> k | _ \<Rightarrow> '''')"

definition sample_world1 :: local_world where
  "sample_world1 = snd (SetRoot sample_dag sample_root sample_world)"

lemma sample_SetRoot1: "SetRoot sample_dag sample_root sample_world = (Ok sample_key0, sample_world1)"
  by (rule sample_SetRoot) (simp add: sample_key0_def sample_world1_def)

lemmas sample_saved0 = local_dag.SetRoot_saved [OF sample_SetRoot1 [unfolded sample_dag_def], folded sample_dag_def]

lemma sample_key0_hash: "\<exists>js. ToJson sample_root = Ok js \<and> sample_key0 = hexHash sample_env js"
  using sample_saved0 by (auto simp: saved_def)

lemma sample_key0_text [simp]: "utf8_valid sample_key0" "sample_key0 \<noteq> ''''" "CHR ''/'' \<notin> set sample_key0"
proof -
  obtain js where js: "sample_key0 = hexHash sample_env js" using sample_key0_hash by blast
  show "utf8_valid sample_key0" "sample_key0 \<noteq> ''''" "CHR ''/'' \<notin> set sample_key0"
    unfolding js using hexHash_neq_Nil [OF sample_sizes, of js] by simp_all
qed

definition sample_child :: Node where
  "sample_child = signed_node 2 sample_key0 ''main'' [''d'']"

lemma sample_child_ok: "node_ok sample_child"
  unfolding sample_child_def by (rule signed_node_ok) simp_all

lemma sample_world1_get: "k \<noteq> sample_key0 \<Longrightarrow> dt_Get sample_dag k sample_world1 = Err DatastoreErrNotFound"
  using sample_saved0 sample_world_empty by (simp add: saved_def)

text \<open>A node with another first digit than the root's has another key.\<close>

lemma sample_no_clash:
  assumes "nSeq node = 2 \<or> nSeq node = 3"
  shows "no_clash sample_dag (hexHash sample_env) node sample_world1"
proof -
  obtain js where js: "ToJson sample_root = Ok js" "sample_key0 = hexHash sample_env js"
    using sample_key0_hash by blast
  have "hexHash sample_env js' \<noteq> sample_key0" if "ToJson node = Ok js'" for js'
    using sample_hexHash_neq [OF that js(1)] assms js(2)
    by (auto simp: sample_root_def sample_digits)
  then show ?thesis using sample_world1_get by (auto simp: no_clash_def)
qed

lemma sample_root_at: "getNodeByKey sample_dag sample_key0 sample_world1 = Ok (Some sample_root)"
  using local_dag.saved_getNode [OF sample_saved0 [unfolded sample_dag_def] sample_root_ok]
  by (simp add: sample_dag_def)

lemma sample_last:
  "b = ''main'' \<or> b = ''c'' \<Longrightarrow> GetLast sample_dag sample_key0 b sample_world1 = Ok (Some sample_root, sample_key0)"
  using local_dag.SetRoot_root(2) [OF sample_SetRoot1 [unfolded sample_dag_def] sample_root_ok, of b]
  by (auto simp: sample_dag_def sample_root_def)

lemma sample_path: "getFullPath sample_dag sample_world1 sample_key0 = Some (Ok (getName sample_dag (Addr sample_address) [sample_key0], None))"
  by (subst getFullPath.simps) (simp add: sample_root_at, simp add: sample_root_def)

lemma sample_managed1: "managed sample_env sample_world1 (Addr sample_address)"
  using sample_managed managed_addresses write_addresses(1) [OF sample_SetRoot1 [unfolded sample_dag_def]] by blast

lemma sample_append:
  assumes "authentic sample_env node" and "next_in_branch sample_dag node sample_key0 sample_world1"
    and "nAddress node = Addr sample_address"
  obtains key w where "dag_Append sample_dag node sample_key0 sample_world1 = (Ok key, w)"
proof -
  obtain key w where "saveNode sample_dag node sample_key0 sample_world1 = (Ok key, w)"
    using saveNode_succeeds [of sample_env "''ns''" sample_key0 sample_world1 sample_root _ node]
      sample_root_at sample_path sample_managed1 assms(3)
    by (auto simp: sample_dag_def sample_root_def)
  with assms have "dag_Append sample_dag node sample_key0 sample_world1 = (Ok key, w)"
    by (simp add: dag_Append_Ok) (simp add: sample_dag_def)
  then show ?thesis by (rule that)
qed

lemma sample_child_next: "next_in_branch sample_dag sample_child sample_key0 sample_world1"
  using sample_root_at sample_last [of "''main''"]
  unfolding next_in_branch_def
  by (intro exI [of _ sample_root]) (simp add: sample_child_def sample_root_def)

lemma sample_child_authentic: "authentic sample_env sample_child"
  unfolding sample_child_def by (rule signed_node_authentic) simp_all

end
