(* ===== verification/DagProps.thy ===== *)
theory DagProps
  imports DagSample
begin

text \<open>
  The states a \<open>Dag\<close> over the store and the resolver in memory can reach, their invariant, and
  the properties of the package \<^verbatim>\<open>dag\<close>.
\<close>

section \<open>Reachable states\<close>

text \<open>The steps are the exported operations that write, with any argument and any outcome.\<close>

inductive dag_step :: "crypto_env \<Rightarrow> string \<Rightarrow> local_world \<Rightarrow> local_world \<Rightarrow> bool" for E ns where
  step_SetRoot: "SetRoot (NewDag E ns) node w = (r, w') \<Longrightarrow> dag_step E ns w w'"
| step_Append: "dag_Append (NewDag E ns) node rk w = (r, w') \<Longrightarrow> dag_step E ns w w'"
| step_Manage: "dag_Manage (NewDag E ns) a w = (u, w') \<Longrightarrow> dag_step E ns w w'"

inductive_cases dag_stepE: "dag_step E ns w w'"

abbreviation dag_steps :: "crypto_env \<Rightarrow> string \<Rightarrow> local_world \<Rightarrow> local_world \<Rightarrow> bool" where
  "dag_steps E ns \<equiv> (dag_step E ns)\<^sup>*\<^sup>*"

definition reachable :: "crypto_env \<Rightarrow> string \<Rightarrow> local_world \<Rightarrow> bool" where
  "reachable E ns w \<longleftrightarrow> dag_steps E ns new_world w"

text \<open>
  Where a stored node comes from: it was verified against a stored previous node, or it was set
  as a root, which must declare its own branch.
\<close>

definition stored :: "local_world \<Rightarrow> string \<Rightarrow> bool" where
  "stored w k \<longleftrightarrow> pairs (ds w) k \<noteq> None"

definition provenance :: "crypto_env \<Rightarrow> local_world \<Rightarrow> Node \<Rightarrow> bool" where
  "provenance E w n \<longleftrightarrow> authentic E n \<and> stored w (nPrevious n)
     \<or> nBranch n \<noteq> '''' \<and> nBranch n \<in> set (nBranches n)"

definition store_inv :: "crypto_env \<Rightarrow> local_world \<Rightarrow> bool" where
  "store_inv E w \<longleftrightarrow>
     (\<forall>k b. pairs (ds w) k = Some b \<longrightarrow> k = hexHash E b \<and> (\<exists>n. ToJson n = Ok b \<and> provenance E w n))
     \<and> (\<forall>n k. local_Resolve E n (rs w) = Ok k \<longrightarrow> stored w k)"

lemma store_inv_new: "store_inv E new_world"
  by (auto simp: store_inv_def new_world_def NewLocalFileStore_def NewLocalResolver_def local_Resolve_def
      split: result.splits)

lemma local_Get_eq_iff: "local_Get k d' = local_Get k d \<longleftrightarrow> pairs d' k = pairs d k"
  by (auto simp: local_Get_def split: option.splits)

lemma bounded_local:
  assumes "bounded_write (NewDag E ns) (hexHash E) node w w'" and "ToJson node = Ok js"
  shows "pairs (ds w') k = pairs (ds w) k \<or> k = hexHash E js \<and> pairs (ds w') k = Some js"
    and "local_Resolve E n (rs w') = local_Resolve E n (rs w)
      \<or> local_Resolve E n (rs w') = Ok (hexHash E js) \<and> pairs (ds w') (hexHash E js) = Some js"
  using assms by (auto simp: bounded_write_def local_Get_eq_iff local_Get_Ok)

lemma bounded_stored:
  assumes "bounded_write (NewDag E ns) (hexHash E) node w w'" and "stored w k"
  shows "stored w' k"
  using assms bounded_local(1) [OF assms(1), of _ k] ToJson_total [of node]
  by (auto simp: stored_def)

lemma write_inv:
  assumes inv: "store_inv E w" and bw: "bounded_write (NewDag E ns) (hexHash E) node w w'"
    and prov: "provenance E w node"
  shows "store_inv E w'"
proof -
  obtain js where js: "ToJson node = Ok js" using ToJson_total by blast
  have mono: "provenance E w n \<Longrightarrow> provenance E w' n" for n
    using bounded_stored [OF bw] by (auto simp: provenance_def)
  have "k = hexHash E b \<and> (\<exists>n. ToJson n = Ok b \<and> provenance E w' n)" if "pairs (ds w') k = Some b" for k b
    using bounded_local(1) [OF bw js, of k]
  proof
    assume "pairs (ds w') k = pairs (ds w) k"
    with that inv have "k = hexHash E b \<and> (\<exists>n. ToJson n = Ok b \<and> provenance E w n)"
      unfolding store_inv_def by simp
    with mono show ?thesis by blast
  next
    assume "k = hexHash E js \<and> pairs (ds w') k = Some js"
    with that js mono [OF prov] show ?thesis by auto
  qed
  moreover have "stored w' k" if "local_Resolve E n (rs w') = Ok k" for n k
    using bounded_local(2) [OF bw js, of n] that inv bounded_stored [OF bw]
    by (auto simp: store_inv_def stored_def)
  ultimately show ?thesis unfolding store_inv_def by blast
qed

lemma SetRoot_cases:
  "SetRoot da node w = (r, w') \<Longrightarrow> w' = w \<or> nBranch node \<noteq> '''' \<and> nBranch node \<in> set (nBranches node)"
  by (auto simp: SetRoot_def fail_io_def split: if_splits)

lemma dag_Append_cases:
  "dag_Append da node rk w = (r, w') \<Longrightarrow>
     (w' = w \<and> \<not> is_ok r) \<or> authentic (dag_env da) node \<and> next_in_branch da node rk w"
  using VerifyNode_new_iff [of da node rk w]
  by (cases "VerifyNode da node rk True w") (auto simp: dag_Append_def)

lemma next_previous: "next_in_branch (NewDag E ns) node rk w \<Longrightarrow> stored w (nPrevious node)"
  by (auto simp: next_in_branch_def stored_def local_Get_Ok dest!: GetLast_node getNodeByKey_OkD)

lemma step_inv: "dag_step E ns w w' \<Longrightarrow> store_inv E w \<Longrightarrow> store_inv E w'"
proof (induction rule: dag_step.induct)
  case (step_SetRoot node w r w')
  show ?case
  proof (cases "w' = w")
    case False
    then have "provenance E w node"
      using SetRoot_cases [OF step_SetRoot(1)] by (auto simp: provenance_def)
    from write_inv [OF step_SetRoot(2) local_dag.SetRoot_bounded [OF step_SetRoot(1)] this] show ?thesis .
  qed (use step_SetRoot in simp)
next
  case (step_Append node rk w r w')
  show ?case
  proof (cases "w' = w")
    case False
    then have "provenance E w node"
      using dag_Append_cases [OF step_Append(1)] next_previous by (auto simp: provenance_def)
    from write_inv [OF step_Append(2) local_dag.dag_Append_bounded [OF step_Append(1)] this] show ?thesis .
  qed (use step_Append in simp)
next
  case (step_Manage a w u w')
  then have "ds w' = ds w" "\<And>n. local_Resolve E n (rs w') = local_Resolve E n (rs w)"
    using local_dag.managing.resolve_manage [of E ns a w u w'] by (auto simp: dag_Manage_def on_rs_eq)
  with step_Manage(2) show ?case by (simp add: store_inv_def provenance_def stored_def)
qed

lemma reachable_inv: "reachable E ns w \<Longrightarrow> store_inv E w"
  unfolding reachable_def by (induction rule: rtranclp_induct) (auto intro: store_inv_new step_inv)

text \<open>A stored value is there for good, or a later value has the same hash.\<close>

definition kept_value :: "crypto_env \<Rightarrow> bytes \<Rightarrow> bytes option \<Rightarrow> bool" where
  "kept_value E b v \<longleftrightarrow> v = Some b \<or> (\<exists>b'. v = Some b' \<and> b' \<noteq> b \<and> sha256 E b' = sha256 E b)"

lemma steps_inv: "dag_steps E ns w w' \<Longrightarrow> store_inv E w \<Longrightarrow> store_inv E w'"
  by (induction rule: rtranclp_induct) (auto intro: step_inv)

lemma step_stored: "dag_step E ns w w' \<Longrightarrow> stored w k \<Longrightarrow> stored w' k"
proof (induction rule: dag_step.induct)
  case (step_Manage a w u w')
  then show ?case by (auto simp: dag_Manage_def on_rs_eq stored_def)
qed (auto intro: bounded_stored dest: local_dag.SetRoot_bounded local_dag.dag_Append_bounded)

lemma steps_stored: "dag_steps E ns w w' \<Longrightarrow> stored w k \<Longrightarrow> stored w' k"
  by (induction rule: rtranclp_induct) (auto intro: step_stored)

lemma steps_kept:
  assumes "store_inv E w" and "dag_steps E ns w w'" and "pairs (ds w) k = Some b"
  shows "kept_value E b (pairs (ds w') k)"
proof -
  have "stored w k" using assms(3) by (simp add: stored_def)
  then obtain b' where b': "pairs (ds w') k = Some b'"
    using steps_stored [OF assms(2)] by (auto simp: stored_def)
  then have "hexHash E b' = hexHash E b"
    using assms(1,3) steps_inv [OF assms(2,1)] unfolding store_inv_def by metis
  then show ?thesis using b' by (auto simp: kept_value_def hexHash_def)
qed

section \<open>Heads are stored\<close>

text \<open>In a reachable state the head of a branch never dangles.\<close>

lemma inv_head_stored:
  assumes "store_inv E w" and "GetLast (NewDag E ns) rk b w = Ok (Some h, k)"
  shows "\<exists>br. getNodeByKey (NewDag E ns) rk w = Ok (Some br)
    \<and> rs_Resolve (NewDag E ns) (getLastNodeName (NewDag E ns) br rk b) w = Ok k
    \<and> getNodeByKey (NewDag E ns) k w = Ok (Some h)"
proof -
  obtain br key where br: "getNodeByKey (NewDag E ns) rk w = Ok (Some br)"
    and key: "local_Resolve E (getLastNodeName (NewDag E ns) br rk b) (rs w) = Ok key"
    and head: "getNodeByKey (NewDag E ns) key w = Ok (Some h) \<and> k = key
           \<or> getNodeByKey (NewDag E ns) key w = Err ErrNodeNotFound \<and> Some h = Some br \<and> k = rk"
    using assms(2) by (auto simp: GetLast_iff)
  have "stored w key" using assms(1) key unfolding store_inv_def by blast
  then obtain v where v: "pairs (ds w) key = Some v" by (auto simp: stored_def)
  have "getNodeByKey (NewDag E ns) key w = decode_node v"
    by (rule getNodeByKey_stored) (simp add: v local_Get_def)
  then have "getNodeByKey (NewDag E ns) key w \<noteq> Err ErrNodeNotFound"
    using FromJson_Err [of NewNode v] by (cases "FromJson NewNode v") (auto simp: decode_node_def)
  with br key head show ?thesis by auto
qed

lemma inv_key_slash: "store_inv E w \<Longrightarrow> getNodeByKey (NewDag E ns) k w = Ok n \<Longrightarrow> CHR ''/'' \<notin> set k"
proof -
  assume inv: "store_inv E w" and "getNodeByKey (NewDag E ns) k w = Ok n"
  then obtain b where "pairs (ds w) k = Some b"
    by (auto simp: local_Get_Ok dest!: getNodeByKey_OkD)
  then have "k = hexHash E b" using inv unfolding store_inv_def by blast
  then show ?thesis by simp
qed

section \<open>Properties\<close>

text \<open>
  C7: what \<open>VerifyNode\<close> accepts.  A new node is accepted exactly when it is authentic (valid
  address of its public key, valid signature, readable time, a sequence number and a
  branch) and next in its branch (the branch is declared at the root, the node points to the
  branch's last node, counts on from it, and starts from 1 where a branch begins); a node
  that is not new, exactly when it is authentic and its previous node is stored.
\<close>

theorem verify_node_iff:
  "(VerifyNode da node rk True w = Ok () \<longleftrightarrow> authentic (dag_env da) node \<and> next_in_branch da node rk w)
   \<and> (VerifyNode da node rk False w = Ok () \<longleftrightarrow>
        authentic (dag_env da) node \<and> (\<exists>p. getNodeByKey da (nPrevious node) w = Ok (Some p)))"
  using VerifyNode_new_iff [of da node rk w "()"] VerifyNode_old_iff [of da node rk w "()"] by (rule conjI)

text \<open>
  C6: only verified nodes are written.  \<open>Append\<close> writes a node when it is authentic and next in
  its branch; otherwise it fails and the store and the names are exactly as before.
\<close>

theorem append_guarded:
  "if authentic (dag_env da) node \<and> next_in_branch da node rk w
   then dag_Append da node rk w = saveNode da node rk w
   else \<not> is_ok (fst (dag_Append da node rk w)) \<and> snd (dag_Append da node rk w) = w"
  using VerifyNode_new_iff [of da node rk w "()"]
  by (cases "VerifyNode da node rk True w") (auto simp: dag_Append_def)

text \<open>
  C5: an appended node becomes the head.  After \<open>Append\<close> has returned a key, the node is
  found under the key, it is the last node of the branch it was appended to, and it is the last
  node of every branch it opens.
\<close>

theorem append_becomes_head:
  assumes "dag_Append (NewDag E ns) node rk w = (Ok key, w')" and "node_ok node"
    and "no_clash (NewDag E ns) (hexHash E) node w"
  shows "dag_Get (NewDag E ns) key w' = Ok (Some node)
    \<and> GetLast (NewDag E ns) rk (nBranch node) w' = Ok (Some node, key)
    \<and> (\<forall>b \<in> set (nBranches node). b \<noteq> '''' \<longrightarrow> GetLast (NewDag E ns) key b w' = Ok (Some node, key))"
  using local_dag.append_head [OF assms] by (simp add: dag_Get_def)

theorem append_becomes_head_witness:
  "\<exists>key w'. dag_Append sample_dag sample_child sample_key0 sample_world1 = (Ok key, w')
     \<and> GetLast sample_dag sample_key0 ''main'' w' = Ok (Some sample_child, key)"
proof -
  obtain key w' where app: "dag_Append sample_dag sample_child sample_key0 sample_world1 = (Ok key, w')"
    by (rule sample_append [OF sample_child_authentic sample_child_next]) (simp_all add: sample_child_def)
  have "no_clash sample_dag (hexHash sample_env) sample_child sample_world1"
    by (rule sample_no_clash) (simp add: sample_child_def)
  then have "GetLast sample_dag sample_key0 (nBranch sample_child) w' = Ok (Some sample_child, key)"
    using append_becomes_head [of sample_env "''ns''", OF _ sample_child_ok] app
    by (simp add: sample_dag_def)
  with app show ?thesis by (auto simp: sample_child_def)
qed

text \<open>
  An append leaves every other branch alone.  In a reachable state, the last node of every other
  branch (of any root of any address without a slash) is the same node under the same key as
  before the append.
\<close>

theorem append_keeps_other_heads:
  assumes "reachable E ns w" and "dag_Append (NewDag E ns) node rk w = (Ok key, w')"
    and "no_clash (NewDag E ns) (hexHash E) node w"
    and "GetLast (NewDag E ns) rk2 b2 w = Ok (Some h, hk)"
    and "rk2 \<noteq> rk \<or> b2 \<noteq> nBranch node" and "rk2 \<noteq> key"
    and "\<And>k r. k \<in> {rk, rk2} \<Longrightarrow> dag_Get (NewDag E ns) k w = Ok (Some r) \<Longrightarrow> CHR ''/'' \<notin> set (nAddress r)"
  shows "GetLast (NewDag E ns) rk2 b2 w' = Ok (Some h, hk)"
proof -
  let ?da = "NewDag E ns"
  note inv = reachable_inv [OF assms(1)]
  obtain br where br: "getNodeByKey ?da rk w = Ok (Some br)"
    and sv: "saved ?da (hexHash E) node (insert (getLastNodeName ?da br rk (nBranch node)) (branch_names ?da node key)) w key w'"
    using local_dag.append_saved [OF assms(2)] by blast
  obtain br2 where br2: "getNodeByKey ?da rk2 w = Ok (Some br2)"
      "rs_Resolve ?da (getLastNodeName ?da br2 rk2 b2) w = Ok hk" "getNodeByKey ?da hk w = Ok (Some h)"
    using inv_head_stored [OF inv assms(4)] by blast
  have slash: "CHR ''/'' \<notin> set rk" "CHR ''/'' \<notin> set rk2" "CHR ''/'' \<notin> set key"
      "CHR ''/'' \<notin> set (nAddress br)" "CHR ''/'' \<notin> set (nAddress br2)" "CHR ''/'' \<notin> set (nAddress node)"
    using inv_key_slash [OF inv] br br2(1) local_dag.saved_key [OF sv] assms(2)
      assms(7) [of rk br] assms(7) [of rk2 br2]
    by (auto simp: dag_Get_def dag_Append_Ok dest: authentic_slash)
  have "getLastNodeName ?da br2 rk2 b2 \<noteq> getLastNodeName ?da br rk (nBranch node)"
      "getLastNodeName ?da br2 rk2 b2 \<notin> branch_names ?da node key"
    using getLastNodeName_inj [OF slash(5,4,2,1), of ?da b2 "nBranch node"]
      getLastNodeName_inj [OF slash(5,6,2,3), of ?da b2] assms(5,6)
    by (auto simp: branch_names_def)
  then show ?thesis
    using local_dag.saved_GetLast_other [OF sv assms(3) br2(1) _ br2(2,3)] assms(4) by simp
qed

lemma sample_reachable: "reachable sample_env ''ns'' sample_world1"
proof -
  have "dag_step sample_env ''ns'' new_world sample_world"
    by (rule step_Manage [of _ _ sample_address _ "fst (dag_Manage sample_dag sample_address new_world)"])
      (simp add: sample_world_def sample_dag_def)
  moreover have "dag_step sample_env ''ns'' sample_world sample_world1"
    using sample_SetRoot1 by (auto simp: sample_dag_def intro: step_SetRoot)
  ultimately show ?thesis by (auto simp: reachable_def)
qed

lemma sample_child_key:
  assumes "dag_Append sample_dag sample_child sample_key0 sample_world1 = (Ok key, w')"
  shows "key \<noteq> sample_key0"
proof
  assume "key = sample_key0"
  then obtain js where js: "ToJson sample_child = Ok js" "sample_key0 = hexHash sample_env js"
    using local_dag.append_saved [OF assms [unfolded sample_dag_def]] by (auto simp: saved_def)
  moreover obtain js0 where "ToJson sample_root = Ok js0" "sample_key0 = hexHash sample_env js0"
    using sample_key0_hash by blast
  ultimately show False
    using sample_hexHash_neq [of sample_child js sample_root js0]
    by (simp add: sample_child_def sample_root_def sample_digits)
qed

lemma sample_child_append:
  obtains key w' where "dag_Append sample_dag sample_child sample_key0 sample_world1 = (Ok key, w')"
  by (rule sample_append [OF sample_child_authentic sample_child_next]) (simp_all add: sample_child_def)

lemma sample_child_clash: "no_clash sample_dag (hexHash sample_env) sample_child sample_world1"
  by (rule sample_no_clash) (simp add: sample_child_def)

theorem append_keeps_other_heads_witness:
  "\<exists>key w'. dag_Append sample_dag sample_child sample_key0 sample_world1 = (Ok key, w')
     \<and> GetLast sample_dag sample_key0 ''c'' w' = Ok (Some sample_root, sample_key0)"
proof -
  obtain key w' where app: "dag_Append sample_dag sample_child sample_key0 sample_world1 = (Ok key, w')"
    by (rule sample_child_append)
  note clash = sample_child_clash
  have key: "sample_key0 \<noteq> key" using sample_child_key [OF app] by simp
  have "GetLast sample_dag sample_key0 ''c'' w' = Ok (Some sample_root, sample_key0)"
    unfolding sample_dag_def
  proof (rule append_keeps_other_heads [OF sample_reachable app [unfolded sample_dag_def] clash [unfolded sample_dag_def]])
    show "GetLast (NewDag sample_env ''ns'') sample_key0 ''c'' sample_world1 = Ok (Some sample_root, sample_key0)"
      using sample_last [of "''c''"] by (simp add: sample_dag_def)
    show "CHR ''/'' \<notin> set (nAddress r)"
      if "k \<in> {sample_key0, sample_key0}" "dag_Get (NewDag sample_env ''ns'') k sample_world1 = Ok (Some r)" for k r
      using that sample_root_at owner_address(2) [OF sample_sizes sample_address]
      by (simp add: dag_Get_def sample_dag_def sample_root_def)
  qed (use key in \<open>simp_all add: sample_child_def\<close>)
  with app show ?thesis by blast
qed

text \<open>
  C25: branches do not fork.  Once a node has been appended, no other node with the same
  previous node can be appended to that branch: it is refused because the previous node is no
  longer the last one, and nothing changes.
\<close>

theorem append_no_fork:
  assumes "dag_Append (NewDag E ns) node rk w = (Ok key, w')" and "node_ok node"
    and "no_clash (NewDag E ns) (hexHash E) node w" and "key \<noteq> nPrevious node"
    and "authentic E node'" and "nBranch node' = nBranch node" and "nPrevious node' = nPrevious node"
  shows "dag_Append (NewDag E ns) node' rk w' = (Err ErrPreviousNodeIsNotHead, w')"
proof -
  let ?da = "NewDag E ns"
  obtain br where br: "getNodeByKey ?da rk w = Ok (Some br)"
    and sv: "saved ?da (hexHash E) node (insert (getLastNodeName ?da br rk (nBranch node)) (branch_names ?da node key)) w key w'"
    using local_dag.append_saved [OF assms(1)] by blast
  note keeps = local_dag.saved_getNode_keeps [OF sv assms(3)]
  have "next_in_branch ?da node rk w" using assms(1) by (simp add: dag_Append_Ok)
  then obtain prev where prev: "getNodeByKey ?da (nPrevious node) w = Ok (Some prev)"
    and branch: "nBranch node \<in> set (nBranches br)"
    using br by (auto simp: next_in_branch_def dest: GetLast_node)
  have "verify_new ?da node' prev rk w' = Err ErrPreviousNodeIsNotHead"
    using keeps [OF br] branch local_dag.append_head(2) [OF assms(1-3)] assms(4,6,7)
    by (simp add: verify_new_def)
  then have "VerifyNode ?da node' rk True w' = Err ErrPreviousNodeIsNotHead"
    using keeps [OF prev] assms(5,7) verifyAddress_True [of E node' None] verify_self_Ok [of E node' "()"]
    by (simp add: VerifyNode_def authentic_def)
  then show ?thesis by (simp add: dag_Append_def translateError_def)
qed

theorem append_no_fork_witness:
  "\<exists>key w'. dag_Append sample_dag sample_child sample_key0 sample_world1 = (Ok key, w')
     \<and> dag_Append sample_dag (signed_node 2 sample_key0 ''main'' []) sample_key0 w'
       = (Err ErrPreviousNodeIsNotHead, w')"
proof -
  obtain key w' where app: "dag_Append sample_dag sample_child sample_key0 sample_world1 = (Ok key, w')"
    by (rule sample_child_append)
  have "dag_Append (NewDag sample_env ''ns'') (signed_node 2 sample_key0 ''main'' []) sample_key0 w'
      = (Err ErrPreviousNodeIsNotHead, w')"
    by (rule append_no_fork [OF app [unfolded sample_dag_def] sample_child_ok
          sample_child_clash [unfolded sample_dag_def] _ signed_node_authentic])
      (use sample_child_key [OF app] in \<open>simp_all add: sample_child_def\<close>)
  with app show ?thesis by (auto simp: sample_dag_def)
qed

text \<open>
  C30: a root is set once.  After \<open>SetRoot\<close> has returned a key, the root of the address is that
  node under that key, it is the last node of each of its branches, and setting a root for the
  address again fails with \<open>ErrDagAlreadyInitialized\<close> and changes nothing.
\<close>

theorem set_root_once:
  assumes "SetRoot (NewDag E ns) node w = (Ok key, w')" and "node_ok node"
    and "nAddress node' = nAddress node" and "nBranch node' \<noteq> ''''" and "nBranch node' \<in> set (nBranches node')"
  shows "GetRoot (NewDag E ns) (nAddress node) w' = Ok (Some node, key)
    \<and> (\<forall>b \<in> set (nBranches node). b \<noteq> '''' \<longrightarrow> GetLast (NewDag E ns) key b w' = Ok (Some node, key))
    \<and> SetRoot (NewDag E ns) node' w' = (Err ErrDagAlreadyInitialized, w')"
  using local_dag.SetRoot_root [OF assms(1,2)] assms(3-5)
    local_dag.SetRoot_again [of E ns node' w' node key] by simp

theorem set_root_once_witness:
  "GetRoot sample_dag (Addr sample_address) sample_world1 = Ok (Some sample_root, sample_key0)
   \<and> SetRoot sample_dag sample_root sample_world1 = (Err ErrDagAlreadyInitialized, sample_world1)"
  using set_root_once [OF sample_SetRoot1 [unfolded sample_dag_def] sample_root_ok, of sample_root]
  by (simp add: sample_dag_def) (simp add: sample_root_def)

text \<open>
  C26: stored nodes are immutable.  From a reachable state on, whatever operations follow, with
  whatever outcomes, the value under a key stays, or else the value now under the key is
  different and has the same SHA-256 digest.
\<close>

theorem stored_immutable:
  assumes "reachable E ns w" and "dag_steps E ns w w'" and "pairs (ds w) k = Some b"
  shows "kept_value E b (pairs (ds w') k)"
  by (rule steps_kept [OF reachable_inv [OF assms(1)] assms(2,3)])

theorem stored_immutable_witness:
  "\<exists>b key w'. pairs (ds sample_world1) sample_key0 = Some b
     \<and> dag_Append sample_dag sample_child sample_key0 sample_world1 = (Ok key, w')
     \<and> kept_value sample_env b (pairs (ds w') sample_key0)"
proof -
  obtain key w' where app: "dag_Append sample_dag sample_child sample_key0 sample_world1 = (Ok key, w')"
    by (rule sample_child_append)
  then have "dag_steps sample_env ''ns'' sample_world1 w'"
    by (auto simp: sample_dag_def intro: step_Append)
  moreover obtain b where "pairs (ds sample_world1) sample_key0 = Some b"
    using sample_root_at by (auto simp: sample_dag_def local_Get_Ok dest!: getNodeByKey_OkD)
  ultimately show ?thesis using stored_immutable [OF sample_reachable] app by blast
qed

text \<open>
  C27: everything stored is accounted for.  In every reachable state each stored value is under the
  hexadecimal digest of its bytes, is the JSON of a node, and that node was either verified (so
  it carries the address of its key and a valid signature, and its previous node is stored), or
  set as a root, in which case it declares its own branch; and every name that resolves leads to
  a stored value.
\<close>

theorem reachable_accounted:
  assumes "reachable E ns w"
  shows "(\<forall>k b. pairs (ds w) k = Some b \<longrightarrow>
      k = HexEncode (sha256 E b)
      \<and> (\<exists>n. ToJson n = Ok b
           \<and> (authentic E n \<and> pairs (ds w) (nPrevious n) \<noteq> None
              \<or> nBranch n \<noteq> '''' \<and> nBranch n \<in> set (nBranches n))))
    \<and> (\<forall>n k. local_Resolve E n (rs w) = Ok k \<longrightarrow> pairs (ds w) k \<noteq> None)"
  using reachable_inv [OF assms] unfolding store_inv_def provenance_def stored_def hexHash_def .

theorem reachable_accounted_witness:
  "\<exists>b n. pairs (ds sample_world1) sample_key0 = Some b \<and> sample_key0 = HexEncode (sha256 sample_env b)
     \<and> ToJson n = Ok b"
proof -
  obtain b where "pairs (ds sample_world1) sample_key0 = Some b"
    using sample_root_at by (auto simp: sample_dag_def local_Get_Ok dest!: getNodeByKey_OkD)
  with reachable_accounted [OF sample_reachable] show ?thesis by blast
qed

text \<open>
  The reading loop returns the whole value.  Reading through the buffer of 512 bytes ends for every
  reader, with all its bytes when the reader ends properly and with its error otherwise.
\<close>

theorem read_loop_whole:
  "read_loop (Reader bs er) [] = (case er of None \<Rightarrow> Ok bs | Some e \<Rightarrow> Err e)"
  by (simp add: read_loop_eq split: option.split)

text \<open>
  The branch root of a node is never checked.  \<open>VerifyNode\<close> gives the same outcome whatever
  \<open>BranchRoot\<close> the node carries, although the full path of the stored node follows that field.
\<close>

theorem branch_root_unchecked:
  "VerifyNode da (node\<lparr>nBranchRoot := r\<rparr>) rk new w = VerifyNode da node rk new w"
proof -
  have "node_VerifySignature E (node\<lparr>nBranchRoot := r\<rparr>) = node_VerifySignature E node" for E
    by (rule node_VerifySignature_cong) simp_all
  then show ?thesis
    by (simp add: VerifyNode_def verifyAddress_def verify_self_def verifyTimeStamp_def verify_new_def
        cong: if_cong option.case_cong result.case_cong)
qed

text \<open>
  Names do not collide.  For addresses and keys without slashes, the names of two branch heads are
  equal only for the same address, root key and branch, whatever the branches are, and the name
  of a root is never the name of a head.
\<close>

theorem names_injective:
  assumes "CHR ''/'' \<notin> set (nAddress n)" and "CHR ''/'' \<notin> set (nAddress n')"
    and "CHR ''/'' \<notin> set k" and "CHR ''/'' \<notin> set k'"
  shows "(getLastNodeName da n k b = getLastNodeName da n' k' b' \<longleftrightarrow>
      nAddress n = nAddress n' \<and> k = k' \<and> b = b')
    \<and> (getRootNodeName da (nAddress n) = getRootNodeName da (nAddress n') \<longleftrightarrow> nAddress n = nAddress n')
    \<and> getRootNodeName da (nAddress n) \<noteq> getLastNodeName da n' k' b'"
  by (intro conjI getLastNodeName_inj getRootNodeName_inj getRootNodeName_neq_last assms)

theorem names_injective_witness:
  "getLastNodeName sample_dag sample_root ''k'' ''a/b'' \<noteq> getLastNodeName sample_dag sample_root ''k'' ''a''"
  using names_injective [of sample_root sample_root "''k''" "''k''" sample_dag "''a/b''" "''a''"]
    owner_address(2) [OF sample_sizes sample_address]
  by (simp add: sample_root_def)

end
