(* ===== verification/DagSpec.thy ===== *)
theory DagSpec
  imports DagProps
begin

text \<open>
  An abstract specification of the graph, without bytes, names and hashes, that the operations of
  \<open>Dag\<close> refine; and what a failed append can leave behind.
\<close>

section \<open>The abstract graph\<close>

text \<open>
  Nodes by key; the key of the head by address, root key and branch; the key of the root by
  address.
\<close>

record adag =
  anodes :: "string \<rightharpoonup> Node"
  aheads :: "string \<times> string \<times> string \<Rightarrow> string option"
  aroots :: "string \<rightharpoonup> string"

definition spec_append :: "string \<Rightarrow> Node \<Rightarrow> string \<Rightarrow> adag \<Rightarrow> adag" where
  "spec_append key node rk s =
     (case anodes s rk of
        None \<Rightarrow> s
      | Some br \<Rightarrow> s\<lparr>anodes := (anodes s)(key \<mapsto> node),
          aheads := (\<lambda>(a, k, b).
            if (a, k, b) = (nAddress br, rk, nBranch node) then Some key
            else if a = nAddress node \<and> k = key \<and> b \<in> set (nBranches node) then Some key
            else aheads s (a, k, b))\<rparr>)"

lemma spec_append_sel:
  assumes "anodes s rk = Some br"
  shows "anodes (spec_append key node rk s) = (anodes s)(key \<mapsto> node)"
    and "aroots (spec_append key node rk s) = aroots s"
  using assms by (simp_all add: spec_append_def)

definition spec_set_root :: "string \<Rightarrow> Node \<Rightarrow> adag \<Rightarrow> adag" where
  "spec_set_root key node s =
     s\<lparr>anodes := (anodes s)(key \<mapsto> node),
       aheads := (\<lambda>(a, k, b).
         if a = nAddress node \<and> k = key \<and> b \<in> set (nBranches node) then Some key
         else aheads s (a, k, b)),
       aroots := (aroots s)(nAddress node \<mapsto> key)\<rparr>"

definition ok_value :: "'a result \<Rightarrow> 'a option" where
  "ok_value r = (case r of Ok x \<Rightarrow> Some x | _ \<Rightarrow> None)"

text \<open>What a state of the store and the resolver stands for.\<close>

definition abs_dag :: "'w dag \<Rightarrow> 'w \<Rightarrow> adag" where
  "abs_dag da w = \<lparr>
     anodes = (\<lambda>k. case getNodeByKey da k w of Ok n \<Rightarrow> n | _ \<Rightarrow> None),
     aheads = (\<lambda>(a, k, b). if CHR ''/'' \<in> set a \<or> CHR ''/'' \<in> set k then None
        else ok_value (rs_Resolve da (getName da a [''shortcuts'', k, b, ''last'']) w)),
     aroots = (\<lambda>a. if CHR ''/'' \<in> set a then None else ok_value (rs_Resolve da (getRootNodeName da a) w))\<rparr>"

lemma ok_value_Ok [simp]: "ok_value (Ok x) = Some x"
  by (simp add: ok_value_def)

lemma ok_value_Some [simp]: "ok_value r = Some x \<longleftrightarrow> r = Ok x"
  by (cases r) (auto simp: ok_value_def)

lemma anodes_abs [simp]: "anodes (abs_dag da w) k = Some n \<longleftrightarrow> getNodeByKey da k w = Ok (Some n)"
  by (auto simp: abs_dag_def split: result.splits)

lemma head_name_eq:
  assumes "CHR ''/'' \<notin> set a" "CHR ''/'' \<notin> set (nAddress n)" "CHR ''/'' \<notin> set k" "CHR ''/'' \<notin> set k'"
  shows "getName da a [''shortcuts'', k, b, ''last''] = getLastNodeName da n k' b' \<longleftrightarrow>
    a = nAddress n \<and> k = k' \<and> b = b'"
  using getLastNodeName_inj [of "NewNode\<lparr>nAddress := a\<rparr>" n k k' da b b'] assms
  by (simp add: getLastNodeName_def)

lemma head_name_branches:
  assumes "CHR ''/'' \<notin> set a" "CHR ''/'' \<notin> set (nAddress n)" "CHR ''/'' \<notin> set k" "CHR ''/'' \<notin> set k'"
  shows "getName da a [''shortcuts'', k, b, ''last''] \<in> branch_names da n k' \<longleftrightarrow>
    a = nAddress n \<and> k = k' \<and> b \<in> set (nBranches n)"
  unfolding branch_names_def image_iff head_name_eq [OF assms] by blast

lemma head_name_neq_root:
  assumes "CHR ''/'' \<notin> set a" "CHR ''/'' \<notin> set a'"
  shows "getName da a [''shortcuts'', k, b, ''last''] \<noteq> getRootNodeName da a'"
  using getRootNodeName_neq_last [of a' "NewNode\<lparr>nAddress := a\<rparr>" da k b] assms
  by (simp add: getLastNodeName_def)

context dag_writer begin

lemma saved_anodes:
  assumes "saved da cid node ns w key w'" and "node_ok node"
  shows "anodes (abs_dag da w') = (anodes (abs_dag da w))(key \<mapsto> node)"
proof
  fix k
  show "anodes (abs_dag da w') k = ((anodes (abs_dag da w))(key \<mapsto> node)) k"
    using saved_getNode [OF assms] saved_getNode_other [OF assms(1), of k]
    by (cases "k = key") (simp_all add: abs_dag_def)
qed

lemma append_refines_spec:
  assumes app: "dag_Append da node rk w = (Ok key, w')" and ok: "node_ok node"
    and br: "getNodeByKey da rk w = Ok (Some br)"
    and slash: "CHR ''/'' \<notin> set (nAddress br)" "CHR ''/'' \<notin> set rk"
  shows "abs_dag da w' = spec_append key node rk (abs_dag da w)"
proof -
  have sv: "saved da cid node (insert (getLastNodeName da br rk (nBranch node)) (branch_names da node key)) w key w'"
    using append_saved [OF app] br by auto
  have s: "CHR ''/'' \<notin> set key" "CHR ''/'' \<notin> set (nAddress node)"
    using saved_key [OF sv] app by (auto simp: dag_Append_Ok dest: authentic_slash)
  have heads: "aheads (abs_dag da w') (a, k, b) = aheads (spec_append key node rk (abs_dag da w)) (a, k, b)" for a k b
  proof (cases "CHR ''/'' \<in> set a \<or> CHR ''/'' \<in> set k")
    case True
    then show ?thesis using br slash s by (auto simp: spec_append_def abs_dag_def)
  next
    case False
    then have "getName da a [''shortcuts'', k, b, ''last''] \<in>
        insert (getLastNodeName da br rk (nBranch node)) (branch_names da node key) \<longleftrightarrow>
        (a, k, b) = (nAddress br, rk, nBranch node) \<or> a = nAddress node \<and> k = key \<and> b \<in> set (nBranches node)"
      using False slash s by (simp add: head_name_eq head_name_branches)
    then show ?thesis
      using False br saved_resolve [OF sv, of "getName da a [''shortcuts'', k, b, ''last'']"]
      by (auto simp: spec_append_def abs_dag_def)
  qed
  have roots: "aroots (abs_dag da w') a = aroots (abs_dag da w) a" for a
    using getRootNodeName_neq_last [of a br da rk "nBranch node"] getRootNodeName_neq_last [of a node da key]
      slash s saved_resolve [OF sv, of "getRootNodeName da a"]
    by (auto simp: abs_dag_def branch_names_def)
  have "anodes (abs_dag da w) rk = Some br" using br by simp
  note sel = spec_append_sel [OF this, of key node]
  show ?thesis
  proof (rule adag.equality)
    show "anodes (abs_dag da w') = anodes (spec_append key node rk (abs_dag da w))"
      unfolding sel by (rule saved_anodes [OF sv ok])
    show "aheads (abs_dag da w') = aheads (spec_append key node rk (abs_dag da w))"
      using heads by (simp add: fun_eq_iff)
    show "aroots (abs_dag da w') = aroots (spec_append key node rk (abs_dag da w))"
      unfolding sel using roots by (simp add: fun_eq_iff)
  qed simp
qed

lemma set_root_refines_spec:
  assumes set: "SetRoot da node w = (Ok key, w')" and ok: "node_ok node"
    and slash: "CHR ''/'' \<notin> set (nAddress node)"
  shows "abs_dag da w' = spec_set_root key node (abs_dag da w)"
proof -
  note sv = SetRoot_saved [OF set]
  have s: "CHR ''/'' \<notin> set key" by (rule saved_key [OF sv])
  have branch: "nBranch node \<in> set (nBranches node)" using SetRoot_save [OF set] by simp
  have heads: "aheads (abs_dag da w') (a, k, b) = aheads (spec_set_root key node (abs_dag da w)) (a, k, b)" for a k b
  proof (cases "CHR ''/'' \<in> set a \<or> CHR ''/'' \<in> set k")
    case True
    then show ?thesis using slash s by (auto simp: spec_set_root_def abs_dag_def)
  next
    case False
    let ?n = "getName da a [''shortcuts'', k, b, ''last'']"
    have "?n \<in> insert (getRootNodeName da (nAddress node))
        (insert (getLastNodeName da node key (nBranch node)) (branch_names da node key)) \<longleftrightarrow>
        a = nAddress node \<and> k = key \<and> b \<in> set (nBranches node)"
      using False slash s branch by (auto simp: head_name_eq head_name_branches head_name_neq_root)
    then show ?thesis
      using False saved_resolve [OF sv, of ?n] by (auto simp: spec_set_root_def abs_dag_def)
  qed
  have roots: "aroots (abs_dag da w') a = ((aroots (abs_dag da w))(nAddress node \<mapsto> key)) a" for a
    using getRootNodeName_neq_last [of a node da key] getRootNodeName_inj [of a "nAddress node" da]
      slash saved_resolve [OF sv, of "getRootNodeName da a"]
    by (auto simp: abs_dag_def branch_names_def)
  show ?thesis
  proof (rule adag.equality)
    show "anodes (abs_dag da w') = anodes (spec_set_root key node (abs_dag da w))"
      using saved_anodes [OF sv ok] by (simp add: spec_set_root_def)
    show "aheads (abs_dag da w') = aheads (spec_set_root key node (abs_dag da w))"
      using heads by (simp add: fun_eq_iff)
    show "aroots (abs_dag da w') = aroots (spec_set_root key node (abs_dag da w))"
      using roots by (simp add: fun_eq_iff spec_set_root_def)
  qed simp
qed

end

section \<open>The full path\<close>

lemma inv_reads:
  assumes "store_inv E w"
  shows "getNodeByKey (NewDag E ns) k w \<noteq> Panic" and "getNodeByKey (NewDag E ns) k w \<noteq> Ok None"
proof -
  show "getNodeByKey (NewDag E ns) k w \<noteq> Panic"
  proof (cases "pairs (ds w) k")
    case None
    then show ?thesis by (simp add: getNodeByKey_def local_Get_def)
  next
    case (Some b)
    then have "getNodeByKey (NewDag E ns) k w = decode_node b"
      by (intro getNodeByKey_stored) (simp add: local_Get_def)
    then show ?thesis by (cases "FromJson NewNode b") (auto simp: decode_node_def)
  qed
  show "getNodeByKey (NewDag E ns) k w \<noteq> Ok None"
  proof
    assume "getNodeByKey (NewDag E ns) k w = Ok None"
    then obtain b where b: "pairs (ds w) k = Some b" "decode_node b = Ok None"
      by (auto simp: local_Get_Ok dest!: getNodeByKey_OkD)
    then have "b = []" by (auto simp: decode_node_def split: if_splits)
    moreover obtain n where "ToJson n = Ok b" using assms b(1) unfolding store_inv_def by blast
    ultimately show False using ToJson_nonempty by blast
  qed
qed

section \<open>Failed appends\<close>

lemma Add_unmanaged:
  assumes "CHR ''/'' \<notin> set a" and "IsValid E a = Ok (True, None)" and "addresses (rs w) a = None"
  shows "rs_Add (NewDag E ns) (getName (NewDag E ns) a parts) v w = (Err ErrUnmanagedAddress, w)"
proof -
  obtain rec where "getQueryNameRequestFromName E (getName (NewDag E ns) a parts) = Ok rec" "mAddress rec = a"
    using getQueryNameRequest_address [OF assms(1,2), of "ns @ ''/dag/'' @ Join parts ''/''"]
    by (auto simp: getName_def)
  then show ?thesis using assms(3) by (simp add: on_rs_def local_Add_def)
qed

lemma saveNode_half:
  assumes br: "getNodeByKey (NewDag E ns) rk w = Ok (Some br)" and fp: "getFullPath (NewDag E ns) w rk = Some (Ok fp)"
    and "managed E w (nAddress br)" and branches: "nBranches node \<noteq> []"
    and node: "CHR ''/'' \<notin> set (nAddress node)" "IsValid E (nAddress node) = Ok (True, None)"
      "addresses (rs w) (nAddress node) = None"
    and js: "ToJson node = Ok js"
  shows "\<exists>w'. saveNode (NewDag E ns) node rk w = (Err ErrUnmanagedAddress, w')
    \<and> saved (NewDag E ns) (hexHash E) node {getLastNodeName (NewDag E ns) br rk (nBranch node)} w (hexHash E js) w'"
proof -
  let ?da = "NewDag E ns" and ?key = "hexHash E js"
  let ?name = "getLastNodeName ?da br rk (nBranch node)"
  define pf where "pf = (\<lambda>cid. Join [fst fp, ''branches'', nBranch node, cid, ''node''] ''/'')"
  obtain p w1 where put: "dt_Put ?da js (Some pf) w = (Ok (?key, p), w1)" and w1: "rs w1 = rs w"
    using dt_Put_local by blast
  obtain w2 where w2: "w2 = w1\<lparr>rs := (rs w1)\<lparr>names := (names (rs w1))(?name \<mapsto> ?key)\<rparr>\<rparr>" by blast
  then have add: "rs_Add ?da ?name ?key w1 = (Ok (), w2)"
    using rs_Add_managed [of E w1 "nAddress br"] assms(3) managed_rs [OF w1]
    by (simp only: getLastNodeName_def)
  obtain b bs where bs: "nBranches node = b # bs" using branches by (cases "nBranches node") auto
  have "rs_Add ?da (getLastNodeName ?da node ?key b) ?key w2 = (Err ErrUnmanagedAddress, w2)"
    unfolding getLastNodeName_def using node w1 w2 by (intro Add_unmanaged) simp_all
  then have names: "addResolutionForNodeBranches ?da node ?key (nBranches node) w2 = (Err ErrUnmanagedAddress, w2)"
    unfolding bs by (simp add: bind_io_def del: NewDag_sel)
  have "saveNode ?da node rk w = (Err ErrUnmanagedAddress, w2)"
    using br fp js put add names unfolding saveNode_def pf_def
    by (cases fp) (simp add: io_defs translateError_def del: NewDag_sel)
  moreover have "saved ?da (hexHash E) node {?name} w ?key w2"
    using local_dag.put_get [OF put local_dag.get_add [OF add]] local_dag.resolve_put [OF put]
      local_dag.names.resolve_add_cases [OF add] js
    unfolding saved_def by simp
  ultimately show ?thesis by blast
qed

section \<open>Properties\<close>

text \<open>
  C8: \<open>Append\<close> refines the abstract graph.  A successful append adds the node under its key, makes
  it the head of its branch and of the branches it opens, and changes no other node, head or root
  of the abstract graph.
\<close>

theorem append_refines:
  assumes "dag_Append (NewDag E ns) node rk w = (Ok key, w')" and "node_ok node"
    and "getNodeByKey (NewDag E ns) rk w = Ok (Some br)"
    and "CHR ''/'' \<notin> set (nAddress br)" and "CHR ''/'' \<notin> set rk"
  shows "abs_dag (NewDag E ns) w' = spec_append key node rk (abs_dag (NewDag E ns) w)"
  by (rule local_dag.append_refines_spec [OF assms])

theorem append_refines_witness:
  "\<exists>key w'. dag_Append sample_dag sample_child sample_key0 sample_world1 = (Ok key, w')
     \<and> abs_dag sample_dag w' = spec_append key sample_child sample_key0 (abs_dag sample_dag sample_world1)"
proof -
  obtain key w' where app: "dag_Append sample_dag sample_child sample_key0 sample_world1 = (Ok key, w')"
    by (rule sample_child_append)
  have "abs_dag sample_dag w' = spec_append key sample_child sample_key0 (abs_dag sample_dag sample_world1)"
    unfolding sample_dag_def
    by (rule append_refines [OF app [unfolded sample_dag_def] sample_child_ok sample_root_at [unfolded sample_dag_def]])
      (use owner_address(2) [OF sample_sizes sample_address] in \<open>simp_all add: sample_root_def\<close>)
  with app show ?thesis by blast
qed

text \<open>
  \<open>SetRoot\<close> refines the abstract graph.  A successful \<open>SetRoot\<close> adds the node, makes it the root
  of its address and the head of its branches, and changes nothing else.
\<close>

theorem set_root_refines:
  assumes "SetRoot (NewDag E ns) node w = (Ok key, w')" and "node_ok node"
    and "CHR ''/'' \<notin> set (nAddress node)"
  shows "abs_dag (NewDag E ns) w' = spec_set_root key node (abs_dag (NewDag E ns) w)"
  by (rule local_dag.set_root_refines_spec [OF assms])

theorem set_root_refines_witness:
  "abs_dag sample_dag sample_world1 = spec_set_root sample_key0 sample_root (abs_dag sample_dag sample_world)"
  using set_root_refines [OF sample_SetRoot1 [unfolded sample_dag_def] sample_root_ok]
    owner_address(2) [OF sample_sizes sample_address]
  by (simp add: sample_dag_def) (simp add: sample_root_def)

text \<open>
  \<open>GetLast\<close> reads the abstract graph.  In a reachable state, for a stored branch root whose
  address has no slash, \<open>GetLast\<close> returns a node exactly when the abstract graph has it as the
  head of that branch.
\<close>

theorem get_last_refines:
  assumes "reachable E ns w" and "getNodeByKey (NewDag E ns) rk w = Ok (Some br)"
    and "CHR ''/'' \<notin> set (nAddress br)" and "b \<noteq> ''''"
  shows "GetLast (NewDag E ns) rk b w = Ok (Some h, k) \<longleftrightarrow>
    aheads (abs_dag (NewDag E ns) w) (nAddress br, rk, b) = Some k
    \<and> anodes (abs_dag (NewDag E ns) w) k = Some h"
proof -
  let ?da = "NewDag E ns"
  note inv = reachable_inv [OF assms(1)]
  have slash: "CHR ''/'' \<notin> set rk" by (rule inv_key_slash [OF inv assms(2)])
  have "aheads (abs_dag ?da w) (nAddress br, rk, b) = Some k \<longleftrightarrow>
      rs_Resolve ?da (getLastNodeName ?da br rk b) w = Ok k"
    using assms(3) slash by (simp add: abs_dag_def getLastNodeName_def)
  moreover have "GetLast ?da rk b w = Ok (Some h, k) \<longleftrightarrow>
      rs_Resolve ?da (getLastNodeName ?da br rk b) w = Ok k \<and> getNodeByKey ?da k w = Ok (Some h)"
    using inv_head_stored [OF inv, of ns rk b h k] assms(2,4) by (auto simp: GetLast_iff)
  ultimately show ?thesis by simp
qed

theorem get_last_refines_witness:
  "aheads (abs_dag sample_dag sample_world1) (Addr sample_address, sample_key0, ''c'') = Some sample_key0"
  using get_last_refines [OF sample_reachable sample_root_at [unfolded sample_dag_def], of "''c''" sample_root sample_key0]
    sample_last [of "''c''"] owner_address(2) [OF sample_sizes sample_address]
  by (simp add: sample_dag_def) (simp add: sample_root_def)

text \<open>
  C35: a failed append can leave the branch moved.  A node of another owner is accepted on a branch;
  if it opens branches and its address is not managed, \<open>Append\<close> stores it and makes it the head of
  the branch, and then fails with \<open>ErrUnmanagedAddress\<close>.
\<close>

theorem failed_append_moves_head:
  assumes "authentic E node" and "next_in_branch (NewDag E ns) node rk w" and "node_ok node"
    and "no_clash (NewDag E ns) (hexHash E) node w"
    and "getNodeByKey (NewDag E ns) rk w = Ok (Some br)" and "managed E w (nAddress br)"
    and "getFullPath (NewDag E ns) w rk = Some (Ok fp)"
    and "nBranches node \<noteq> []" and "addresses (rs w) (nAddress node) = None"
  shows "\<exists>w' key. dag_Append (NewDag E ns) node rk w = (Err ErrUnmanagedAddress, w')
    \<and> GetLast (NewDag E ns) rk (nBranch node) w' = Ok (Some node, key)"
proof -
  let ?da = "NewDag E ns"
  obtain js where js: "ToJson node = Ok js" using ToJson_total by blast
  have node: "CHR ''/'' \<notin> set (nAddress node)" "IsValid E (nAddress node) = Ok (True, None)" "nBranch node \<noteq> ''''"
    using assms(1) authentic_slash by (auto simp: authentic_def)
  obtain w' where save: "saveNode ?da node rk w = (Err ErrUnmanagedAddress, w')"
    and sv: "saved ?da (hexHash E) node {getLastNodeName ?da br rk (nBranch node)} w (hexHash E js) w'"
    using saveNode_half [OF assms(5,7,6,8) node(1,2) assms(9) js] by blast
  have "dag_Append ?da node rk w = (Err ErrUnmanagedAddress, w')"
    using VerifyNode_new_iff [of ?da node rk w "()"] assms(1,2) save by (simp add: dag_Append_def)
  moreover have "GetLast ?da rk (nBranch node) w' = Ok (Some node, hexHash E js)"
    by (rule local_dag.saved_GetLast [OF sv assms(3) node(3) local_dag.saved_getNode_keeps [OF sv assms(4,5)]]) simp
  ultimately show ?thesis by blast
qed

text \<open>The second owner of the run.\<close>

definition other_key :: ecdsa_key where
  "other_key = \<lparr>keyD = 6, keyX = 77 * 256 ^ 24, keyY = 1\<rparr>"

lemma other_fits: "key_fits other_key"
  by (simp add: key_fits_def other_key_def fits32_def)

lemma BigBytes_shift: "0 < n \<Longrightarrow> BigBytes (n * 256 ^ k) = BigBytes n @ replicate k 0"
  by (induction k) (simp_all add: BigBytes_def digits.simps [of 256 "n * (256 * 256 ^ _)"]
      replicate_append_same)

lemma owner_hashes:
  "ripemd160 sample_env (sha256 sample_env (pair_bytes (keyX sample_key) (keyY sample_key)))
   \<noteq> ripemd160 sample_env (sha256 sample_env (pair_bytes (keyX other_key) (keyY other_key)))"
proof -
  have "BigBytes 77 = [77]" by (simp add: BigBytes_def digits.simps)
  then have "BigBytes (77 * 256 ^ 24) = 77 # replicate 24 0" "BigBytes 77 = [77]"
    using BigBytes_shift [of 77 24] by simp_all
  then have "pair_bytes (keyX other_key) y ! 7 = 77" "pair_bytes (keyX sample_key) y ! 7 = 0"
    for y
    by (simp_all add: pair_bytes_def other_key_def sample_key_def LeftPadBytes_def nth_append)
  then show ?thesis
    by (simp add: sample_env_def sample_hash_def pair_bytes_def LeftPadBytes_def)
qed

lemma other_address:
  obtains addr where "NewAddressForKeys sample_env (keypair_of other_key) = Ok addr" and "Addr addr \<noteq> Addr sample_address"
proof -
  obtain a where gen: "generateAddressHash sample_env (pair_bytes (keyX other_key) (keyY other_key)) = Ok a"
    using sample_generate by blast
  then have addr: "NewAddressForKeys sample_env (keypair_of other_key) = Ok \<lparr>Keys = Some (keypair_of other_key), Addr = a\<rparr>"
    by (simp add: NewAddressForKeys_def)
  have "generateAddressHash sample_env (pair_bytes (keyX sample_key) (keyY sample_key)) = Ok (Addr sample_address)"
    using sample_address by (auto simp: NewAddressForKeys_def dest: arg_cong [of _ _ Addr])
  then have "a \<noteq> Addr sample_address"
    using gen owner_hashes length_checksum [OF sample_sizes]
    by (auto simp: generateAddressHash_Ok Let_def dest: b58.enc_inj)
  with addr show ?thesis using that by auto
qed

theorem failed_append_moves_head_witness:
  "\<exists>node w' key. dag_Append sample_dag node sample_key0 sample_world1 = (Err ErrUnmanagedAddress, w')
     \<and> GetLast sample_dag sample_key0 ''main'' w' = Ok (Some node, key) \<and> nAddress node \<noteq> Addr sample_address"
proof -
  obtain addr where addr: "NewAddressForKeys sample_env (keypair_of other_key) = Ok addr"
    and neq: "Addr addr \<noteq> Addr sample_address" by (rule other_address)
  define m where "m = NewNode\<lparr>nSeq := 2, nTimestamp := ''2024-02-29T23:59:59Z'', nAddress := Addr addr,
     nPrevious := sample_key0, nBranch := ''main'', nBranches := [''x''], nPubKey := PublicKey (keypair_of other_key)\<rparr>"
  obtain s where "Sign sample_env [] (sha256 sample_env (GetBytesForSigning m)) other_key = Ok s"
    using sample_Sign by blast
  then have sign: "node_Sign sample_env [] m other_key = Ok (m\<lparr>nSignature := HexEncode s\<rparr>)"
    by (simp add: node_Sign_def)
  define node where "node = m\<lparr>nSignature := HexEncode s\<rparr>"
  have sel: "nAddress node = Addr addr" "nSeq node = 2" "nPrevious node = sample_key0" "nBranch node = ''main''"
      "nBranches node = [''x'']"
    by (simp_all add: node_def m_def)
  have "Parse_RFC3339 ''2024-02-29T23:59:59Z'' \<noteq> None" by code_simp
  then have auth: "authentic sample_env node"
    unfolding node_def by (intro signed_authentic [OF sample_sizes sample_signs other_fits addr sign])
      (simp_all add: m_def)
  have "utf8_valid (Addr addr)" by (rule utf8_ascii [OF owner_address(5) [OF sample_sizes addr]])
  then have ok: "node_ok node" by (simp add: node_ok_def node_def m_def NewNode_def)
  have next_node: "next_in_branch sample_dag node sample_key0 sample_world1"
    unfolding next_in_branch_def using sample_root_at sample_last [of "''main''"]
    by (intro exI [of _ sample_root]) (simp add: sel, simp add: sample_root_def)
  have unmanaged: "addresses (rs sample_world1) (nAddress node) = None"
    using write_addresses(1) [OF sample_SetRoot1 [unfolded sample_dag_def]] neq
    by (simp add: sel sample_world_eq)
  obtain w' key where "dag_Append sample_dag node sample_key0 sample_world1 = (Err ErrUnmanagedAddress, w')"
      "GetLast sample_dag sample_key0 ''main'' w' = Ok (Some node, key)"
    using failed_append_moves_head [of sample_env node "''ns''", OF auth next_node [unfolded sample_dag_def] ok
        sample_no_clash [unfolded sample_dag_def] sample_root_at [unfolded sample_dag_def] _
        sample_path [unfolded sample_dag_def] _ unmanaged] sample_managed1
    by (auto simp: sel sample_dag_def) (auto simp: sample_root_def)
  with sel(1) neq show ?thesis by metis
qed

end
