(* ===== verification/Graph.thy ===== *)
theory Graph
  imports DagSpec
begin

text \<open>
  \<^verbatim>\<open>graph/graph.go\<close>, \<^verbatim>\<open>graph/util.go\<close> and \<^verbatim>\<open>graph/iterator.go\<close>: the timeline of one address over a
  \<open>Dag\<close>.  The clock and the random source are explicit arguments (\<open>now\<close>, \<open>rnd\<close>); the logger is
  left out.
\<close>

section \<open>Data\<close>

record 'w Graph =
  gName :: string
  gMetaData :: string
  gAddr :: Address
  gDa :: "'w dag"

text \<open>The public node: the fields of the stored node with its key.\<close>

record GraphNode =
  gnKey :: string
  gnSeq :: "32 word"
  gnTimestamp :: string
  gnAddress :: string
  gnPrevious :: string
  gnBranch :: string
  gnBranchRoot :: string
  gnProperties :: "(string \<times> string) list"
  gnBranches :: "string list"
  gnData :: bytes
  gnPubKey :: string
  gnSignature :: string

definition GraphNode_zero :: GraphNode where
  "GraphNode_zero = \<lparr>gnKey = '''', gnSeq = 0, gnTimestamp = '''', gnAddress = '''', gnPrevious = '''',
     gnBranch = '''', gnBranchRoot = '''', gnProperties = [], gnBranches = [], gnData = [],
     gnPubKey = '''', gnSignature = ''''\<rparr>"

record NodeData =
  ndAddress :: string
  ndData :: bytes
  ndBranch :: string
  ndBranches :: "string list"
  ndProperties :: "(string \<times> string) list"

definition graph_translateError :: "error \<Rightarrow> error" where
  "graph_translateError er =
     (if er = ErrDagAlreadyInitialized then ErrAlreadyInitialized
      else if er = ErrNodeNotFound then GraphErrNotFound
      else er)"

definition toGraphNode :: "string \<Rightarrow> Node \<Rightarrow> GraphNode" where
  "toGraphNode key node = \<lparr>gnKey = key, gnSeq = nSeq node, gnTimestamp = nTimestamp node,
     gnAddress = nAddress node, gnPrevious = nPrevious node, gnBranch = nBranch node,
     gnBranchRoot = nBranchRoot node, gnProperties = nProperties node, gnBranches = nBranches node,
     gnData = nData node, gnPubKey = nPubKey node, gnSignature = nSignature node\<rparr>"

text \<open>Converting a nil node dereferences it.\<close>

definition toGraphNode_ptr :: "string \<Rightarrow> Node option \<Rightarrow> GraphNode result" where
  "toGraphNode_ptr key node = (case node of None \<Rightarrow> Panic | Some n \<Rightarrow> Ok (toGraphNode key n))"

section \<open>Creating nodes\<close>

text \<open>\<open>graph/util.go\<close>: nil keys are dereferenced.  The properties of the data are not stored.\<close>

definition createNode ::
    "crypto_env \<Rightarrow> bytes \<Rightarrow> datetime \<Rightarrow> NodeData \<Rightarrow> string \<Rightarrow> string \<Rightarrow> Address \<Rightarrow> 32 word \<Rightarrow> Node result" where
  "createNode E rnd now node keyRoot prev addr seqn =
     (case Keys addr of
        None \<Rightarrow> Panic
      | Some keys \<Rightarrow>
          let n0 = NewNode;
              n1 = n0\<lparr>nData := ndData node\<rparr>;
              n2 = (if prev \<noteq> '''' then n1\<lparr>nPrevious := prev\<rparr> else n1);
              n3 = n2\<lparr>nSeq := seqn, nAddress := Addr addr, nPubKey := PublicKey keys,
                      nTimestamp := Format_RFC3339 now, nBranches := ndBranches node,
                      nBranch := ndBranch node, nBranchRoot := keyRoot\<rparr>
          in node_Sign E rnd n3 (ToEcdsaPrivateKey keys))"

section \<open>The graph\<close>

text \<open>The error of \<open>Manage\<close> is not looked at.\<close>

definition Graph_New :: "Address \<Rightarrow> 'w dag \<Rightarrow> ('w Graph, 'w) io" where
  "Graph_New addr da w =
     (let g = \<lparr>gName = '''', gMetaData = '''', gAddr = addr, gDa = da\<rparr> in
      case Keys addr of
        None \<Rightarrow> (Ok g, w)
      | Some keys \<Rightarrow>
          if PrivateKey keys \<noteq> '''' then
            (case dag_Manage da addr w of (Panic, w') \<Rightarrow> (Panic, w') | (_, w') \<Rightarrow> (Ok g, w'))
          else (Ok g, w))"

definition GetName :: "'w Graph \<Rightarrow> string" where
  "GetName d = gName d"

definition GetMetaData :: "'w Graph \<Rightarrow> string" where
  "GetMetaData d = gMetaData d"

definition GetAddress :: "'w Graph \<Rightarrow> Address" where
  "GetAddress d = gAddr d"

definition graph_Manage :: "'w Graph \<Rightarrow> Address \<Rightarrow> (unit, 'w) io" where
  "graph_Manage d addr = dag_Manage (gDa d) addr"

definition graph_get :: "'w Graph \<Rightarrow> string \<Rightarrow> 'w \<Rightarrow> Node option result" where
  "graph_get d key w = map_error graph_translateError (dag_Get (gDa d) key w)"

text \<open>The node, the flag and the error.\<close>

definition Graph_Get :: "'w Graph \<Rightarrow> string \<Rightarrow> 'w \<Rightarrow> (GraphNode \<times> bool \<times> error option) result" where
  "Graph_Get d key w =
     (case graph_get d key w of
        Panic \<Rightarrow> Panic
      | Err er \<Rightarrow> if er = ErrNodeNotFound then Ok (GraphNode_zero, False, None)
                  else Ok (GraphNode_zero, False, Some (graph_translateError er))
      | Ok node \<Rightarrow> bind_result (toGraphNode_ptr key node) (\<lambda>n. Ok (n, True, None)))"

definition getNext :: "'w Graph \<Rightarrow> string \<Rightarrow> 'w \<Rightarrow> (Node option \<times> string) result" where
  "getNext d key w =
     bind_result (map_error graph_translateError (dag_Get (gDa d) key w)) (\<lambda>node.
     case node of
       None \<Rightarrow> Ok (None, '''')
     | Some node \<Rightarrow>
         if nPrevious node = '''' then Ok (None, '''')
         else bind_result (map_error graph_translateError (graph_get d (nPrevious node) w)) (\<lambda>nxt.
           Ok (nxt, nPrevious node)))"

definition createFirstNode ::
    "'w Graph \<Rightarrow> bytes \<Rightarrow> datetime \<Rightarrow> NodeData \<Rightarrow> (GraphNode, 'w) io" where
  "createFirstNode d rnd now node =
     (let hasDefaultBranch = list_ex (\<lambda>b. b = ndBranch node) (ndBranches node);
          node' = (if hasDefaultBranch then node else node\<lparr>ndBranches := ndBranches node @ [ndBranch node]\<rparr>)
      in bind_io (map_error_io graph_translateError
           (read_io (\<lambda>_. createNode (dag_env (gDa d)) rnd now node' '''' '''' (gAddr d) 1))) (\<lambda>n.
         bind_io (map_error_io graph_translateError (SetRoot (gDa d) n)) (\<lambda>key.
         return_io (toGraphNode key n))))"

text \<open>The part of \<open>Append\<close> after the root key is known.\<close>

definition append_at ::
    "'w Graph \<Rightarrow> bytes \<Rightarrow> datetime \<Rightarrow> string \<Rightarrow> NodeData \<Rightarrow> (GraphNode, 'w) io" where
  "append_at d rnd now keyRoot node w =
     (case GetLast (gDa d) keyRoot (ndBranch node) w of
        Panic \<Rightarrow> (Panic, w)
      | Err er \<Rightarrow> if er = ErrNodeNotFound then (Err ErrPreviousNotFound, w) else (Err er, w)
      | Ok (None, lastKey) \<Rightarrow> (Panic, w)
      | Ok (Some lst, lastKey) \<Rightarrow>
          (let seqn = (if lastKey = keyRoot \<and> nBranch lst \<noteq> ndBranch node then 1 else nSeq lst + 1)
           in bind_io (read_io (\<lambda>_. createNode (dag_env (gDa d)) rnd now node keyRoot lastKey (gAddr d) seqn)) (\<lambda>n.
              bind_io (dag_Append (gDa d) n keyRoot) (\<lambda>key.
              return_io (toGraphNode key n))) w))"

definition Graph_Append ::
    "'w Graph \<Rightarrow> bytes \<Rightarrow> datetime \<Rightarrow> string \<Rightarrow> NodeData \<Rightarrow> (GraphNode, 'w) io" where
  "Graph_Append d rnd now keyRoot node w =
     (if (case Keys (gAddr d) of None \<Rightarrow> True | Some keys \<Rightarrow> PrivateKey keys = '''')
      then (Err ErrReadOnly, w)
      else if keyRoot = '''' then
        (let got = GetRoot (gDa d) (Addr (gAddr d)) w;
             gn = (case got of Ok (n, _) \<Rightarrow> n | _ \<Rightarrow> None)
         in if got = Panic then (Panic, w)
            else if got = Err ErrNodeNotFound \<or> gn = None then createFirstNode d rnd now node w
            else (case got of
                Ok (_, rootKey) \<Rightarrow> append_at d rnd now rootKey node w
              | Err er \<Rightarrow> (Err er, w)
              | Panic \<Rightarrow> (Panic, w)))
      else append_at d rnd now keyRoot node w)"

section \<open>The iterator\<close>

record iterator =
  it_start :: string
  it_keyRoot :: string
  it_branch :: string
  it_previous :: string

definition newIterator :: "string \<Rightarrow> string \<Rightarrow> string \<Rightarrow> iterator" where
  "newIterator start keyRoot branch =
     \<lparr>it_start = start, it_keyRoot = keyRoot, it_branch = branch, it_previous = ''''\<rparr>"

definition GetIterator :: "'w Graph \<Rightarrow> string \<Rightarrow> string \<Rightarrow> string \<Rightarrow> iterator" where
  "GetIterator d keyRoot branch from = newIterator from keyRoot branch"

text \<open>How a node that was found becomes the item, and its previous node the next one.\<close>

definition it_found ::
    "(Node option \<times> string) result \<Rightarrow> iterator \<Rightarrow> GraphNode option result \<times> iterator" where
  "it_found r it =
     (case r of
        Panic \<Rightarrow> (Panic, it)
      | Err er \<Rightarrow> if er = GraphErrNotFound then (Ok None, it) else (Err er, it)
      | Ok (None, key) \<Rightarrow> (Ok None, it)
      | Ok (Some node, key) \<Rightarrow> (Ok (Some (toGraphNode key node)), it\<lparr>it_previous := nPrevious node\<rparr>))"

definition Last :: "'w Graph \<Rightarrow> 'w \<Rightarrow> iterator \<Rightarrow> GraphNode option result \<times> iterator" where
  "Last d w it =
     (if it_start it = '''' then
        (if it_keyRoot it = '''' then
           (let got = GetRoot (gDa d) (Addr (gAddr d)) w;
                gn = (case got of Ok (n, _) \<Rightarrow> n | _ \<Rightarrow> None)
            in if got = Panic then (Panic, it)
               else if got = Err ErrNodeNotFound \<or> gn = None then (Err GraphErrNotFound, it)
               else (case got of
                   Ok (_, rootKey) \<Rightarrow>
                     (let it' = it\<lparr>it_keyRoot := rootKey\<rparr>
                      in it_found (GetLast (gDa d) rootKey (it_branch it) w) it')
                 | Err er \<Rightarrow> (Err er, it)
                 | Panic \<Rightarrow> (Panic, it)))
         else it_found (GetLast (gDa d) (it_keyRoot it) (it_branch it) w) it)
      else it_found (getNext d (it_start it) w) it)"

definition Prev :: "'w Graph \<Rightarrow> 'w \<Rightarrow> iterator \<Rightarrow> GraphNode option result \<times> iterator" where
  "Prev d w it =
     (if it_previous it = '''' then (Ok None, it)
      else it_found (bind_result (graph_get d (it_previous it) w) (\<lambda>n. Ok (n, it_previous it))) it)"

text \<open>
  The loop of \<open>All\<close>: the items handed to \<open>yield\<close>, which stops the loop when it returns false; \<open>None\<close>
  is a loop without end.  An error ends the loop silently, a panic does not return.
\<close>

partial_function (option) all_loop ::
    "'w Graph \<Rightarrow> 'w \<Rightarrow> (GraphNode \<Rightarrow> bool) \<Rightarrow> GraphNode option result \<times> iterator \<Rightarrow> GraphNode list result option" where
  "all_loop d w yld s =
     (case s of (r, it) \<Rightarrow> (case r of
        Panic \<Rightarrow> Some Panic
      | Err er \<Rightarrow> Some (Ok [])
      | Ok None \<Rightarrow> Some (Ok [])
      | Ok (Some v) \<Rightarrow>
          if \<not> yld v then Some (Ok [v])
          else Option.bind (all_loop d w yld (Prev d w it)) (\<lambda>r'.
            case r' of Ok vs \<Rightarrow> Some (Ok (v # vs)) | Err er \<Rightarrow> Some (Err er) | Panic \<Rightarrow> Some Panic)))"

definition All :: "'w Graph \<Rightarrow> 'w \<Rightarrow> (GraphNode \<Rightarrow> bool) \<Rightarrow> iterator \<Rightarrow> GraphNode list result option" where
  "All d w yld it = all_loop d w yld (Last d w it)"

end
