(* ===== verification/Timeline.thy ===== *)
theory Timeline
  imports Graph
begin

text \<open>
  The nodes a graph makes are authentic, an owner's append succeeds, and the iterator walks the
  chain of previous nodes: the lemmas behind the properties of the package \<^verbatim>\<open>graph\<close>.
\<close>

section \<open>The owner's graph\<close>

text \<open>
  A graph over the backend in memory, of an address made for a key whose signatures verify.
\<close>

definition owner_graph :: "crypto_env \<Rightarrow> string \<Rightarrow> ecdsa_key \<Rightarrow> local_world Graph \<Rightarrow> bool" where
  "owner_graph E ns k d \<longleftrightarrow>
     digest_sizes E \<and> ecdsa_signs E k \<and> key_fits k \<and> keyD k \<noteq> 0
     \<and> NewAddressForKeys E (keypair_of k) = Ok (gAddr d) \<and> gDa d = NewDag E ns"

lemma owner_graphD:
  assumes "owner_graph E ns k d"
  shows "digest_sizes E" "ecdsa_signs E k" "key_fits k" "gDa d = NewDag E ns"
    "NewAddressForKeys E (keypair_of k) = Ok (gAddr d)"
    "Keys (gAddr d) = Some (keypair_of k)" "PrivateKey (keypair_of k) \<noteq> ''''"
  using assms owner_address(1) [of E k "gAddr d"] BigBytes_neq_Nil [of "keyD k"]
  by (auto simp: owner_graph_def)

text \<open>The node before it is signed.\<close>

definition draft :: "datetime \<Rightarrow> NodeData \<Rightarrow> string \<Rightarrow> string \<Rightarrow> ecdsa_key \<Rightarrow> string \<Rightarrow> 32 word \<Rightarrow> Node" where
  "draft now nd keyRoot prev k a seqn =
     NewNode\<lparr>nSeq := seqn, nTimestamp := Format_RFC3339 now, nAddress := a, nPrevious := prev,
       nBranch := ndBranch nd, nBranchRoot := keyRoot, nBranches := ndBranches nd, nData := ndData nd,
       nPubKey := PublicKey (keypair_of k)\<rparr>"

lemma createNode_owner:
  assumes "owner_graph E ns k d"
  shows "createNode E rnd now nd keyRoot prev (gAddr d) seqn
    = node_Sign E rnd (draft now nd keyRoot prev k (Addr (gAddr d)) seqn) k"
  using owner_graphD [OF assms] ToEcdsaPrivateKey_keypair_of [of k]
  by (simp add: createNode_def draft_def NewNode_def Let_def)

lemma createNode_Ok:
  assumes "owner_graph E ns k d" and "createNode E rnd now nd keyRoot prev (gAddr d) seqn = Ok n"
  shows "\<exists>s. n = draft now nd keyRoot prev k (Addr (gAddr d)) seqn\<lparr>nSignature := HexEncode s\<rparr>"
  using assms by (auto simp: createNode_owner [OF assms(1)] node_Sign_Ok)

lemma createNode_sel:
  assumes "owner_graph E ns k d" and "createNode E rnd now nd keyRoot prev (gAddr d) seqn = Ok n"
  shows "nSeq n = seqn" "nAddress n = Addr (gAddr d)" "nPrevious n = prev" "nBranch n = ndBranch nd"
    "nBranches n = ndBranches nd" "nData n = ndData nd" "nBranchRoot n = keyRoot" "nProperties n = []"
  using createNode_Ok [OF assms] by (auto simp: draft_def NewNode_def)

lemma createNode_authentic:
  assumes "owner_graph E ns k d" and "createNode E rnd now nd keyRoot prev (gAddr d) seqn = Ok n"
    and "datetime_ok now" and "seqn \<noteq> 0" and "ndBranch nd \<noteq> ''''"
  shows "authentic E n"
proof -
  note o = owner_graphD [OF assms(1)]
  show ?thesis
    using assms(2-5) Parse_Format [OF assms(3)]
    by (intro signed_authentic [OF o(1-3,5), of rnd "draft now nd keyRoot prev k (Addr (gAddr d)) seqn"])
      (simp_all add: createNode_owner [OF assms(1)] draft_def)
qed

text \<open>Texts that go into a node.\<close>

definition texts_ok :: "NodeData \<Rightarrow> bool" where
  "texts_ok nd \<longleftrightarrow> utf8_valid (ndBranch nd) \<and> list_all utf8_valid (ndBranches nd)"

lemma createNode_ok:
  assumes "owner_graph E ns k d" and "createNode E rnd now nd keyRoot prev (gAddr d) seqn = Ok n"
    and "datetime_ok now" and "texts_ok nd" and "utf8_valid keyRoot" and "utf8_valid prev"
  shows "node_ok n"
proof -
  obtain s where "n = draft now nd keyRoot prev k (Addr (gAddr d)) seqn\<lparr>nSignature := HexEncode s\<rparr>"
    using createNode_Ok [OF assms(1,2)] by blast
  moreover have "utf8_valid (Format_RFC3339 now)" by (rule utf8_ascii [OF Format_ascii [OF assms(3)]])
  moreover have "utf8_valid (Addr (gAddr d))"
    using owner_graphD [OF assms(1)] by (intro utf8_ascii owner_address(5))
  ultimately show ?thesis
    using assms(4-6) by (simp add: node_ok_def draft_def NewNode_def texts_ok_def)
qed

text \<open>Signing always succeeds, given randomness.\<close>

definition can_sign :: "crypto_env \<Rightarrow> ecdsa_key \<Rightarrow> bool" where
  "can_sign E k \<longleftrightarrow> (\<forall>rnd digest. is_ok (ecdsa_sign E rnd k digest))"

lemma createNode_succeeds:
  assumes "owner_graph E ns k d" and "can_sign E k"
  shows "\<exists>n. createNode E rnd now nd keyRoot prev (gAddr d) seqn = Ok n"
proof -
  have "\<exists>s. Sign E rnd digest k = Ok s" for digest
  proof -
    obtain rs where "ecdsa_sign E rnd k digest = Ok rs"
      using assms(2) by (fastforce simp: can_sign_def is_ok_iff)
    then show ?thesis by (cases rs) (simp add: Sign_def)
  qed
  then show ?thesis by (auto simp: createNode_owner [OF assms(1)] node_Sign_Ok)
qed

section \<open>Appending\<close>

lemma append_at_Ok:
  assumes "append_at d rnd now rk nd w = (Ok gn, w')"
  shows "\<exists>lst lastKey n. GetLast (gDa d) rk (ndBranch nd) w = Ok (Some lst, lastKey)
    \<and> createNode (dag_env (gDa d)) rnd now nd rk lastKey (gAddr d)
        (if lastKey = rk \<and> nBranch lst \<noteq> ndBranch nd then 1 else nSeq lst + 1) = Ok n
    \<and> dag_Append (gDa d) n rk w = (Ok (gnKey gn), w') \<and> gn = toGraphNode (gnKey gn) n"
proof -
  obtain lst lastKey where last: "GetLast (gDa d) rk (ndBranch nd) w = Ok (Some lst, lastKey)"
    using assms by (auto simp: append_at_def split: result.splits option.splits if_splits)
  then obtain n key where "createNode (dag_env (gDa d)) rnd now nd rk lastKey (gAddr d)
        (if lastKey = rk \<and> nBranch lst \<noteq> ndBranch nd then 1 else nSeq lst + 1) = Ok n"
      "dag_Append (gDa d) n rk w = (Ok key, w')" "gn = toGraphNode key n"
    using assms by (auto simp: append_at_def bind_io_eq_Ok Let_def)
  with last show ?thesis by (auto simp: toGraphNode_def)
qed

text \<open>The node that an owner appends is always the next one of its branch.\<close>

lemma created_next:
  assumes "owner_graph E ns k d" and "getNodeByKey da rk w = Ok (Some br)"
    and "ndBranch nd \<in> set (nBranches br)" and "GetLast da rk (ndBranch nd) w = Ok (Some lst, lastKey)"
    and "createNode E rnd now nd rk lastKey (gAddr d)
        (if lastKey = rk \<and> nBranch lst \<noteq> ndBranch nd then 1 else nSeq lst + 1) = Ok n"
  shows "next_in_branch da n rk w"
  using assms(2-4) createNode_sel [OF assms(1,5)]
  by (auto simp: next_in_branch_def)

lemma append_at_succeeds:
  assumes own: "owner_graph E ns k d" and "can_sign E k" and "datetime_ok now"
    and br: "getNodeByKey (NewDag E ns) rk w = Ok (Some br)" and "ndBranch nd \<in> set (nBranches br)"
    and lst: "GetLast (NewDag E ns) rk (ndBranch nd) w = Ok (Some lst, lastKey)" and "nSeq lst \<noteq> - 1"
    and "managed E w (nAddress br)" and "managed E w (Addr (gAddr d))"
    and "getFullPath (NewDag E ns) w rk = Some (Ok fp)"
  shows "\<exists>gn w'. append_at d rnd now rk nd w = (Ok gn, w')"
proof -
  let ?seq = "if lastKey = rk \<and> nBranch lst \<noteq> ndBranch nd then 1 else nSeq lst + 1"
  note o = owner_graphD [OF own]
  obtain n where n: "createNode E rnd now nd rk lastKey (gAddr d) ?seq = Ok n"
    using createNode_succeeds [OF own assms(2)] by blast
  have "nSeq lst + 1 \<noteq> 0" using assms(7) by (simp add: eq_neg_iff_add_eq_0)
  moreover have "ndBranch nd \<noteq> ''''" using lst by (auto simp: GetLast_def)
  ultimately have "authentic E n" by (intro createNode_authentic [OF own n assms(3)]) auto
  moreover have "next_in_branch (NewDag E ns) n rk w" by (rule created_next [OF own br assms(5) lst n])
  moreover obtain key w' where "saveNode (NewDag E ns) n rk w = (Ok key, w')"
    using saveNode_succeeds [OF br assms(10,8), of n] assms(9) createNode_sel [OF own n] by auto
  ultimately have "dag_Append (NewDag E ns) n rk w = (Ok key, w')" by (simp add: dag_Append_Ok)
  then have "append_at d rnd now rk nd w = (Ok (toGraphNode key n), w')"
    using lst n by (simp add: append_at_def o(4) bind_io_def return_io_def read_io_def)
  then show ?thesis by blast
qed

lemma Graph_Append_owner:
  assumes "owner_graph E ns k d"
  shows "rk \<noteq> '''' \<Longrightarrow> Graph_Append d rnd now rk nd w = append_at d rnd now rk nd w"
    and "GetRoot (gDa d) (Addr (gAddr d)) w = Ok (Some r, rk) \<Longrightarrow>
      Graph_Append d rnd now '''' nd w = append_at d rnd now rk nd w"
  using owner_graphD [OF assms] by (simp_all add: Graph_Append_def)

section \<open>Chains of previous nodes\<close>

text \<open>The nodes from a key on, each under the previous key of the one before, to one without previous.\<close>

fun chain :: "'w dag \<Rightarrow> 'w \<Rightarrow> string \<Rightarrow> (string \<times> Node) list \<Rightarrow> bool" where
  "chain da w k [] \<longleftrightarrow> k = ''''"
| "chain da w k ((k', n) # ns) \<longleftrightarrow>
     k \<noteq> '''' \<and> k' = k \<and> getNodeByKey da k w = Ok (Some n) \<and> chain da w (nPrevious n) ns"

text \<open>The items \<open>yield\<close> is called with: it stops the walk by returning false.\<close>

fun take_yield :: "('a \<Rightarrow> bool) \<Rightarrow> 'a list \<Rightarrow> 'a list" where
  "take_yield yld [] = []"
| "take_yield yld (x # xs) = x # (if yld x then take_yield yld xs else [])"

lemma take_yield_all [simp]: "take_yield (\<lambda>_. True) xs = xs"
  by (induction xs) auto

definition items :: "(string \<times> Node) list \<Rightarrow> GraphNode list" where
  "items ns = map (\<lambda>(k, n). toGraphNode k n) ns"

lemma items_simps [simp]:
  "items [] = []" "items ((k, n) # ns) = toGraphNode k n # items ns"
  by (simp_all add: items_def)

lemma Prev_chain:
  assumes "chain (gDa d) w (it_previous it) ns"
  shows "Prev d w it = (case ns of [] \<Rightarrow> (Ok None, it)
    | (k, n) # _ \<Rightarrow> (Ok (Some (toGraphNode k n)), it\<lparr>it_previous := nPrevious n\<rparr>))"
  using assms by (cases ns) (auto simp: Prev_def graph_get_def dag_Get_def it_found_def)

lemma all_loop_chain:
  assumes "chain (gDa d) w (nPrevious n) ns" and "it_previous it = nPrevious n"
  shows "all_loop d w yld (Ok (Some (toGraphNode k n)), it) = Some (Ok (take_yield yld (toGraphNode k n # items ns)))"
  using assms
proof (induction ns arbitrary: k n it)
  case Nil
  then have "Prev d w it = (Ok None, it)" using Prev_chain [of d w it "[]"] by simp
  then have "all_loop d w yld (Prev d w it) = Some (Ok [])"
    by (subst all_loop.simps) simp
  then show ?case by (subst all_loop.simps) simp
next
  case (Cons kn ns)
  obtain k' n' where kn: "kn = (k', n')" by (cases kn)
  let ?it = "it\<lparr>it_previous := nPrevious n'\<rparr>"
  have "Prev d w it = (Ok (Some (toGraphNode k' n')), ?it)"
    using Prev_chain [of d w it "kn # ns"] Cons.prems kn by simp
  moreover have "all_loop d w yld (Ok (Some (toGraphNode k' n')), ?it)
      = Some (Ok (take_yield yld (toGraphNode k' n' # items ns)))"
    using Cons.IH [of n' ?it k'] Cons.prems(1) kn by simp
  ultimately show ?case using kn by (subst all_loop.simps) simp
qed

text \<open>A branch as the iterator sees it: from its head down the chain.\<close>

definition timeline :: "'w Graph \<Rightarrow> 'w \<Rightarrow> string \<Rightarrow> string \<Rightarrow> (string \<times> Node) list \<Rightarrow> bool" where
  "timeline d w rk b ns \<longleftrightarrow> (\<exists>k n ns'. ns = (k, n) # ns'
     \<and> GetLast (gDa d) rk b w = Ok (Some n, k) \<and> chain (gDa d) w k ns)"

lemma All_timeline:
  assumes "timeline d w rk b ns" and "rk \<noteq> ''''"
  shows "All d w yld (newIterator '''' rk b) = Some (Ok (take_yield yld (items ns)))"
proof -
  obtain k n ns' where ns: "ns = (k, n) # ns'" and last: "GetLast (gDa d) rk b w = Ok (Some n, k)"
    and chain: "chain (gDa d) w (nPrevious n) ns'"
    using assms(1) by (auto simp: timeline_def)
  have "Last d w (newIterator '''' rk b) = (Ok (Some (toGraphNode k n)), (newIterator '''' rk b)\<lparr>it_previous := nPrevious n\<rparr>)"
    using last assms(2) by (simp add: Last_def newIterator_def it_found_def)
  with all_loop_chain [OF chain] ns show ?thesis by (simp add: All_def)
qed

lemma All_root:
  assumes "GetRoot (gDa d) (Addr (gAddr d)) w = Ok (Some r, rk)" and "timeline d w rk b ns" and "rk \<noteq> ''''"
  shows "All d w yld (newIterator '''' '''' b) = Some (Ok (take_yield yld (items ns)))"
proof -
  obtain k n ns' where ns: "ns = (k, n) # ns'" and last: "GetLast (gDa d) rk b w = Ok (Some n, k)"
    and chain: "chain (gDa d) w (nPrevious n) ns'"
    using assms(2) by (auto simp: timeline_def)
  have "Last d w (newIterator '''' '''' b) = (Ok (Some (toGraphNode k n)), (newIterator '''' rk b)\<lparr>it_previous := nPrevious n\<rparr>)"
    using last assms(1) by (simp add: Last_def newIterator_def it_found_def)
  with all_loop_chain [OF chain] ns show ?thesis by (simp add: All_def)
qed

context dag_writer begin

lemma saved_chain:
  assumes "saved da cid node ns w key w'" and "no_clash da cid node w" and "chain da w k kns"
  shows "chain da w' k kns"
  using assms(3)
proof (induction kns arbitrary: k)
  case (Cons kn kns)
  then show ?case using saved_getNode_keeps [OF assms(1,2)] by (cases kn) auto
qed simp

end

text \<open>An append puts the new node in front of its branch.\<close>

lemma append_timeline:
  assumes "dag_Append (NewDag E ns) n rk w = (Ok key, w')" and "node_ok n"
    and "no_clash (NewDag E ns) (hexHash E) n w" and "key \<noteq> ''''" and "gDa d = NewDag E ns"
    and "timeline d w rk (nBranch n) kns" and "nPrevious n = fst (hd kns)"
  shows "timeline d w' rk (nBranch n) ((key, n) # kns)"
proof -
  obtain br where sv: "saved (NewDag E ns) (hexHash E) n
      (insert (getLastNodeName (NewDag E ns) br rk (nBranch n)) (branch_names (NewDag E ns) n key)) w key w'"
    using local_dag.append_saved [OF assms(1)] by blast
  have "chain (NewDag E ns) w (nPrevious n) kns"
    using assms(5-7) by (auto simp: timeline_def)
  from local_dag.saved_chain [OF sv assms(3) this] show ?thesis
    using local_dag.append_head [OF assms(1-3)] assms(4,5) by (simp add: timeline_def)
qed

end
