(* ===== verification/GraphProps.thy ===== *)
theory GraphProps
  imports Timeline
begin

text \<open>
  The properties of the package \<^verbatim>\<open>graph\<close>, up to whole runs: an owner who posts to an empty timeline
  reads all the posts back, newest first.
\<close>

section \<open>The root of a timeline\<close>

lemma saved_GetRoot:
  assumes "saved (NewDag E ns) (hexHash E) node (insert (getLastNodeName (NewDag E ns) br rk b) (branch_names (NewDag E ns) node key)) w key w'"
    and "no_clash (NewDag E ns) (hexHash E) node w"
    and "CHR ''/'' \<notin> set a" "CHR ''/'' \<notin> set (nAddress br)" "CHR ''/'' \<notin> set (nAddress node)"
    and "GetRoot (NewDag E ns) a w = Ok (Some r, k)"
  shows "GetRoot (NewDag E ns) a w' = Ok (Some r, k)"
proof -
  have "getRootNodeName (NewDag E ns) a \<notin>
      insert (getLastNodeName (NewDag E ns) br rk b) (branch_names (NewDag E ns) node key)"
    using getRootNodeName_neq_last [of a br "NewDag E ns" rk b] getRootNodeName_neq_last [of a node "NewDag E ns" key] assms(3-5)
    by (auto simp: branch_names_def)
  moreover have "rs_Resolve (NewDag E ns) (getRootNodeName (NewDag E ns) a) w = Ok k"
    and "getNodeByKey (NewDag E ns) k w = Ok (Some r)"
    using assms(6) by (auto simp: GetRoot_def resolveRootNodeKey_def simp del: NewDag_sel)
  ultimately show ?thesis
    using local_dag.saved_getNode_keeps [OF assms(1,2), of k "Some r"]
      local_dag.saved_resolve [OF assms(1), of "getRootNodeName (NewDag E ns) a"]
    by (simp add: GetRoot_def resolveRootNodeKey_def del: NewDag_sel)
qed

lemma GetRoot_node: "GetRoot da a w = Ok (Some r, k) \<Longrightarrow> getNodeByKey da k w = Ok (Some r)"
  by (auto simp: GetRoot_def)

text \<open>An append collides with nothing when it replaces no other value.\<close>

definition no_replace :: "local_world \<Rightarrow> string \<Rightarrow> local_world \<Rightarrow> bool" where
  "no_replace w key w' \<longleftrightarrow> pairs (ds w) key = None \<or> pairs (ds w) key = pairs (ds w') key"

lemma no_replace_clash:
  assumes "saved (NewDag E ns) (hexHash E) node nms w key w'" and "no_replace w key w'"
  shows "no_clash (NewDag E ns) (hexHash E) node w"
  using assms by (auto simp: saved_def no_replace_def no_clash_def local_Get_Ok)

lemma of_nat_neq_max: "l < 2 ^ 32 - 1 \<Longrightarrow> (of_nat l :: 32 word) \<noteq> - 1"
proof
  assume l: "l < 2 ^ 32 - 1" and "(of_nat l :: 32 word) = - 1"
  then have "unat (of_nat l :: 32 word) = unat (- 1 :: 32 word)" by simp
  then show False using l by (simp add: unat_of_nat unsigned_minus_1_eq_mask mask_eq_exp_minus_1)
qed

section \<open>A timeline that is being written\<close>

text \<open>
  The root of the owner's address declares the branch, and the branch holds the nodes \<open>kns\<close>,
  numbered from 1.
\<close>

definition posted :: "crypto_env \<Rightarrow> local_world Graph \<Rightarrow> string \<Rightarrow> local_world \<Rightarrow> (string \<times> Node) list \<Rightarrow> bool" where
  "posted E d b w kns \<longleftrightarrow>
     (\<exists>rk r. GetRoot (gDa d) (Addr (gAddr d)) w = Ok (Some r, rk) \<and> rk \<noteq> '''' \<and> utf8_valid rk
       \<and> nAddress r = Addr (gAddr d) \<and> nBranchRoot r = '''' \<and> b \<in> set (nBranches r)
       \<and> timeline d w rk b kns)
     \<and> managed E w (Addr (gAddr d))
     \<and> utf8_valid (fst (hd kns)) \<and> nBranch (snd (hd kns)) = b \<and> nSeq (snd (hd kns)) = of_nat (length kns)"

lemma hexHash_text: "digest_sizes E \<Longrightarrow> utf8_valid (hexHash E js) \<and> hexHash E js \<noteq> ''''"
  using hexHash_neq_Nil [of E js] by simp

lemma owner_clean:
  assumes "owner_graph E ns k d"
  shows "CHR ''/'' \<notin> set (Addr (gAddr d))"
  using owner_address(2) owner_graphD [OF assms] by blast

lemma fullPath_root:
  "getNodeByKey da rk w = Ok (Some r) \<Longrightarrow> rk \<noteq> '''' \<Longrightarrow> nBranchRoot r = '''' \<Longrightarrow>
     getFullPath da w rk = Some (Ok (getName da (nAddress r) [rk], None))"
  by (subst getFullPath.simps) simp

lemma posted_step:
  assumes own: "owner_graph E ns k d" and "can_sign E k" and "datetime_ok now" and "texts_ok nd"
    and post: "posted E d (ndBranch nd) w kns" and "length kns < 2 ^ 32 - 1"
  shows "\<exists>key n w' nms. Graph_Append d rnd now '''' nd w = (Ok (toGraphNode key n), w')
    \<and> saved (NewDag E ns) (hexHash E) n nms w key w'
    \<and> nData n = ndData nd \<and> nSeq n = of_nat (Suc (length kns)) \<and> key \<noteq> ''''
    \<and> (no_replace w key w' \<longrightarrow> posted E d (ndBranch nd) w' ((key, n) # kns))"
proof -
  let ?da = "NewDag E ns" and ?b = "ndBranch nd"
  note o = owner_graphD [OF own]
  obtain rk r where root: "GetRoot ?da (Addr (gAddr d)) w = Ok (Some r, rk)" "rk \<noteq> ''''" "utf8_valid rk"
      "nAddress r = Addr (gAddr d)" "nBranchRoot r = ''''" "?b \<in> set (nBranches r)" "timeline d w rk ?b kns"
    using post o(4) by (auto simp: posted_def)
  note br = GetRoot_node [OF root(1)]
  obtain lk lst kns' where kns: "kns = (lk, lst) # kns'" and last: "GetLast ?da rk ?b w = Ok (Some lst, lk)"
    using root(7) o(4) by (auto simp: timeline_def)
  have lst: "utf8_valid lk" "nBranch lst = ?b" "nSeq lst = of_nat (length kns)"
    and man: "managed E w (Addr (gAddr d))"
    using post kns by (auto simp: posted_def)
  have len: "nSeq lst \<noteq> - 1" "nSeq lst + 1 = of_nat (Suc (length kns))"
    using of_nat_neq_max [OF assms(6)] lst(3) by simp_all
  obtain gn w' where app: "append_at d rnd now rk nd w = (Ok gn, w')"
    using append_at_succeeds [OF own assms(2,3) br root(6) last len(1) _ man fullPath_root [OF br root(2,5)], of rnd]
      man root(4) by auto
  obtain n key where n: "createNode E rnd now nd rk lk (gAddr d) (nSeq lst + 1) = Ok n"
    and key: "dag_Append ?da n rk w = (Ok key, w')" and gn: "gn = toGraphNode key n"
    using append_at_Ok [OF app] last o(4) lst(2) by (auto simp: toGraphNode_def)
  note sel = createNode_sel [OF own n]
  obtain nms where sv: "saved ?da (hexHash E) n nms w key w'"
      "nms = insert (getLastNodeName ?da r rk (nBranch n)) (branch_names ?da n key)"
    using local_dag.append_saved [OF key] br by auto
  have kt: "key \<noteq> ''''" "utf8_valid key" using sv(1) hexHash_text [OF o(1)] by (auto simp: saved_def)
  have ok: "node_ok n" using createNode_ok [OF own n assms(3,4) root(3)] lst(1) by simp
  have "posted E d ?b w' ((key, n) # kns)" if "no_replace w key w'"
  proof -
    note clash = no_replace_clash [OF sv(1) that]
    note cl = owner_clean [OF own]
    have "GetRoot ?da (Addr (gAddr d)) w' = Ok (Some r, rk)"
      using saved_GetRoot [OF sv(1) [unfolded sv(2)] clash cl _ _ root(1)] cl root(4) sel(2) by simp
    moreover have "timeline d w' rk ?b ((key, n) # kns)"
      using append_timeline [OF key ok clash kt(1) o(4)] root(7) sel(3,4) kns by simp
    moreover have "managed E w' (Addr (gAddr d))"
      using man managed_addresses [OF write_addresses(2) [OF key]] by simp
    ultimately show ?thesis
      using root(2-6) kt sel(1,4) len(2) o(4) by (auto simp: posted_def)
  qed
  moreover have "Graph_Append d rnd now '''' nd w = (Ok (toGraphNode key n), w')"
    using Graph_Append_owner(2) [OF own] root(1) o(4) app gn by simp
  ultimately show ?thesis using sv(1) sel(1,6) len(2) kt(1) by auto
qed

text \<open>The first post creates the root, with the branch among its own.\<close>

lemma createFirstNode_posted:
  assumes own: "owner_graph E ns k d" and sign: "can_sign E k" and now: "datetime_ok now" and "texts_ok nd"
    and "ndBranch nd \<noteq> ''''" and man: "managed E w (Addr (gAddr d))"
    and none: "GetRoot (NewDag E ns) (Addr (gAddr d)) w = Err er"
  shows "\<exists>key n w' nms. Graph_Append d rnd now '''' nd w = (Ok (toGraphNode key n), w')
    \<and> saved (NewDag E ns) (hexHash E) n nms w key w'
    \<and> nData n = ndData nd \<and> nSeq n = 1 \<and> key \<noteq> ''''
    \<and> set (nBranches n) = insert (ndBranch nd) (set (ndBranches nd))
    \<and> posted E d (ndBranch nd) w' [(key, n)] \<and> GetRoot (NewDag E ns) (Addr (gAddr d)) w' = Ok (Some n, key)"
proof -
  let ?da = "NewDag E ns" and ?a = "Addr (gAddr d)"
  define nd' where "nd' = (if list_ex (\<lambda>b. b = ndBranch nd) (ndBranches nd) then nd
    else nd\<lparr>ndBranches := ndBranches nd @ [ndBranch nd]\<rparr>)"
  have nd': "ndBranch nd' = ndBranch nd" "ndData nd' = ndData nd"
    "set (ndBranches nd') = insert (ndBranch nd) (set (ndBranches nd))"
    by (auto simp: nd'_def list_ex_iff)
  have "texts_ok nd'" using assms(4) nd' by (simp add: texts_ok_def list_all_iff)
  note o = owner_graphD [OF own]
  obtain n where n: "createNode E rnd now nd' '''' '''' (gAddr d) 1 = Ok n"
    using createNode_succeeds [OF own sign] by blast
  note sel = createNode_sel [OF own n]
  have branch: "nBranch n = ndBranch nd" "nBranch n \<in> set (nBranches n)"
    using sel nd' by auto
  have "node_ok n" by (rule createNode_ok [OF own n now \<open>texts_ok nd'\<close>]) simp_all
  obtain key w' where save: "saveRootNode ?da n w = (Ok key, w')"
    using saveRootNode_succeeds [of E w n ns] man sel by auto
  then have set: "SetRoot ?da n w = (Ok key, w')"
    using none branch assms(5) sel(2) by (simp add: SetRoot_def hasBranch_def list_ex_iff)
  obtain nms where sv: "saved ?da (hexHash E) n nms w key w'" using local_dag.SetRoot_saved [OF set] by blast
  have kt: "key \<noteq> ''''" "utf8_valid key" using sv hexHash_text [OF o(1)] by (auto simp: saved_def)
  note root = local_dag.SetRoot_root [OF set \<open>node_ok n\<close>]
  have "timeline d w' key (ndBranch nd) [(key, n)]"
    using root(2) [OF branch(2)] branch(1) assms(5) o(4) sel(3) kt GetRoot_node [OF root(1)]
    by (auto simp: timeline_def simp del: NewDag_sel)
  moreover have "managed E w' ?a" using man managed_addresses [OF write_addresses(1) [OF set]] by simp
  ultimately have "posted E d (ndBranch nd) w' [(key, n)]"
    using root(1) sel branch kt o(4) by (auto simp: posted_def simp del: NewDag_sel)
  moreover have env: "dag_env ?da = E" by simp
  have "Graph_Append d rnd now '''' nd w = (Ok (toGraphNode key n), w')"
    using o none n set
    by (simp add: Graph_Append_def createFirstNode_def nd'_def [symmetric] io_defs del: NewDag_sel cong: if_cong) (simp add: io_defs env del: NewDag_sel)
  moreover have "GetRoot ?da ?a w' = Ok (Some n, key)" using root(1) sel(2) by simp
  ultimately show ?thesis
    using sv sel nd' kt by (intro exI [of _ key] exI [of _ n] exI [of _ w'] exI [of _ nms]) simp
qed

text \<open>
  C18: a root that cannot be read is replaced.  An owner posts to the current root of a timeline, whose name leads to a stored root as
  ever, but reading that root fails, with whatever error.  The post does not fail: it is made a new root, with number 1
  and no previous node, to which the root's name leads from then on, so that the timeline consists of this post alone; what was
  posted before stays in the store, but is not reached from the address any more.
\<close>

theorem post_replaces_root:
  assumes own: "owner_graph E ns k d" and sign: "can_sign E k" and now: "datetime_ok now" and texts: "texts_ok nd"
    and branch: "ndBranch nd \<noteq> ''''" and man: "managed E w (Addr (gAddr d))"
    and root: "rs_Resolve (gDa d) (getRootNodeName (gDa d) (Addr (gAddr d))) w = Ok rk" and fails: "getNodeByKey (gDa d) rk w = Err er"
  shows "\<exists>key n w'. Graph_Append d rnd now '''' nd w = (Ok (toGraphNode key n), w')
    \<and> nData n = ndData nd \<and> nSeq n = 1 \<and> nPrevious n = ''''
    \<and> GetRoot (gDa d) (Addr (gAddr d)) w' = Ok (Some n, key)
    \<and> All d w' yld (newIterator '''' '''' (ndBranch nd)) = Some (Ok [toGraphNode key n])
    \<and> (\<forall>k. k \<noteq> key \<longrightarrow> dt_Get (gDa d) k w' = dt_Get (gDa d) k w)"
proof -
  have da: "gDa d = NewDag E ns" using owner_graphD [OF own] by blast
  obtain er' where none: "GetRoot (NewDag E ns) (Addr (gAddr d)) w = Err er'"
    using root fails unfolding da by (simp add: GetRoot_def resolveRootNodeKey_def del: NewDag_sel)
  from createFirstNode_posted [OF own sign now texts branch man none, of rnd]
  obtain key n w' nms where app: "Graph_Append d rnd now '''' nd w = (Ok (toGraphNode key n), w')"
    and sv: "saved (NewDag E ns) (hexHash E) n nms w key w'" and n: "nData n = ndData nd" "nSeq n = 1" "key \<noteq> ''''"
    and post: "posted E d (ndBranch nd) w' [(key, n)]" and got: "GetRoot (NewDag E ns) (Addr (gAddr d)) w' = Ok (Some n, key)"
    by blast
  from post got obtain "timeline d w' key (ndBranch nd) [(key, n)]" by (auto simp: posted_def da simp del: NewDag_sel)
  moreover from this have "nPrevious n = ''''" by (auto simp: timeline_def)
  moreover have "All d w' yld (newIterator '''' '''' (ndBranch nd)) = Some (Ok (take_yield yld (items [(key, n)])))"
    by (rule All_root [OF got [folded da]]) fact+
  moreover have "dt_Get (gDa d) k w' = dt_Get (gDa d) k w" if "k \<noteq> key" for k using sv that by (simp add: saved_def da del: NewDag_sel)
  ultimately show ?thesis using app n got da by (intro exI [of _ key] exI [of _ n] exI [of _ w']) (simp del: NewDag_sel)
qed

section \<open>Runs\<close>

text \<open>Posts one after the other, each under the current root; the first failure ends the run.\<close>

type_synonym post = "bytes \<times> datetime \<times> NodeData"

fun post_all :: "'w Graph \<Rightarrow> post list \<Rightarrow> (GraphNode list, 'w) io" where
  "post_all d [] = return_io []"
| "post_all d ((rnd, now, nd) # ps) =
     bind_io (Graph_Append d rnd now '''' nd) (\<lambda>g.
     bind_io (post_all d ps) (\<lambda>gs. return_io (g # gs)))"

text \<open>
  No post of the run has the SHA-256 digest of another stored value: the value it stores was not
  there or is the same.
\<close>

fun no_collision :: "local_world Graph \<Rightarrow> post list \<Rightarrow> local_world \<Rightarrow> bool" where
  "no_collision d [] w = True"
| "no_collision d ((rnd, now, nd) # ps) w =
     (case Graph_Append d rnd now '''' nd w of
        (Ok g, w') \<Rightarrow> no_replace w (gnKey g) w' \<and> no_collision d ps w'
      | _ \<Rightarrow> True)"

definition post_ok :: "string \<Rightarrow> post \<Rightarrow> bool" where
  "post_ok b p = (case p of (rnd, now, nd) \<Rightarrow> datetime_ok now \<and> texts_ok nd \<and> ndBranch nd = b)"

text \<open>The posts as nodes of the graph, numbered from \<open>m\<close>.\<close>

definition listed :: "nat \<Rightarrow> post list \<Rightarrow> GraphNode list \<Rightarrow> bool" where
  "listed m ps gs \<longleftrightarrow> map gnData gs = map (\<lambda>(rnd, now, nd). ndData nd) ps
     \<and> map gnSeq gs = map of_nat [m..<m + length ps]"

lemma toGraphNode_sel [simp]:
  "gnKey (toGraphNode k n) = k" "gnData (toGraphNode k n) = nData n" "gnSeq (toGraphNode k n) = nSeq n"
  by (simp_all add: toGraphNode_def)

lemma listed_simps [simp]:
  "listed m [] gs \<longleftrightarrow> gs = []"
  "listed m ((rnd, now, nd) # ps) (g # gs) \<longleftrightarrow>
     gnData g = ndData nd \<and> gnSeq g = of_nat m \<and> listed (Suc m) ps gs"
proof -
  have "[m..<m + length (p # ps)] = m # [Suc m..<Suc m + length ps]" for p :: post
    by (simp add: upt_conv_Cons del: upt_Suc)
  then show "listed m ((rnd, now, nd) # ps) (g # gs) \<longleftrightarrow>
      gnData g = ndData nd \<and> gnSeq g = of_nat m \<and> listed (Suc m) ps gs"
    unfolding listed_def by auto
qed (simp add: listed_def)

lemma post_all_Cons:
  assumes "Graph_Append d rnd now '''' nd w = (Ok g, w1)" and "post_all d ps w1 = (Ok gs, w')"
  shows "post_all d ((rnd, now, nd) # ps) w = (Ok (g # gs), w')"
  using assms by (simp add: io_defs)

lemma post_all_posted:
  assumes own: "owner_graph E ns k d" and sign: "can_sign E k"
  shows "\<lbrakk>list_all (post_ok b) ps; posted E d b w kns; length kns + length ps < 2 ^ 32; no_collision d ps w\<rbrakk>
    \<Longrightarrow> \<exists>gs w' kns'. post_all d ps w = (Ok gs, w') \<and> listed (Suc (length kns)) ps gs
      \<and> posted E d b w' kns' \<and> items kns' = rev gs @ items kns"
proof (induction ps arbitrary: w kns)
  case Nil
  then show ?case by auto
next
  case (Cons p ps)
  obtain rnd now nd where p: "p = (rnd, now, nd)" by (cases p)
  have nd: "datetime_ok now" "texts_ok nd" "ndBranch nd = b"
    using Cons.prems(1) p by (simp_all add: post_ok_def)
  have "length kns < 2 ^ 32 - 1" using Cons.prems(3) by simp
  from posted_step [OF own sign nd(1,2) _ this, of w rnd] Cons.prems(2) nd(3)
  obtain key n w1 where app: "Graph_Append d rnd now '''' nd w = (Ok (toGraphNode key n), w1)"
    and n: "nData n = ndData nd" "nSeq n = of_nat (Suc (length kns))"
    and post: "no_replace w key w1 \<Longrightarrow> posted E d b w1 ((key, n) # kns)" by blast
  have nc: "no_replace w key w1" "no_collision d ps w1" using Cons.prems(4) p app by simp_all
  obtain gs w' kns' where rest: "post_all d ps w1 = (Ok gs, w')" "listed (Suc (Suc (length kns))) ps gs"
      "posted E d b w' kns'" "items kns' = rev gs @ items ((key, n) # kns)"
    using Cons.IH [OF _ post [OF nc(1)] _ nc(2)] Cons.prems(1,3) by auto
  then show ?case
    unfolding p using post_all_Cons [OF app rest(1)] n
    by (intro exI [of _ "toGraphNode key n # gs"] exI [of _ w'] exI [of _ kns']) simp
qed

text \<open>The owner's address is managed and has no root.\<close>

definition empty_timeline :: "crypto_env \<Rightarrow> local_world Graph \<Rightarrow> local_world \<Rightarrow> bool" where
  "empty_timeline E d w \<longleftrightarrow> managed E w (Addr (gAddr d))
     \<and> (\<exists>er. GetRoot (gDa d) (Addr (gAddr d)) w = Err er)"

lemma All_posted:
  assumes "posted E d b w kns"
  shows "All d w yld (newIterator '''' '''' b) = Some (Ok (take_yield yld (items kns)))"
  using assms All_root by (fastforce simp: posted_def)

lemma All_empty:
  assumes "empty_timeline E d w"
  shows "All d w yld (newIterator '''' '''' b) = Some (Ok [])"
proof -
  obtain er where "GetRoot (gDa d) (Addr (gAddr d)) w = Err er" using assms by (auto simp: empty_timeline_def)
  then have "Last d w (newIterator '''' '''' b) = (Err GraphErrNotFound, newIterator '''' '''' b)"
    by (simp add: Last_def newIterator_def)
  then show ?thesis unfolding All_def by (subst all_loop.simps) simp
qed

lemma empty_run:
  assumes own: "owner_graph E ns k d" and sign: "can_sign E k" and empty: "empty_timeline E d w"
    and "b \<noteq> ''''" and "list_all (post_ok b) ps" and "length ps < 2 ^ 32" and "no_collision d ps w"
  shows "\<exists>gs w'. post_all d ps w = (Ok gs, w') \<and> listed 1 ps gs
    \<and> (\<forall>yld. All d w' yld (newIterator '''' '''' b) = Some (Ok (take_yield yld (rev gs))))"
proof (cases ps)
  case Nil
  then show ?thesis using All_empty [OF empty] by simp
next
  case (Cons p ps')
  obtain rnd now nd where p: "p = (rnd, now, nd)" by (cases p)
  have nd: "datetime_ok now" "texts_ok nd" "ndBranch nd = b"
    using assms(5) Cons p by (simp_all add: post_ok_def)
  obtain er where none: "GetRoot (NewDag E ns) (Addr (gAddr d)) w = Err er"
    using empty owner_graphD(4) [OF own] by (auto simp: empty_timeline_def)
  obtain key n w1 where app: "Graph_Append d rnd now '''' nd w = (Ok (toGraphNode key n), w1)"
    and n: "nData n = ndData nd" "nSeq n = 1" and post: "posted E d b w1 [(key, n)]"
    using createFirstNode_posted [OF own sign nd(1,2) _ _ none, of rnd] empty assms(4) nd(3)
    by (auto simp: empty_timeline_def)
  have "no_collision d ps' w1" using assms(7) Cons p app by simp
  then obtain gs w' kns' where rest: "post_all d ps' w1 = (Ok gs, w')" "listed 2 ps' gs"
      "posted E d b w' kns'" "items kns' = rev gs @ items [(key, n)]"
    using post_all_posted [OF own sign _ post, of ps'] assms(5,6) Cons by (auto simp: numeral_2_eq_2)
  have "All d w' yld (newIterator '''' '''' b) = Some (Ok (take_yield yld (rev (toGraphNode key n # gs))))" for yld
    using All_posted [OF rest(3), of yld] rest(4) by simp
  with post_all_Cons [OF app rest(1)] rest(2) n show ?thesis
    unfolding Cons p by (intro exI [of _ "toGraphNode key n # gs"]) (simp add: numeral_2_eq_2)
qed

section \<open>Properties\<close>

text \<open>
  C1: the timeline of an owner.  On an empty timeline, any number of posts to a branch (fewer than
  2^32) all succeed when no two stored values have the same SHA-256 digest; the nodes they return
  carry the data of the posts and are numbered from 1; and the iterator over the branch then yields
  exactly these nodes, newest first, until \<open>yield\<close> stops it.
\<close>

theorem owner_timeline:
  assumes "owner_graph E ns k d" and "can_sign E k" and "empty_timeline E d w"
    and "b \<noteq> ''''" and "list_all (post_ok b) ps" and "length ps < 2 ^ 32" and "no_collision d ps w"
  shows "\<exists>gs w'. post_all d ps w = (Ok gs, w')
    \<and> map gnData gs = map (\<lambda>(rnd, now, nd). ndData nd) ps
    \<and> map gnSeq gs = map of_nat [1..<1 + length ps]
    \<and> (\<forall>yld. All d w' yld (GetIterator d '''' b '''') = Some (Ok (take_yield yld (rev gs))))"
  using empty_run [OF assms] by (simp only: listed_def GetIterator_def) blast

text \<open>The graph of the run.\<close>

definition sample_graph :: "local_world Graph" where
  "sample_graph = \<lparr>gName = '''', gMetaData = '''', gAddr = sample_address, gDa = sample_dag\<rparr>"

lemma sample_owner: "owner_graph sample_env ''ns'' sample_key sample_graph"
  using sample_sizes sample_signs sample_fits sample_address
  by (simp add: owner_graph_def sample_graph_def sample_dag_def sample_key_def)

lemma sample_can_sign: "can_sign sample_env k"
  by (simp add: can_sign_def sample_env_def)

lemma sample_GetRoot: "\<exists>er. GetRoot sample_dag (Addr sample_address) sample_world = Err er"
  using sample_no_root by blast

lemma sample_empty: "empty_timeline sample_env sample_graph sample_world"
  using sample_managed sample_GetRoot by (simp add: empty_timeline_def sample_graph_def)

definition sample_time :: datetime where
  "sample_time = \<lparr>dtYear = 2024, dtMonth = 2, dtDay = 29, dtHour = 23, dtMinute = 59, dtSecond = 59\<rparr>"

definition sample_post :: "bytes \<Rightarrow> post" where
  "sample_post data = ([], sample_time, \<lparr>ndAddress = '''', ndData = data, ndBranch = ''main'', ndBranches = [], ndProperties = []\<rparr>)"

lemma sample_post_ok: "post_ok ''main'' (sample_post data)"
  by (simp add: post_ok_def sample_post_def texts_ok_def) code_simp

lemma sample_two_posts: "no_collision sample_graph [sample_post x, sample_post y] sample_world"
proof -
  note own = sample_owner and ok = sample_post_ok [unfolded post_ok_def sample_post_def prod.case]
  have sel: "gAddr sample_graph = sample_address" "gDa sample_graph = sample_dag"
    by (simp_all add: sample_graph_def)
  let ?nd = "\<lambda>data. \<lparr>ndAddress = '''', ndData = data, ndBranch = ''main'', ndBranches = [], ndProperties = []\<rparr> :: NodeData"
  obtain er where none: "GetRoot (NewDag sample_env ''ns'') (Addr (gAddr sample_graph)) sample_world = Err er"
    using sample_GetRoot by (auto simp: sel sample_dag_def)
  obtain key n w1 nms where app: "Graph_Append sample_graph [] sample_time '''' (?nd x) sample_world = (Ok (toGraphNode key n), w1)"
    and sv: "saved sample_dag (hexHash sample_env) n nms sample_world key w1" and n: "nSeq n = 1"
    and post: "posted sample_env sample_graph ''main'' w1 [(key, n)]"
    using createFirstNode_posted [OF own sample_can_sign, of sample_time "?nd x", OF _ _ _ _ none, of "[]"] ok [of x] sample_managed
    by (auto simp: sel sample_dag_def)
  obtain key2 n2 w2 nms2 where app2: "Graph_Append sample_graph [] sample_time '''' (?nd y) w1 = (Ok (toGraphNode key2 n2), w2)"
    and sv2: "saved sample_dag (hexHash sample_env) n2 nms2 w1 key2 w2" and n2: "nSeq n2 = 2"
    using posted_step [OF own sample_can_sign, of sample_time "?nd y" w1 "[(key, n)]" "[]"] ok [of y] post
    by (auto simp: sample_dag_def)
  have "key2 \<noteq> key"
    using sv sv2 n n2 sample_hexHash_neq [of n2 _ n _] by (auto simp: saved_def sample_digits)
  then have "dt_Get sample_dag key2 w1 = Err DatastoreErrNotFound"
    using sv sample_world_empty by (simp add: saved_def)
  then have "pairs (ds w1) key2 = None"
    by (simp add: sample_dag_def local_Get_def split: option.splits)
  moreover have "pairs (ds sample_world) key = None"
    by (simp add: sample_world_eq new_world_def NewLocalFileStore_def)
  ultimately show ?thesis using app app2 by (simp add: sample_post_def no_replace_def)
qed

text \<open>The sample timeline with a root of which only the first byte is left.\<close>

definition cut_world :: local_world where
  "cut_world = sample_world1\<lparr>ds := (ds sample_world1)\<lparr>pairs := (pairs (ds sample_world1))(sample_key0 \<mapsto> [123])\<rparr>\<rparr>"

lemma cut_json: "FromJson NewNode [123] = Err ErrJson"
  by code_simp

theorem post_replaces_root_witness:
  "\<exists>key n w'. Graph_Append sample_graph [] sample_time '''' \<lparr>ndAddress = '''', ndData = [7], ndBranch = ''main'', ndBranches = [], ndProperties = []\<rparr>
       cut_world = (Ok (toGraphNode key n), w')
     \<and> GetRoot sample_dag (Addr sample_address) sample_world1 = Ok (Some sample_root, sample_key0)
     \<and> GetRoot sample_dag (Addr sample_address) w' = Ok (Some n, key) \<and> nData n = [7]"
proof -
  let ?nd = "\<lparr>ndAddress = '''', ndData = [7], ndBranch = ''main'', ndBranches = [], ndProperties = []\<rparr> :: NodeData"
  have sel: "gAddr sample_graph = sample_address" "gDa sample_graph = sample_dag" by (simp_all add: sample_graph_def)
  have ok: "datetime_ok sample_time" "texts_ok ?nd" using sample_post_ok [of "[7]"] by (simp_all add: post_ok_def sample_post_def)
  have root: "GetRoot sample_dag (Addr sample_address) sample_world1 = Ok (Some sample_root, sample_key0)"
    using local_dag.SetRoot_root(1) [OF sample_SetRoot1 [unfolded sample_dag_def] sample_root_ok]
    by (simp add: sample_dag_def sample_root_def)
  have resolve: "rs_Resolve sample_dag n cut_world = rs_Resolve sample_dag n sample_world1" for n
    by (simp add: sample_dag_def cut_world_def)
  have name: "rs_Resolve sample_dag (getRootNodeName sample_dag (Addr sample_address)) cut_world = Ok sample_key0"
    using root unfolding resolve by (auto simp: GetRoot_def resolveRootNodeKey_def)
  have "dt_Get sample_dag sample_key0 cut_world = Ok (Reader [123] None)"
    by (simp add: sample_dag_def cut_world_def local_Get_def)
  then have cut: "getNodeByKey sample_dag sample_key0 cut_world = Err ErrJson"
    by (simp add: getNodeByKey_stored decode_node_def cut_json)
  have "managed sample_env cut_world (Addr sample_address)"
    using sample_managed1 managed_addresses [of cut_world sample_world1] by (simp add: cut_world_def)
  then show ?thesis
    using post_replaces_root [OF sample_owner sample_can_sign ok _ _ name [folded sel] cut [folded sel], of "[]" "\<lambda>_. True"] root
    by (auto simp: sel)
qed

theorem owner_timeline_witness:
  "\<exists>g1 g2 w'. post_all sample_graph [sample_post [7], sample_post [8]] sample_world = (Ok [g1, g2], w')
     \<and> gnData g1 = [7] \<and> gnData g2 = [8] \<and> gnSeq g1 = 1 \<and> gnSeq g2 = 2
     \<and> All sample_graph w' (\<lambda>_. True) (GetIterator sample_graph '''' ''main'' '''') = Some (Ok [g2, g1])"
proof -
  have "list_all (post_ok ''main'') [sample_post [7], sample_post [8]]" by (simp add: sample_post_ok)
  from owner_timeline [OF sample_owner sample_can_sign sample_empty _ this _ sample_two_posts]
  obtain gs w' where run: "post_all sample_graph [sample_post [7], sample_post [8]] sample_world = (Ok gs, w')"
    and data: "map gnData gs = [[7], [8]]" and seqs: "map gnSeq gs = [1, 2]"
    and all: "All sample_graph w' (\<lambda>_. True) (GetIterator sample_graph '''' ''main'' '''') = Some (Ok (rev gs))"
    by (auto simp: sample_post_def upt_rec)
  obtain g1 g2 where "gs = [g1, g2]" using data by (auto simp: map_eq_Cons_conv)
  with run data seqs all show ?thesis by auto
qed

text \<open>
  C11: what a post becomes.  When \<open>Append\<close> of an owner returns a node, \<open>Get\<close> finds exactly
  that node under the key it carries, it carries the data and the branch that were posted, it is the
  last node of its branch, and it has no properties, whatever properties were posted.
\<close>

theorem posted_node_found:
  assumes own: "owner_graph E ns k d" and app: "Graph_Append d rnd now rk nd w = (Ok g, w')" and "rk \<noteq> ''''"
    and "datetime_ok now" and "texts_ok nd" and "utf8_valid rk"
    and "\<And>n lk. GetLast (gDa d) rk (ndBranch nd) w = Ok (n, lk) \<Longrightarrow> utf8_valid lk"
    and "no_replace w (gnKey g) w'"
  shows "Graph_Get d (gnKey g) w' = Ok (g, True, None)
    \<and> gnData g = ndData nd \<and> gnBranch g = ndBranch nd \<and> gnProperties g = []
    \<and> (\<exists>n. GetLast (gDa d) rk (ndBranch nd) w' = Ok (Some n, gnKey g) \<and> toGraphNode (gnKey g) n = g)"
proof -
  note o = owner_graphD [OF own]
  have "append_at d rnd now rk nd w = (Ok g, w')" using app Graph_Append_owner(1) [OF own assms(3)] by simp
  then obtain lst lk n seqn where last: "GetLast (gDa d) rk (ndBranch nd) w = Ok (Some lst, lk)"
    and n: "createNode E rnd now nd rk lk (gAddr d) seqn = Ok n"
    and key: "dag_Append (NewDag E ns) n rk w = (Ok (gnKey g), w')" and g: "g = toGraphNode (gnKey g) n"
    using append_at_Ok o(4) by fastforce
  note sel = createNode_sel [OF own n]
  have ok: "node_ok n" by (rule createNode_ok [OF own n assms(4-6) assms(7) [OF last]])
  obtain nms where sv: "saved (NewDag E ns) (hexHash E) n nms w (gnKey g) w'"
    using local_dag.append_saved [OF key] by blast
  note head = local_dag.append_head [OF key ok no_replace_clash [OF sv assms(8)]]
  have "Graph_Get d (gnKey g) w' = Ok (g, True, None)"
    using head(1) o(4) g by (simp add: Graph_Get_def graph_get_def dag_Get_def toGraphNode_ptr_def del: NewDag_sel)
  moreover have "gnData g = ndData nd" "gnBranch g = ndBranch nd" "gnProperties g = []"
    using sel by (subst g, simp add: toGraphNode_def)+
  moreover have "GetLast (gDa d) rk (ndBranch nd) w' = Ok (Some n, gnKey g)"
    using head(2) sel(4) o(4) by simp
  ultimately show ?thesis using g by auto
qed

theorem posted_node_found_witness:
  "\<exists>g w'. Graph_Append sample_graph [] sample_time sample_key0
       \<lparr>ndAddress = '''', ndData = [7], ndBranch = ''main'', ndBranches = [], ndProperties = [(''k'', ''v'')]\<rparr> sample_world1 = (Ok g, w')
     \<and> Graph_Get sample_graph (gnKey g) w' = Ok (g, True, None) \<and> gnData g = [7] \<and> gnProperties g = []"
proof -
  let ?nd = "\<lparr>ndAddress = '''', ndData = [7], ndBranch = ''main'', ndBranches = [], ndProperties = [(''k'', ''v'')]\<rparr> :: NodeData"
  have sel: "gAddr sample_graph = sample_address" "gDa sample_graph = NewDag sample_env ''ns''"
    by (simp_all add: sample_graph_def sample_dag_def)
  have root: "nAddress sample_root = Addr sample_address" "''main'' \<in> set (nBranches sample_root)" "nSeq sample_root = 1"
      "nBranch sample_root = ''main''"
    by (simp_all add: sample_root_def)
  have time: "datetime_ok sample_time" and texts: "texts_ok ?nd"
    using sample_post_ok [of "[]"] by (simp_all add: post_ok_def sample_post_def texts_ok_def)
  have last: "GetLast (NewDag sample_env ''ns'') sample_key0 ''main'' sample_world1 = Ok (Some sample_root, sample_key0)"
    using sample_last [of "''main''"] by (simp add: sample_dag_def)
  obtain g w' where at: "append_at sample_graph [] sample_time sample_key0 ?nd sample_world1 = (Ok g, w')"
    using append_at_succeeds [OF sample_owner sample_can_sign time sample_root_at [unfolded sample_dag_def], of ?nd, OF _ _ _ _ _
        sample_path [unfolded sample_dag_def], of sample_root sample_key0 "[]"] last root sample_managed1
    by (auto simp: sel)
  obtain n where n: "createNode sample_env [] sample_time ?nd sample_key0 sample_key0 sample_address 2 = Ok n"
    and key: "dag_Append (NewDag sample_env ''ns'') n sample_key0 sample_world1 = (Ok (gnKey g), w')"
    using append_at_Ok [OF at] last root by (auto simp: sel)
  have "nSeq n = 2" using createNode_sel(1) [OF sample_owner, of "[]" sample_time ?nd sample_key0 sample_key0 2 n] n
    by (simp add: sel)
  have "gnKey g \<noteq> sample_key0"
  proof -
    obtain js where "ToJson n = Ok js" "gnKey g = hexHash sample_env js"
      using local_dag.append_saved [OF key] by (auto simp: saved_def)
    moreover obtain js0 where "ToJson sample_root = Ok js0" "sample_key0 = hexHash sample_env js0"
      using sample_key0_hash by blast
    ultimately show ?thesis
      using sample_hexHash_neq [of n js sample_root js0] root(3) \<open>nSeq n = 2\<close> by (simp add: sample_digits)
  qed
  then have "no_replace sample_world1 (gnKey g) w'"
    using sample_world1_get [of "gnKey g"]
    by (auto simp: no_replace_def sample_dag_def local_Get_def split: option.splits)
  moreover have "Graph_Append sample_graph [] sample_time sample_key0 ?nd sample_world1 = (Ok g, w')"
    using at Graph_Append_owner(1) [OF sample_owner sample_key0_text(2)] by simp
  ultimately show ?thesis
    using posted_node_found [OF sample_owner _ sample_key0_text(2) time texts sample_key0_text(1), of "[]" sample_world1 g w'] last
    by (auto simp: sel)
qed

text \<open>
  C29: the sequence numbers of a branch run out.  When the last node of a branch has the number -1,
  that is after 2^32 - 1 nodes, every further append of the owner is refused with
  \<open>ErrInvalidBranchSeq\<close> (the next number wraps to the forbidden 0) and nothing changes.
\<close>

theorem sequence_exhausted:
  assumes own: "owner_graph E ns k d" and "can_sign E k" and "datetime_ok now" and "rk \<noteq> ''''"
    and last: "GetLast (gDa d) rk (ndBranch nd) w = Ok (Some lst, lk)" and "nSeq lst = - 1" and "nBranch lst = ndBranch nd"
  shows "Graph_Append d rnd now rk nd w = (Err ErrInvalidBranchSeq, w)"
proof -
  note o = owner_graphD [OF own]
  obtain n where n: "createNode E rnd now nd rk lk (gAddr d) 0 = Ok n"
    using createNode_succeeds [OF own assms(2)] by blast
  obtain n1 where n1: "createNode E rnd now nd rk lk (gAddr d) 1 = Ok n1"
    using createNode_succeeds [OF own assms(2)] by blast
  have branch: "ndBranch nd \<noteq> ''''" using last by (auto simp: GetLast_def)
  have "nAddress n = nAddress n1" "nPubKey n = nPubKey n1" "nTimestamp n = nTimestamp n1"
    using createNode_Ok [OF own n] createNode_Ok [OF own n1] by (auto simp: draft_def NewNode_def)
  then have "verifyAddress E n = Ok (True, None)" "verifyTimeStamp n"
    using createNode_authentic [OF own n1 assms(3) _ branch]
    by (auto simp: verifyAddress_def authentic_def verifyTimeStamp_def split: option.splits)
  then have "VerifyNode (gDa d) n rk True w = Err ErrInvalidBranchSeq"
    using createNode_sel [OF own n] o(4) by (simp add: VerifyNode_def verify_self_def)
  then have "dag_Append (gDa d) n rk w = (Err ErrInvalidBranchSeq, w)"
    by (simp add: dag_Append_def translateError_def)
  then show ?thesis
    using Graph_Append_owner(1) [OF own assms(4)] last n assms(6,7) o(4)
    by (simp add: append_at_def io_defs)
qed

theorem sequence_exhausted_witness:
  "\<exists>key w. Graph_Append sample_graph [] sample_time key
       \<lparr>ndAddress = '''', ndData = [7], ndBranch = ''main'', ndBranches = [], ndProperties = []\<rparr> w = (Err ErrInvalidBranchSeq, w)
     \<and> GetRoot sample_dag (Addr sample_address) w = Ok (Some (signed_node (- 1) '''' ''main'' [''main'']), key)"
proof -
  let ?n = "signed_node (- 1) '''' ''main'' [''main'']"
  let ?nd = "\<lparr>ndAddress = '''', ndData = [7], ndBranch = ''main'', ndBranches = [], ndProperties = []\<rparr> :: NodeData"
  have sel: "gAddr sample_graph = sample_address" "gDa sample_graph = NewDag sample_env ''ns''"
    by (simp_all add: sample_graph_def sample_dag_def)
  have ok: "node_ok ?n" by (rule signed_node_ok) simp_all
  obtain er where none: "GetRoot (NewDag sample_env ''ns'') (Addr sample_address) sample_world = Err er"
    using sample_GetRoot by (auto simp: sample_dag_def)
  obtain key w where "saveRootNode (NewDag sample_env ''ns'') ?n sample_world = (Ok key, w)"
    using saveRootNode_succeeds [of sample_env sample_world ?n "''ns''"] sample_managed by auto
  then have set: "SetRoot (NewDag sample_env ''ns'') ?n sample_world = (Ok key, w)"
    using none by (simp add: SetRoot_def hasBranch_def)
  have "key \<noteq> ''''"
    using local_dag.SetRoot_saved [OF set] hexHash_text [OF sample_sizes] by (auto simp: saved_def)
  have "GetLast (gDa sample_graph) key (ndBranch ?nd) w = Ok (Some ?n, key)"
    using local_dag.SetRoot_root(2) [OF set ok, of "''main''"] by (simp add: sel)
  from sequence_exhausted [OF sample_owner sample_can_sign _ \<open>key \<noteq> ''''\<close> this, of sample_time "[]"]
  have "Graph_Append sample_graph [] sample_time key ?nd w = (Err ErrInvalidBranchSeq, w)"
    using sample_post_ok [of "[]"] by (simp add: post_ok_def sample_post_def)
  then show ?thesis
    using local_dag.SetRoot_root(1) [OF set ok] by (auto simp: sample_dag_def)
qed

text \<open>
  A missing node is an error.  \<open>Get\<close> never reports a missing node as absent without an
  error: for a key that is not stored it returns \<open>ErrNotFound\<close>, and in no case does it return a false
  flag with a nil error.
\<close>

theorem graph_get_missing:
  "Graph_Get d key w \<noteq> Ok (g, False, None)
   \<and> Graph_Get (d\<lparr>gDa := NewDag E ns\<rparr>) key (v\<lparr>ds := NewLocalFileStore\<rparr>)
     = Ok (GraphNode_zero, False, Some GraphErrNotFound)"
proof -
  have "graph_get d key w \<noteq> Err ErrNodeNotFound"
    by (cases "dag_Get (gDa d) key w") (auto simp: graph_get_def graph_translateError_def)
  then have "Graph_Get d key w \<noteq> Ok (g, False, None)"
    by (cases "graph_get d key w") (auto simp: Graph_Get_def)
  then show ?thesis
    by (simp add: Graph_Get_def graph_get_def dag_Get_def getNodeByKey_def NewLocalFileStore_def local_Get_def
        translateError_def graph_translateError_def)
qed

text \<open>
  An iterator that starts at a node skips it.  With a key to start from, the iterator
  yields the nodes below that node and not the node itself, whatever the root and the branch it was
  made for.
\<close>

theorem iterator_from:
  assumes "from \<noteq> ''''" and "chain (gDa d) w from ((from, n) # kns)"
  shows "All d w yld (GetIterator d rk b from) = Some (Ok (take_yield yld (items kns)))"
proof -
  have n: "dag_Get (gDa d) from w = Ok (Some n)" and kns: "chain (gDa d) w (nPrevious n) kns"
    using assms(2) by (auto simp: dag_Get_def)
  show ?thesis
  proof (cases kns)
    case Nil
    then have "Last d w (newIterator from rk b) = (Ok None, newIterator from rk b)"
      using n kns assms(1) by (simp add: Last_def newIterator_def getNext_def it_found_def)
    then show ?thesis using Nil by (simp add: All_def GetIterator_def) (subst all_loop.simps, simp)
  next
    case (Cons kn kns')
    obtain k' n' where kn: "kn = (k', n')" by (cases kn)
    have "Last d w (newIterator from rk b)
        = (Ok (Some (toGraphNode k' n')), (newIterator from rk b)\<lparr>it_previous := nPrevious n'\<rparr>)"
      using n kns assms(1) Cons kn
      by (auto simp: Last_def newIterator_def getNext_def it_found_def graph_get_def dag_Get_def)
    with all_loop_chain [of d w n' kns' "(newIterator from rk b)\<lparr>it_previous := nPrevious n'\<rparr>" yld k'] kns Cons kn
    show ?thesis by (simp add: All_def GetIterator_def)
  qed
qed

theorem iterator_from_witness:
  "\<exists>key w'. dag_Append sample_dag sample_child sample_key0 sample_world1 = (Ok key, w')
     \<and> All sample_graph w' (\<lambda>_. True) (GetIterator sample_graph '''' ''x'' key)
       = Some (Ok [toGraphNode sample_key0 sample_root])"
proof -
  obtain key w' where app: "dag_Append sample_dag sample_child sample_key0 sample_world1 = (Ok key, w')"
    by (rule sample_child_append)
  obtain nms where sv: "saved (NewDag sample_env ''ns'') (hexHash sample_env) sample_child nms sample_world1 key w'"
    using local_dag.append_saved [OF app [unfolded sample_dag_def]] by blast
  have "key \<noteq> ''''" using sv hexHash_text [OF sample_sizes] by (auto simp: saved_def)
  moreover have "getNodeByKey sample_dag key w' = Ok (Some sample_child)"
      "getNodeByKey sample_dag sample_key0 w' = Ok (Some sample_root)"
    using local_dag.saved_getNode [OF sv sample_child_ok] sample_root_at
      local_dag.saved_getNode_keeps [OF sv sample_child_clash [unfolded sample_dag_def], of sample_key0]
    by (simp_all add: sample_dag_def)
  moreover have "nPrevious sample_child = sample_key0" "nPrevious sample_root = ''''"
    by (simp_all add: sample_child_def sample_root_def)
  ultimately have "chain (gDa sample_graph) w' key [(key, sample_child), (sample_key0, sample_root)]"
    by (simp add: sample_graph_def)
  from iterator_from [OF \<open>key \<noteq> ''''\<close> this] app show ?thesis by auto
qed

end
