(* ===== verification/DagRace.thy ===== *)
theory DagRace
  imports DagSpec
begin

text \<open>
  \<^verbatim>\<open>Dag.Append\<close> is not atomic: it reads the head of the branch to verify a node, and writes the node later.  Here
  any number of calls run at the same time, each in its two parts, on one store and one resolver in memory.
\<close>

section \<open>Calls in two parts\<close>

datatype append_call =
    Calling Node string            \<comment> \<open>the node and the key of the branch root\<close>
  | Verified Node string           \<comment> \<open>after \<open>VerifyNode\<close>, before \<open>saveNode\<close>\<close>
  | Returned "string result"

text \<open>One call goes on; which one is not determined.\<close>

inductive append_step :: "'w dag \<Rightarrow> append_call list \<times> 'w \<Rightarrow> append_call list \<times> 'w \<Rightarrow> bool" for da where
  verified: "i < length cs \<Longrightarrow> cs ! i = Calling node rk \<Longrightarrow> VerifyNode da node rk True w = Ok () \<Longrightarrow>
     append_step da (cs, w) (cs[i := Verified node rk], w)"
| refused: "i < length cs \<Longrightarrow> cs ! i = Calling node rk \<Longrightarrow> VerifyNode da node rk True w = Err er \<Longrightarrow>
     append_step da (cs, w) (cs[i := Returned (Err (translateError er))], w)"
| panicked: "i < length cs \<Longrightarrow> cs ! i = Calling node rk \<Longrightarrow> VerifyNode da node rk True w = Panic \<Longrightarrow>
     append_step da (cs, w) (cs[i := Returned Panic], w)"
| saved: "i < length cs \<Longrightarrow> cs ! i = Verified node rk \<Longrightarrow> saveNode da node rk w = (r, w') \<Longrightarrow>
     append_step da (cs, w) (cs[i := Returned r], w')"

abbreviation append_steps :: "'w dag \<Rightarrow> append_call list \<times> 'w \<Rightarrow> append_call list \<times> 'w \<Rightarrow> bool" where
  "append_steps da \<equiv> (append_step da)\<^sup>*\<^sup>*"

text \<open>A call that runs alone is \<open>Append\<close>.\<close>

lemma append_alone:
  assumes "i < length cs" and "cs ! i = Calling node rk" and "dag_Append da node rk w = (r, w')"
  shows "append_steps da (cs, w) (cs[i := Returned r], w')"
proof (cases "VerifyNode da node rk True w")
  case (Ok u)
  have "append_step da (cs, w) (cs[i := Verified node rk], w)"
    using assms(1,2) Ok by (intro verified) simp_all
  moreover have "append_step da (cs[i := Verified node rk], w) ((cs[i := Verified node rk])[i := Returned r], w')"
    using assms(1,3) Ok by (intro append_step.saved [where node = node and rk = rk]) (simp_all add: dag_Append_def)
  ultimately show ?thesis by (simp add: converse_rtranclp_into_rtranclp)
next
  case (Err er)
  then have "append_step da (cs, w) (cs[i := Returned r], w')"
    using assms by (auto simp: dag_Append_def intro: refused)
  then show ?thesis by blast
next
  case Panic
  then have "append_step da (cs, w) (cs[i := Returned r], w')"
    using assms by (auto simp: dag_Append_def intro: panicked)
  then show ?thesis by blast
qed

text \<open>Both calls verify before one of them writes.\<close>

lemma race_schedule:
  assumes "VerifyNode da n1 rk True w = Ok ()" and "VerifyNode da n2 rk True w = Ok ()"
    and "saveNode da n1 rk w = (r1, w1)" and "saveNode da n2 rk w1 = (r2, w2)"
  shows "append_steps da ([Calling n1 rk, Calling n2 rk], w) ([Returned r1, Returned r2], w2)"
proof -
  have "append_step da ([Calling n1 rk, Calling n2 rk], w) ([Verified n1 rk, Calling n2 rk], w)"
    using verified [of 0 "[Calling n1 rk, Calling n2 rk]" n1 rk da w] assms(1) by simp
  moreover have "append_step da ([Verified n1 rk, Calling n2 rk], w) ([Verified n1 rk, Verified n2 rk], w)"
    using verified [of 1 "[Verified n1 rk, Calling n2 rk]" n2 rk da w] assms(2) by simp
  moreover have "append_step da ([Verified n1 rk, Verified n2 rk], w) ([Returned r1, Verified n2 rk], w1)"
    using append_step.saved [of 0 "[Verified n1 rk, Verified n2 rk]" n1 rk da w r1 w1] assms(3) by simp
  moreover have "append_step da ([Returned r1, Verified n2 rk], w1) ([Returned r1, Returned r2], w2)"
    using append_step.saved [of 1 "[Returned r1, Verified n2 rk]" n2 rk da w1 r2 w2] assms(4) by simp
  ultimately show ?thesis by (meson converse_rtranclp_into_rtranclp rtranclp.rtrancl_refl)
qed

section \<open>Two nodes a second apart\<close>

text \<open>A node of the sample owner that is a second older than \<open>signed_node\<close>.\<close>

definition older_node :: Node where
  "older_node = (case node_Sign sample_env []
       ((unsigned_node 2 sample_key0 ''main'' [])\<lparr>nTimestamp := ''2024-02-29T23:59:58Z''\<rparr>) sample_key of
     Ok n \<Rightarrow> n | _ \<Rightarrow> NewNode)"

definition newer_node :: Node where
  "newer_node = signed_node 2 sample_key0 ''main'' []"

lemma older_node_Sign:
  "node_Sign sample_env [] ((unsigned_node 2 sample_key0 ''main'' [])\<lparr>nTimestamp := ''2024-02-29T23:59:58Z''\<rparr>) sample_key
     = Ok older_node"
proof -
  let ?m = "(unsigned_node 2 sample_key0 ''main'' [])\<lparr>nTimestamp := ''2024-02-29T23:59:58Z''\<rparr>"
  obtain s where "Sign sample_env [] (sha256 sample_env (GetBytesForSigning ?m)) sample_key = Ok s"
    using sample_Sign by blast
  then show ?thesis by (simp add: older_node_def node_Sign_def)
qed

lemma node_Sign_sel:
  assumes "node_Sign E rnd m k = Ok n"
  shows "nSeq n = nSeq m" "nPrevious n = nPrevious m" "nBranch n = nBranch m" "nBranches n = nBranches m"
    "nAddress n = nAddress m" "nTimestamp n = nTimestamp m" and "node_ok m \<Longrightarrow> node_ok n"
  using assms by (auto simp: node_Sign_Ok node_ok_def)

lemma older_node_sel [simp]:
  "nSeq older_node = 2" "nPrevious older_node = sample_key0" "nBranch older_node = ''main''" "nBranches older_node = []"
  "nAddress older_node = Addr sample_address" "nTimestamp older_node = ''2024-02-29T23:59:58Z''"
  using node_Sign_sel [OF older_node_Sign] by (simp_all add: unsigned_node_def)

lemma newer_node_sel [simp]:
  "nSeq newer_node = 2" "nPrevious newer_node = sample_key0" "nBranch newer_node = ''main''" "nBranches newer_node = []"
  "nAddress newer_node = Addr sample_address" "nTimestamp newer_node = ''2024-02-29T23:59:59Z''"
  using node_Sign_sel [OF signed_node_Sign [of 2 sample_key0 "''main''" "[]"]]
  by (simp_all add: newer_node_def unsigned_node_def)

lemma older_node_authentic: "authentic sample_env older_node"
proof -
  have "Parse_RFC3339 ''2024-02-29T23:59:58Z'' \<noteq> None" by code_simp
  then show ?thesis
    by (intro signed_authentic [OF sample_sizes sample_signs sample_fits sample_address older_node_Sign])
      (simp_all add: unsigned_node_def)
qed

lemma newer_node_authentic: "authentic sample_env newer_node"
  unfolding newer_node_def by (rule signed_node_authentic) simp_all

lemma older_node_ok: "node_ok older_node"
proof -
  have "utf8_valid (Addr sample_address)"
    by (rule utf8_ascii [OF owner_address(5) [OF sample_sizes sample_address]])
  then show ?thesis
    by (intro node_Sign_sel(7) [OF older_node_Sign]) (simp add: node_ok_def unsigned_node_def NewNode_def)
qed

lemma newer_node_ok: "node_ok newer_node"
  unfolding newer_node_def by (rule signed_node_ok) simp_all

lemma older_node_next: "next_in_branch sample_dag older_node sample_key0 sample_world1"
  using sample_root_at sample_last [of "''main''"]
  unfolding next_in_branch_def by (intro exI [of _ sample_root]) (simp add: sample_root_def)

lemma newer_node_next: "next_in_branch sample_dag newer_node sample_key0 sample_world1"
  using sample_root_at sample_last [of "''main''"]
  unfolding next_in_branch_def by (intro exI [of _ sample_root]) (simp add: sample_root_def)

text \<open>The sample hash keeps the last digit of the time stamp.\<close>

lemma Join_prefix: "\<exists>rest. Join (s # t # ss) sep = s @ sep @ t @ rest"
  by (cases ss) auto

lemma json_first_fields:
  assumes "ToJson m = Ok js" and "nSeq m \<noteq> 0" and "nTimestamp m \<noteq> ''''"
  shows "\<exists>rest. js = bytes_of (CHR ''{'' # quote ''seq'' @ '':'' @ Itoa (sint (nSeq m)) @ '','' @
    quote ''timestamp'' @ '':'' @ quote (nTimestamp m) @ rest)"
proof -
  obtain fs where fs: "node_fields m = (''seq'', JNum (Itoa (sint (nSeq m)))) # (''timestamp'', JStr (nTimestamp m)) # fs"
    using assms(2,3) by (simp add: node_fields_def str_field_def)
  obtain rest where join: "Join (map (\<lambda>(k, v). quote k @ '':'' @ render v) (node_fields m)) '',''
      = (quote ''seq'' @ '':'' @ Itoa (sint (nSeq m))) @ '','' @ (quote ''timestamp'' @ '':'' @ quote (nTimestamp m)) @ rest"
    unfolding fs list.map prod.case render.simps using Join_prefix by blast
  have "js = bytes_of (CHR ''{'' # quote ''seq'' @ '':'' @ Itoa (sint (nSeq m)) @ '','' @
    quote ''timestamp'' @ '':'' @ quote (nTimestamp m) @ (rest @ ''}''))"
    using assms(1) unfolding ToJson_def render.simps join by simp
  then show ?thesis by blast
qed

lemma second_digit:
  "quote ''timestamp'' = CHR 0x22 # ''timestamp'' @ [CHR 0x22]"
  "quote ''2024-02-29T23:59:58Z'' = CHR 0x22 # ''2024-02-29T23:59:58Z'' @ [CHR 0x22]"
  "quote ''2024-02-29T23:59:59Z'' = CHR 0x22 # ''2024-02-29T23:59:59Z'' @ [CHR 0x22]"
  "Itoa 2 = ''2''"
  by code_simp+

lemma seconds_hexHash_neq:
  assumes "ToJson older_node = Ok js" and "ToJson newer_node = Ok js'"
  shows "hexHash sample_env js \<noteq> hexHash sample_env js'"
proof -
  have "40 < length js \<and> js ! 40 = byte_of (CHR ''8'')"
    using json_first_fields [OF assms(1)] by (auto simp: quote_seq second_digit)
  moreover have "40 < length js' \<and> js' ! 40 = byte_of (CHR ''9'')"
    using json_first_fields [OF assms(2)] by (auto simp: quote_seq second_digit)
  ultimately have "sha256 sample_env js \<noteq> sha256 sample_env js'"
    by (simp add: sample_env_def sample_hash_def)
  then show ?thesis by (simp add: hexHash_def del: HexEncode_simps)
qed

text \<open>The sample owner's world takes any node of the owner without branches of its own, twice.\<close>

lemma sample_saves:
  assumes "getNodeByKey sample_dag sample_key0 w = Ok (Some sample_root)"
    and "managed sample_env w (Addr sample_address)" and "nBranches node = []"
  obtains key w' where "saveNode sample_dag node sample_key0 w = (Ok key, w')"
proof -
  have "getFullPath sample_dag w sample_key0 = Some (Ok (getName sample_dag (Addr sample_address) [sample_key0], None))"
    by (subst getFullPath.simps) (simp add: assms(1), simp add: sample_root_def)
  moreover have "managed sample_env w (nAddress sample_root)" using assms(2) by (simp add: sample_root_def)
  ultimately show ?thesis
    using saveNode_succeeds [of sample_env "''ns''" sample_key0 w sample_root _ node] assms that
    by (auto simp: sample_dag_def)
qed

lemma seconds_no_clash:
  assumes "saveNode sample_dag newer_node sample_key0 sample_world1 = (Ok k1, w1)"
  shows "no_clash sample_dag (hexHash sample_env) older_node w1"
proof -
  obtain ns where sv: "saved sample_dag (hexHash sample_env) newer_node ns sample_world1 k1 w1"
    using local_dag.saveNode_Ok [OF assms [unfolded sample_dag_def]] unfolding sample_dag_def by blast
  have "hexHash sample_env js \<noteq> k1" if "ToJson older_node = Ok js" for js
    using sv seconds_hexHash_neq [OF that] by (auto simp: saved_def)
  moreover have "no_clash sample_dag (hexHash sample_env) older_node sample_world1"
    by (rule sample_no_clash) simp
  ultimately show ?thesis using sv by (simp add: no_clash_def saved_def)
qed

section \<open>Properties\<close>

text \<open>
  C20: two appends at the same time can fork a branch.  When two nodes are both acceptable after the same head and
  two calls verify them before either writes, and both writes succeed, both calls return a key: both nodes are stored after the
  same previous node, and the head is the second, which does not follow the first.  (One after the other,
  the second call would be refused.)
\<close>

theorem racing_appends_fork:
  fixes E ns
  defines "da \<equiv> NewDag E ns"
  assumes "VerifyNode da n1 rk True w = Ok ()" and "VerifyNode da n2 rk True w = Ok ()" and "nBranch n1 = nBranch n2"
    and "saveNode da n1 rk w = (Ok k1, w1)" and "saveNode da n2 rk w1 = (Ok k2, w2)"
    and "node_ok n1" and "node_ok n2" and "no_clash da (hexHash E) n1 w" and "no_clash da (hexHash E) n2 w1"
  shows "append_steps da ([Calling n1 rk, Calling n2 rk], w) ([Returned (Ok k1), Returned (Ok k2)], w2)
    \<and> dag_Get da k1 w2 = Ok (Some n1) \<and> dag_Get da k2 w2 = Ok (Some n2) \<and> nPrevious n1 = nPrevious n2
    \<and> GetLast da rk (nBranch n1) w2 = Ok (Some n2, k2)"
proof -
  have next1: "next_in_branch da n1 rk w" and next2: "next_in_branch da n2 rk w"
    using assms(2,3) by (simp_all add: VerifyNode_new_iff)
  have prev: "nPrevious n1 = nPrevious n2"
    using next1 next2 assms(4) by (auto simp: next_in_branch_def)
  have b: "nBranch n2 \<noteq> ''''" using assms(3) by (simp add: VerifyNode_new_iff authentic_def)
  obtain br where br: "getNodeByKey da rk w = Ok (Some br)"
    and sv1: "saved da (hexHash E) n1 (insert (getLastNodeName da br rk (nBranch n1)) (branch_names da n1 k1)) w k1 w1"
    using local_dag.saveNode_Ok [OF assms(5) [unfolded da_def]] unfolding da_def by blast
  note keeps1 = local_dag.saved_getNode_keeps [OF sv1 [unfolded da_def] assms(9) [unfolded da_def], folded da_def]
  obtain br' where br': "getNodeByKey da rk w1 = Ok (Some br')"
    and sv2: "saved da (hexHash E) n2 (insert (getLastNodeName da br' rk (nBranch n2)) (branch_names da n2 k2)) w1 k2 w2"
    using local_dag.saveNode_Ok [OF assms(6) [unfolded da_def]] unfolding da_def by blast
  note keeps2 = local_dag.saved_getNode_keeps [OF sv2 [unfolded da_def] assms(10) [unfolded da_def], folded da_def]
  have "getNodeByKey da k1 w2 = Ok (Some n1)"
    by (rule keeps2 [OF local_dag.saved_getNode [OF sv1 [unfolded da_def] assms(7), folded da_def]])
  moreover have "getNodeByKey da k2 w2 = Ok (Some n2)"
    by (rule local_dag.saved_getNode [OF sv2 [unfolded da_def] assms(8), folded da_def])
  moreover have "GetLast da rk (nBranch n2) w2 = Ok (Some n2, k2)"
    by (rule local_dag.saved_GetLast [OF sv2 [unfolded da_def] assms(8) b keeps2 [OF br', unfolded da_def], folded da_def])
      (simp add: da_def)
  ultimately show ?thesis
    using race_schedule [OF assms(2,3,5,6)] prev assms(4) by (simp add: dag_Get_def)
qed

theorem racing_appends_fork_witness:
  "\<exists>k1 k2 w. append_steps sample_dag ([Calling newer_node sample_key0, Calling older_node sample_key0], sample_world1)
       ([Returned (Ok k1), Returned (Ok k2)], w)
     \<and> GetLast sample_dag sample_key0 ''main'' w = Ok (Some older_node, k2)"
proof -
  obtain k1 w1 where s1: "saveNode sample_dag newer_node sample_key0 sample_world1 = (Ok k1, w1)"
    by (rule sample_saves [OF sample_root_at sample_managed1 newer_node_sel(4)])
  have clash1: "no_clash sample_dag (hexHash sample_env) newer_node sample_world1"
    by (rule sample_no_clash) simp
  obtain ns where "saved sample_dag (hexHash sample_env) newer_node ns sample_world1 k1 w1"
    using local_dag.saveNode_Ok [OF s1 [unfolded sample_dag_def]] unfolding sample_dag_def by blast
  then have root: "getNodeByKey sample_dag sample_key0 w1 = Ok (Some sample_root)"
    using local_dag.saved_getNode_keeps clash1 sample_root_at unfolding sample_dag_def by blast
  have "managed sample_env w1 (Addr sample_address)"
    using sample_managed1 managed_addresses saveNode_addresses [OF s1 [unfolded sample_dag_def]] by blast
  then obtain k2 w2 where s2: "saveNode sample_dag older_node sample_key0 w1 = (Ok k2, w2)"
    by (rule sample_saves [OF root _ older_node_sel(4)])
  have env: "dag_env (NewDag sample_env ''ns'') = sample_env" by simp
  have v1: "VerifyNode sample_dag newer_node sample_key0 True sample_world1 = Ok ()"
    using newer_node_authentic newer_node_next unfolding VerifyNode_new_iff sample_dag_def env by blast
  have v2: "VerifyNode sample_dag older_node sample_key0 True sample_world1 = Ok ()"
    using older_node_authentic older_node_next unfolding VerifyNode_new_iff sample_dag_def env by blast
  show ?thesis
    using racing_appends_fork [OF v1 [unfolded sample_dag_def] v2 [unfolded sample_dag_def] _ s1 [unfolded sample_dag_def]
        s2 [unfolded sample_dag_def] newer_node_ok older_node_ok clash1 [unfolded sample_dag_def]
        seconds_no_clash [OF s1, unfolded sample_dag_def]]
    unfolding sample_dag_def by auto
qed

end
