(* ===== verification/DagOrder.thy ===== *)
theory DagOrder
  imports DagRace
begin

text \<open>
  The keys that a node names, its previous node and its branch root, lead from node to node.  Whoever follows them ends
  unless they lead into a ring: for the branch roots that is the exact condition, and for the previous nodes of what
  has been appended there is none, because every node is stored after the one before it.
\<close>

section \<open>Following keys\<close>

text \<open>A step of a function that gives the next key, if there is one.\<close>

abbreviation leads :: "('k \<rightharpoonup> 'k) \<Rightarrow> 'k \<Rightarrow> 'k \<Rightarrow> bool" where
  "leads f k k' \<equiv> f k = Some k'"

definition ring_ahead :: "('k \<rightharpoonup> 'k) \<Rightarrow> 'k \<Rightarrow> bool" where
  "ring_ahead f k \<longleftrightarrow> (\<exists>r. (leads f)\<^sup>*\<^sup>* k r \<and> (leads f)\<^sup>+\<^sup>+ r r)"

abbreviation ends :: "('k \<rightharpoonup> 'k) \<Rightarrow> 'k \<Rightarrow> bool" where
  "ends f \<equiv> Wellfounded.accp (\<lambda>k' k. leads f k k')"

lemma ends_no_ring:
  assumes "ends f k"
  shows "\<not> ring_ahead f k"
proof
  assume "ring_ahead f k"
  then obtain r where to: "(leads f)\<^sup>*\<^sup>* k r" and ring: "(leads f)\<^sup>+\<^sup>+ r r" by (auto simp: ring_ahead_def)
  have "ends f r" using to assms by (induction rule: rtranclp_induct) (auto intro: accp_downward)
  then show False using ring
  proof (induction rule: accp_induct_rule)
    case (1 x)
    then obtain y where y: "leads f x y" "(leads f)\<^sup>*\<^sup>* y x" by (meson tranclpD)
    then have "(leads f)\<^sup>+\<^sup>+ y y" by (rule rtranclp_into_tranclp1 [rotated])
    with 1 y(1) show False by blast
  qed
qed

lemma no_ring_ends:
  assumes fin: "finite (dom f)" and no: "\<not> ring_ahead f k"
  shows "ends f k"
proof -
  let ?R = "{(k', l). (leads f)\<^sup>*\<^sup>* k l \<and> leads f l k'}"
  have "(k', l) \<in> (\<lambda>l. (the (f l), l)) ` dom f" if "leads f l k'" for k' l
    using that by (intro image_eqI [of _ _ l]) (simp_all add: domI)
  then have "?R \<subseteq> (\<lambda>l. (the (f l), l)) ` dom f" by blast
  from finite_subset [OF this finite_imageI [OF fin]] have "finite ?R" .
  moreover have way: "(leads f)\<^sup>*\<^sup>* k l \<and> (leads f)\<^sup>+\<^sup>+ l k'" if "(k', l) \<in> ?R\<^sup>+" for k' l
    using that
  proof (induction rule: trancl_induct)
    case (step y z)
    then show ?case by (auto intro: tranclp_into_tranclp2)
  qed auto
  have "(l, l) \<notin> ?R\<^sup>+" for l using way [of l l] no unfolding ring_ahead_def by blast
  then have "acyclic ?R" unfolding acyclic_def by blast
  ultimately have wf: "wf ?R" by (rule finite_acyclic_wf)
  have "(leads f)\<^sup>*\<^sup>* k l \<Longrightarrow> ends f l" for l
  proof (induction l rule: wf_induct_rule [OF wf])
    case (1 l)
    show ?case
    proof (rule accpI)
      fix y assume y: "leads f l y"
      with 1(2) have "(leads f)\<^sup>*\<^sup>* k y" by (rule rtranclp.rtrancl_into_rtrancl)
      with 1 y show "ends f y" by blast
    qed
  qed
  then show ?thesis by blast
qed

lemma two_steps_end:
  assumes "f a = Some b" and "f b = None"
  shows "ends f a"
proof (rule accpI)
  fix y assume "leads f a y"
  then have "y = b" using assms(1) by simp
  moreover have "ends f b" by (rule accpI) (use assms(2) in simp)
  ultimately show "ends f y" by simp
qed

section \<open>The full path of a node\<close>

text \<open>The key that \<open>getFullPath\<close> goes on with.\<close>

definition branch_root_of :: "'w dag \<Rightarrow> 'w \<Rightarrow> string \<Rightarrow> string option" where
  "branch_root_of da w key =
     (if key = '''' then None
      else case getNodeByKey da key w of
          Ok (Some node) \<Rightarrow> if nBranchRoot node = '''' then None else Some (nBranchRoot node)
        | _ \<Rightarrow> None)"

lemma getFullPath_ends:
  assumes "getFullPath da w k = Some r"
  shows "ends (branch_root_of da w) k"
proof (rule getFullPath.raw_induct [OF _ assms])
  fix f and da :: "'a dag" and w k r
  assume hyp: "\<And>da w k r. f da w k = Some r \<Longrightarrow> ends (branch_root_of da w) k"
    and body: "(if k = '''' then Some (Ok ('''', None))
      else (case getNodeByKey da k w of
          Panic \<Rightarrow> Some Panic
        | Err er \<Rightarrow> Some (Ok ('''', Some er))
        | Ok None \<Rightarrow> Some Panic
        | Ok (Some node) \<Rightarrow>
            if nBranchRoot node = '''' then Some (Ok (getName da (nAddress node) [k], None))
            else Option.bind (f da w (nBranchRoot node)) (\<lambda>r.
              case r of
                Ok (s, None) \<Rightarrow>
                  if s = '''' then Some (Ok (k, None))
                  else Some (Ok (s @ ''/branches/'' @ nBranch node @ ''/'' @ k, None))
              | Ok (s, Some er) \<Rightarrow> Some (Ok (k, Some er))
              | Err er \<Rightarrow> Some (Err er)
              | Panic \<Rightarrow> Some Panic))) = Some r"
  show "ends (branch_root_of da w) k"
  proof (rule accpI)
    fix k' assume "branch_root_of da w k = Some k'"
    then obtain n where n: "k \<noteq> ''''" "getNodeByKey da k w = Ok (Some n)" "nBranchRoot n \<noteq> ''''" "k' = nBranchRoot n"
      by (auto simp: branch_root_of_def split: if_splits result.splits option.splits)
    then obtain r' where "f da w k' = Some r'" using body by (cases "f da w k'") simp_all
    then show "ends (branch_root_of da w) k'" by (rule hyp)
  qed
qed

lemma ends_getFullPath:
  assumes "ends (branch_root_of da w) key"
    and "\<And>k. getNodeByKey da k w \<noteq> Panic" and "\<And>k. getNodeByKey da k w \<noteq> Ok None"
  shows "\<exists>s er. getFullPath da w key = Some (Ok (s, er))"
  using assms(1)
proof (induction rule: accp_induct_rule)
  case (1 key)
  show ?case
  proof (cases "branch_root_of da w key")
    case (Some k')
    then obtain n where n: "key \<noteq> ''''" "getNodeByKey da key w = Ok (Some n)" "nBranchRoot n \<noteq> ''''" "k' = nBranchRoot n"
      by (auto simp: branch_root_of_def split: if_splits result.splits option.splits)
    obtain s er where "getFullPath da w (nBranchRoot n) = Some (Ok (s, er))"
      using 1 Some n(4) by blast
    with n show ?thesis by (subst getFullPath.simps) (simp split: option.split)
  next
    case None
    then show ?thesis
      using assms(2,3) [of key]
      by (subst getFullPath.simps) (auto simp: branch_root_of_def split: if_splits result.splits option.splits)
  qed
qed

text \<open>Only finitely many values are stored.\<close>

lemma write_finite:
  assumes "bounded_write (NewDag E ns) (hexHash E) node w w'" and "finite (dom (pairs (ds w)))"
  shows "finite (dom (pairs (ds w')))"
proof -
  obtain js where "ToJson node = Ok js" using ToJson_total by blast
  then have "dom (pairs (ds w')) \<subseteq> insert (hexHash E js) (dom (pairs (ds w)))"
    using bounded_local(1) [OF assms(1)] by (metis domIff insertCI subsetI)
  with assms(2) show ?thesis by (meson finite.insertI finite_subset)
qed

lemma reachable_finite: "reachable E ns w \<Longrightarrow> finite (dom (pairs (ds w)))"
  unfolding reachable_def
proof (induction rule: rtranclp_induct)
  case base
  show ?case by (simp add: new_world_def NewLocalFileStore_def)
next
  case (step w w')
  from step.hyps(2) step.IH show ?case
  proof (induction rule: dag_step.induct)
    case (step_Manage a w u w')
    then show ?case by (auto simp: dag_Manage_def on_rs_eq)
  qed (auto intro: write_finite dest: local_dag.SetRoot_bounded local_dag.dag_Append_bounded)
qed

lemma branch_roots_finite:
  assumes "reachable E ns w"
  shows "finite (dom (branch_root_of (NewDag E ns) w))"
proof (rule finite_subset [OF _ reachable_finite [OF assms]])
  show "dom (branch_root_of (NewDag E ns) w) \<subseteq> dom (pairs (ds w))"
    by (auto simp: branch_root_of_def local_Get_Ok split: if_splits result.splits option.splits dest!: getNodeByKey_OkD)
qed

text \<open>
  C36: when the full path ends.  \<open>Append\<close> asks for the full path of the branch root it is given, and nothing
  checks where the branch roots of the nodes lead.  In a reachable state \<open>getFullPath\<close> returns a path, perhaps with an error, exactly
  for the keys from which the branch roots do not lead into a ring of stored nodes; otherwise its
  recursion has no end.
\<close>

theorem full_path_returns:
  assumes "reachable E ns w"
  shows "if ring_ahead (branch_root_of (NewDag E ns) w) key then getFullPath (NewDag E ns) w key = None
    else \<exists>s er. getFullPath (NewDag E ns) w key = Some (Ok (s, er))"
proof (cases "ring_ahead (branch_root_of (NewDag E ns) w) key")
  case True
  then show ?thesis
    using getFullPath_ends ends_no_ring by (cases "getFullPath (NewDag E ns) w key") fastforce+
next
  case False
  have "ends (branch_root_of (NewDag E ns) w) key"
    by (rule no_ring_ends [OF branch_roots_finite [OF assms] False])
  with ends_getFullPath [OF this] inv_reads [OF reachable_inv [OF assms]] False show ?thesis by auto
qed

text \<open>
  At the owner's root, a node whose branch root is that root: its path is asked for in two steps.  The hash of the sample
  environment looks at two bytes of a value only, so that a root can be its own branch root, and its path has no end.
\<close>

definition sample_side :: Node where
  "sample_side = sample_child\<lparr>nBranchRoot := sample_key0\<rparr>"

definition sample_loop :: Node where
  "sample_loop = sample_root\<lparr>nBranchRoot := sample_key0\<rparr>"

lemma sample_side_sel [simp]:
  "nSeq sample_side = 2" "nPrevious sample_side = sample_key0" "nBranchRoot sample_side = sample_key0"
  "nAddress sample_side = Addr sample_address" "nBranches sample_side = [''d'']" "nBranch sample_side = ''main''"
  by (simp_all add: sample_side_def sample_child_def)

lemma sample_side_ok: "node_ok sample_side"
  using sample_child_ok by (simp add: sample_side_def node_ok_def)

lemma sample_side_appended:
  obtains key w where "dag_Append sample_dag sample_side sample_key0 sample_world1 = (Ok key, w)"
proof -
  have "node_VerifySignature sample_env sample_side = node_VerifySignature sample_env sample_child"
    by (rule node_VerifySignature_cong) (simp_all add: sample_side_def)
  then have "authentic sample_env sample_side"
    using sample_child_authentic by (simp add: authentic_def sample_side_def del: sample_side_sel)
  moreover have "next_in_branch sample_dag sample_side sample_key0 sample_world1"
    using sample_root_at sample_last [of "''main''"] unfolding next_in_branch_def
    by (intro exI [of _ sample_root]) (simp add: sample_root_def)
  ultimately show ?thesis by (rule sample_append) (simp_all add: that)
qed

lemma sample_world_reachable: "reachable sample_env ''ns'' sample_world"
proof -
  have "dag_step sample_env ''ns'' new_world sample_world"
    by (rule step_Manage [of _ _ sample_address _ "fst (dag_Manage sample_dag sample_address new_world)"])
      (simp add: sample_world_def sample_dag_def)
  then show ?thesis by (auto simp: reachable_def)
qed

lemma sample_root_fields: "nSeq sample_root = 1" "nTimestamp sample_root = ''2024-02-29T23:59:59Z''"
  using signed_node_Sign [of 1 "''''" "''main''" "[''main'', ''c'']"]
  by (auto simp: sample_root_def node_Sign_Ok unsigned_node_def NewNode_def)

lemma sample_loop_key:
  assumes "ToJson sample_loop = Ok js"
  shows "hexHash sample_env js = sample_key0"
proof -
  obtain js0 where js0: "ToJson sample_root = Ok js0" "sample_key0 = hexHash sample_env js0" using sample_key0_hash by blast
  have one: "Itoa 1 = ''1''" by code_simp
  have "7 < length x \<and> 40 < length x \<and> x ! 7 = byte_of (CHR ''1'') \<and> x ! 40 = byte_of (CHR ''9'')"
    if "ToJson m = Ok x" "nSeq m = 1" "nTimestamp m = ''2024-02-29T23:59:59Z''" for m x
    using json_first_fields [OF that(1)] that(2,3) by (auto simp: quote_seq second_digit one)
  from this [OF js0(1)] this [OF assms] have "sha256 sample_env js = sha256 sample_env js0"
    by (simp add: sample_loop_def sample_root_fields sample_env_def sample_hash_def)
  then show ?thesis by (simp add: js0(2) hexHash_def del: HexEncode_simps)
qed

lemma sample_loop_set:
  obtains key w where "SetRoot sample_dag sample_loop sample_world = (Ok key, w)"
  by (rule sample_SetRoot_as [of sample_loop]) (simp_all add: sample_loop_def sample_root_def that)

theorem full_path_returns_witness:
  "(\<exists>key w' s er. dag_Append sample_dag sample_side sample_key0 sample_world1 = (Ok key, w')
     \<and> branch_root_of sample_dag w' key = Some sample_key0 \<and> getFullPath sample_dag w' key = Some (Ok (s, er)))
     \<and> (\<exists>key w'. SetRoot sample_dag sample_loop sample_world = (Ok key, w') \<and> getFullPath sample_dag w' key = None)"
proof (rule conjI)
  obtain key w' where app: "dag_Append sample_dag sample_side sample_key0 sample_world1 = (Ok key, w')"
    by (rule sample_side_appended)
  obtain ns where sv: "saved sample_dag (hexHash sample_env) sample_side ns sample_world1 key w'"
    using local_dag.append_saved [OF app [unfolded sample_dag_def], folded sample_dag_def] by blast
  have "no_clash sample_dag (hexHash sample_env) sample_side sample_world1" by (rule sample_no_clash) simp
  then have root: "getNodeByKey sample_dag sample_key0 w' = Ok (Some sample_root)"
    using local_dag.saved_getNode_keeps [OF sv [unfolded sample_dag_def]] sample_root_at by (simp add: sample_dag_def)
  have side: "getNodeByKey sample_dag key w' = Ok (Some sample_side)"
    using local_dag.saved_getNode [OF sv [unfolded sample_dag_def] sample_side_ok] by (simp add: sample_dag_def)
  have "key \<noteq> ''''" using sv hexHash_neq_Nil [OF sample_sizes] by (auto simp: saved_def)
  then have link: "branch_root_of sample_dag w' key = Some sample_key0" "branch_root_of sample_dag w' sample_key0 = None"
    using side root by (simp_all add: branch_root_of_def) (simp add: sample_root_def)
  have no: "\<not> ring_ahead (branch_root_of sample_dag w') key"
    by (rule ends_no_ring [OF two_steps_end [OF link]])
  have "reachable sample_env ''ns'' w'"
    using sample_reachable step_Append [OF app [unfolded sample_dag_def]] by (auto simp: reachable_def)
  from full_path_returns [OF this, of key, folded sample_dag_def] no
  obtain s er where "getFullPath sample_dag w' key = Some (Ok (s, er))" by auto
  with app link(1) show "\<exists>key w' s er. dag_Append sample_dag sample_side sample_key0 sample_world1 = (Ok key, w')
     \<and> branch_root_of sample_dag w' key = Some sample_key0 \<and> getFullPath sample_dag w' key = Some (Ok (s, er))"
    by blast
next
  obtain key w' where set: "SetRoot sample_dag sample_loop sample_world = (Ok key, w')" by (rule sample_loop_set)
  note sv = local_dag.SetRoot_saved [OF set [unfolded sample_dag_def], folded sample_dag_def]
  have key: "key = sample_key0" using sv sample_loop_key by (auto simp: saved_def)
  have "node_ok sample_loop" using sample_root_ok by (simp add: sample_loop_def node_ok_def)
  then have "getNodeByKey sample_dag key w' = Ok (Some sample_loop)"
    using local_dag.saved_getNode [OF sv [unfolded sample_dag_def]] by (simp add: sample_dag_def)
  then have "branch_root_of sample_dag w' key = Some key" by (simp add: branch_root_of_def key) (simp add: sample_loop_def)
  then have ring: "ring_ahead (branch_root_of sample_dag w') key" by (auto simp: ring_ahead_def)
  have "reachable sample_env ''ns'' w'"
    using sample_world_reachable step_SetRoot [OF set [unfolded sample_dag_def]] by (auto simp: reachable_def)
  from full_path_returns [OF this, of key, folded sample_dag_def] ring
  have "getFullPath sample_dag w' key = None" by simp
  with set show "\<exists>key w'. SetRoot sample_dag sample_loop sample_world = (Ok key, w') \<and> getFullPath sample_dag w' key = None"
    by blast
qed

section \<open>The order of the previous nodes\<close>

text \<open>
  Runs in which a root has no previous node, as \<open>createFirstNode\<close> makes it, the texts are valid UTF-8, and no value is
  written over another one, as a collision of the hash would do.
\<close>

definition keeps_values :: "local_world \<Rightarrow> local_world \<Rightarrow> bool" where
  "keeps_values w w' \<longleftrightarrow> (\<forall>k b. pairs (ds w) k = Some b \<longrightarrow> pairs (ds w') k = Some b)"

inductive rooted_step :: "crypto_env \<Rightarrow> string \<Rightarrow> local_world \<Rightarrow> local_world \<Rightarrow> bool" for E ns where
  rooted_SetRoot: "SetRoot (NewDag E ns) node w = (r, w') \<Longrightarrow> nPrevious node = '''' \<Longrightarrow> node_ok node \<Longrightarrow>
    keeps_values w w' \<Longrightarrow> rooted_step E ns w w'"
| rooted_Append: "dag_Append (NewDag E ns) node rk w = (r, w') \<Longrightarrow> node_ok node \<Longrightarrow>
    keeps_values w w' \<Longrightarrow> rooted_step E ns w w'"
| rooted_Manage: "dag_Manage (NewDag E ns) a w = (u, w') \<Longrightarrow> rooted_step E ns w w'"

abbreviation rooted_steps :: "crypto_env \<Rightarrow> string \<Rightarrow> local_world \<Rightarrow> local_world \<Rightarrow> bool" where
  "rooted_steps E ns \<equiv> (rooted_step E ns)\<^sup>*\<^sup>*"

lemma rooted_reachable: "rooted_steps E ns new_world w \<Longrightarrow> reachable E ns w"
  unfolding reachable_def
  by (erule mono_rtranclp [rule_format, rotated]) (auto elim!: rooted_step.cases intro: dag_step.intros)

text \<open>Previous nodes are stored, and go down a rank: the time of their writing.\<close>

definition ordered_store :: "crypto_env \<Rightarrow> string \<Rightarrow> (string \<Rightarrow> nat) \<Rightarrow> local_world \<Rightarrow> bool" where
  "ordered_store E ns rank w \<longleftrightarrow> (\<forall>k n. getNodeByKey (NewDag E ns) k w = Ok (Some n) \<longrightarrow> nPrevious n \<noteq> '''' \<longrightarrow>
     stored w (nPrevious n) \<and> rank (nPrevious n) < rank k)"

lemma ordered_same:
  assumes "ordered_store E ns rank w" and "pairs (ds w') = pairs (ds w)"
  shows "ordered_store E ns rank w'"
  using assms by (simp add: ordered_store_def getNodeByKey_def local_Get_def stored_def)

lemma write_ordered:
  assumes ord: "ordered_store E ns rank w" and bw: "bounded_write (NewDag E ns) (hexHash E) node w w'"
    and keep: "keeps_values w w'" and ok: "node_ok node" and prev: "nPrevious node = '''' \<or> stored w (nPrevious node)"
  shows "\<exists>rank. ordered_store E ns rank w'"
proof -
  obtain js where js: "ToJson node = Ok js" using ToJson_total by blast
  let ?k0 = "hexHash E js"
  note at = bounded_local(1) [OF bw js]
  show ?thesis
  proof (cases "stored w ?k0 \<or> pairs (ds w') ?k0 = None")
    case True
    have "pairs (ds w') k = pairs (ds w) k" for k
    proof (cases "k = ?k0")
      case new: True
      show ?thesis
        using True keep at [of ?k0] unfolding new keeps_values_def stored_def by (cases "pairs (ds w) ?k0") auto
    qed (use at [of k] in blast)
    then show ?thesis using ordered_same [OF ord] by blast
  next
    case False
    then have fresh: "\<not> stored w ?k0" and new: "pairs (ds w') ?k0 = Some js"
      using at [of ?k0] by (auto simp: stored_def)
    have stored: "stored w' k" if "stored w k" for k using that keep by (auto simp: stored_def keeps_values_def)
    define rank' where "rank' = rank(?k0 := Suc (rank (nPrevious node)))"
    have "stored w' (nPrevious n) \<and> rank' (nPrevious n) < rank' k"
      if n: "getNodeByKey (NewDag E ns) k w' = Ok (Some n)" "nPrevious n \<noteq> ''''" for k n
    proof (cases "k = ?k0")
      case True
      have "getNodeByKey (NewDag E ns) k w' = decode_node js"
        by (rule getNodeByKey_stored) (simp add: True new local_Get_Ok)
      then have "n = node" using n(1) decode_node_ToJson [OF ok js] by simp
      then have "stored w (nPrevious n)" "nPrevious n \<noteq> ?k0" using prev n(2) fresh by auto
      then show ?thesis using stored \<open>n = node\<close> by (simp add: rank'_def True)
    next
      case other: False
      then have "pairs (ds w') k = pairs (ds w) k" using at [of k] by blast
      then have "getNodeByKey (NewDag E ns) k w = Ok (Some n)" using n(1) by (simp add: getNodeByKey_def local_Get_def)
      then have "stored w (nPrevious n)" "rank (nPrevious n) < rank k"
        using ord n(2) unfolding ordered_store_def by blast+
      then show ?thesis using fresh stored other by (auto simp: rank'_def)
    qed
    then show ?thesis unfolding ordered_store_def by blast
  qed
qed

lemma rooted_ordered: "rooted_steps E ns new_world w \<Longrightarrow> \<exists>rank. ordered_store E ns rank w"
proof (induction rule: rtranclp_induct)
  case base
  show ?case by (auto simp: ordered_store_def new_world_def NewLocalFileStore_def local_Get_def getNodeByKey_def)
next
  case (step w w')
  then obtain rank where ord: "ordered_store E ns rank w" by blast
  from step.hyps(2) ord show ?case
  proof (induction rule: rooted_step.induct)
    case (rooted_SetRoot node w r w')
    then show ?case using write_ordered [OF _ local_dag.SetRoot_bounded] by blast
  next
    case (rooted_Append node rk w r w')
    show ?case
    proof (cases "w' = w")
      case False
      then have "stored w (nPrevious node)" using dag_Append_cases [OF rooted_Append(1)] next_previous by blast
      then show ?thesis
        using write_ordered [OF rooted_Append(4) local_dag.dag_Append_bounded [OF rooted_Append(1)] rooted_Append(3,2)] by blast
    qed (use rooted_Append in blast)
  next
    case (rooted_Manage a w u w')
    then have "ds w' = ds w" by (auto simp: dag_Manage_def on_rs_eq)
    then show ?case using ordered_same [OF rooted_Manage(2)] by metis
  qed
qed

text \<open>The owner's root and the node after it are such a run.\<close>

lemma sample_rooted:
  assumes "dag_Append sample_dag sample_child sample_key0 sample_world1 = (Ok key, w')"
  shows "rooted_steps sample_env ''ns'' new_world w'"
proof -
  have manage: "rooted_step sample_env ''ns'' new_world sample_world"
    by (rule rooted_Manage [of _ _ sample_address _ "fst (dag_Manage sample_dag sample_address new_world)"])
      (simp add: sample_world_def sample_dag_def)
  have "pairs (ds sample_world) k = None" for k
    using sample_world_empty [of k] by (simp add: sample_dag_def local_Get_def split: option.splits)
  then have root: "rooted_step sample_env ''ns'' sample_world sample_world1"
    by (intro rooted_SetRoot [OF sample_SetRoot1 [unfolded sample_dag_def] _ sample_root_ok])
      (simp_all add: keeps_values_def, simp add: sample_root_def)
  obtain ns where sv: "saved sample_dag (hexHash sample_env) sample_child ns sample_world1 key w'"
    using local_dag.append_saved [OF assms [unfolded sample_dag_def], folded sample_dag_def] by blast
  have "pairs (ds w') k = Some b" if "pairs (ds sample_world1) k = Some b" for k b
  proof -
    have "k = sample_key0"
      using that sample_world1_get [of k] by (auto simp: sample_dag_def local_Get_def)
    then have "dt_Get sample_dag k w' = dt_Get sample_dag k sample_world1"
      using sv sample_child_key [OF assms] by (simp add: saved_def)
    with that show ?thesis by (simp add: sample_dag_def local_Get_def split: option.splits)
  qed
  then have "rooted_step sample_env ''ns'' sample_world1 w'"
    by (intro rooted_Append [OF assms [unfolded sample_dag_def] sample_child_ok]) (simp add: keeps_values_def)
  from rtranclp.rtrancl_into_rtrancl [OF rtranclp.rtrancl_into_rtrancl [OF r_into_rtranclp [of "rooted_step _ _", OF manage] root] this] show ?thesis .
qed

end
