(* ===== verification/Iterator.thy ===== *)
theory Iterator
  imports GraphProps DagOrder
begin

text \<open>
  The iterator of \<^verbatim>\<open>graph/iterator.go\<close> over any branch that has been written, without the assumption that its
  nodes are a timeline: its loop ends, because the previous nodes are in the order of their writing.
\<close>

section \<open>One step of the loop\<close>

lemma graph_get_Ok: "graph_get d k w = Ok r \<longleftrightarrow> getNodeByKey (gDa d) k w = Ok r"
  by (auto simp: graph_get_def dag_Get_def)

lemma Prev_found:
  assumes "Prev d w it = (Ok (Some v), it')"
  shows "\<exists>n. getNodeByKey (gDa d) (it_previous it) w = Ok (Some n) \<and> v = toGraphNode (it_previous it) n
    \<and> it_previous it' = nPrevious n"
proof (cases "graph_get d (it_previous it) w")
  case (Ok r)
  with assms show ?thesis
    using graph_get_Ok [of d "it_previous it" w r] by (auto simp: Prev_def it_found_def split: if_splits option.splits)
qed (use assms in \<open>auto simp: Prev_def it_found_def split: if_splits\<close>)

lemma Prev_not_Panic:
  assumes "\<And>k. getNodeByKey (gDa d) k w \<noteq> Panic"
  shows "fst (Prev d w it) \<noteq> Panic"
proof -
  have "graph_get d (it_previous it) w \<noteq> Panic" using assms by (simp add: graph_get_def dag_Get_def map_error_eq_Panic)
  then show ?thesis
    by (cases "graph_get d (it_previous it) w") (auto simp: Prev_def it_found_def split: option.split)
qed

text \<open>The first node comes with the step to its previous node, too.\<close>

lemma Last_found:
  assumes "Last d w it = (Ok (Some v), it')"
  shows "\<exists>n. getNodeByKey (gDa d) (gnKey v) w = Ok (Some n) \<and> it_previous it' = nPrevious n"
proof -
  have found: "\<exists>n. got = Ok (Some n, gnKey v) \<and> it_previous it' = nPrevious n"
    if "it_found got it2 = (Ok (Some v), it')" for got it2
    using that by (auto simp: it_found_def toGraphNode_def split: result.splits if_splits prod.splits option.splits)
  have nxt: "getNodeByKey (gDa d) k w = Ok (Some n)" if "getNext d k0 w = Ok (Some n, k)" for k0 k n
    using that by (auto simp: getNext_def graph_get_Ok split: option.splits if_splits)
  show ?thesis
    using assms found nxt GetLast_node [of "gDa d"]
    by (auto simp: Last_def Let_def split: if_splits result.splits) blast+
qed

lemma all_loop_step:
  assumes "all_loop d w yld (Prev d w it) = Some (Ok gs)"
  shows "all_loop d w yld (Ok (Some v), it) = Some (Ok (if yld v then v # gs else [v]))"
  using assms by (subst all_loop.simps) simp

section \<open>The end of the loop\<close>

lemma all_loop_ordered:
  assumes ord: "ordered_store E ns rank w" and da: "gDa d = NewDag E ns" and reads: "\<And>k. getNodeByKey (gDa d) k w \<noteq> Panic"
  shows "\<exists>gs. all_loop d w yld (Prev d w it) = Some (Ok gs) \<and> distinct (map gnKey gs)
    \<and> (\<forall>x \<in> set gs. it_previous it \<noteq> '''' \<and> rank (gnKey x) \<le> rank (it_previous it))"
proof (induction "rank (it_previous it)" arbitrary: it rule: less_induct)
  case less
  show ?case
  proof (cases "\<exists>v. fst (Prev d w it) = Ok (Some v)")
    case False
    then have "all_loop d w yld (Prev d w it) = Some (Ok [])"
      using Prev_not_Panic [OF reads, of it]
      by (subst all_loop.simps) (auto split: prod.split result.split option.split)
    then show ?thesis by simp
  next
    case True
    then obtain v it' where v: "Prev d w it = (Ok (Some v), it')" by (cases "Prev d w it") auto
    then obtain n where n: "getNodeByKey (gDa d) (it_previous it) w = Ok (Some n)" "it_previous it' = nPrevious n"
        "gnKey v = it_previous it"
      using Prev_found [OF v] by (auto simp: toGraphNode_def)
    have "it_previous it \<noteq> ''''" using v by (auto simp: Prev_def)
    obtain gs where rest: "all_loop d w yld (Prev d w it') = Some (Ok gs)" "distinct (map gnKey gs)"
        "\<forall>x \<in> set gs. rank (gnKey x) < rank (it_previous it)"
    proof (cases "nPrevious n = ''''")
      case True
      then have "Prev d w it' = (Ok None, it')" using n(2) by (simp add: Prev_def)
      then have "all_loop d w yld (Prev d w it') = Some (Ok [])" by (subst all_loop.simps) simp
      then show ?thesis by (rule that) simp_all
    next
      case False
      then have "rank (it_previous it') < rank (it_previous it)"
        using ord n(1,2) unfolding ordered_store_def da by auto
      with less [of it'] that show ?thesis by fastforce
    qed
    have "gnKey v \<notin> gnKey ` set gs" using rest(3) n(3) by auto
    then show ?thesis
      using rest(2,3) n(3) \<open>it_previous it \<noteq> ''''\<close>
      by (intro exI [of _ "if yld v then v # gs else [v]"]) (auto simp: v all_loop_step [OF rest(1)] intro: less_imp_le)
  qed
qed

text \<open>
  C31: the iterator ends.  In every state that roots without a previous node, appended nodes and managed addresses lead to,
  without a collision of the hash, the loop of \<open>All\<close> ends for every branch root and branch, every start and every \<open>yield\<close>,
  whoever has written the nodes; no node is yielded twice; and it panics only when its first step does.
\<close>

theorem iterator_returns:
  assumes "rooted_steps E ns new_world w" and "gDa d = NewDag E ns"
  shows "case All d w yld (GetIterator d rk b from) of
      None \<Rightarrow> False
    | Some (Ok gs) \<Rightarrow> distinct (map gnKey gs)
    | Some (Err er) \<Rightarrow> False
    | Some Panic \<Rightarrow> fst (Last d w (GetIterator d rk b from)) = Panic"
proof -
  obtain rank where ord: "ordered_store E ns rank w" using rooted_ordered [OF assms(1)] by blast
  have reads: "getNodeByKey (gDa d) k w \<noteq> Panic" for k
    using inv_reads(1) [OF reachable_inv [OF rooted_reachable [OF assms(1)]]] assms(2) by simp
  obtain r it where last: "Last d w (GetIterator d rk b from) = (r, it)" by fastforce
  show ?thesis
  proof (cases "\<exists>v. r = Ok (Some v)")
    case True
    then obtain v where v: "r = Ok (Some v)" ..
    obtain n where n: "getNodeByKey (gDa d) (gnKey v) w = Ok (Some n)" "it_previous it = nPrevious n"
      using Last_found [OF last [unfolded v]] by blast
    obtain gs where rest: "all_loop d w yld (Prev d w it) = Some (Ok gs)" "distinct (map gnKey gs)"
        "\<forall>x \<in> set gs. it_previous it \<noteq> '''' \<and> rank (gnKey x) \<le> rank (it_previous it)"
      using all_loop_ordered [OF ord assms(2) reads, of yld it] by blast
    have lt: "rank (gnKey x) < rank (gnKey v)" if "x \<in> set gs" for x
      using rest(3) that ord n unfolding ordered_store_def assms(2) by fastforce
    have "gnKey v \<notin> gnKey ` set gs" by (rule notI, erule imageE, drule lt) simp
    then show ?thesis using rest(2) all_loop_step [OF rest(1), of v] by (simp add: All_def last v)
  next
    case False
    then show ?thesis unfolding All_def last by (subst all_loop.simps) (auto split: result.split option.split)
  qed
qed

text \<open>The iterator over the owner's root and the node after it, from the head of the branch.\<close>

theorem iterator_returns_witness:
  "\<exists>key w' gs. dag_Append sample_dag sample_child sample_key0 sample_world1 = (Ok key, w')
     \<and> All sample_graph w' (\<lambda>_. True) (GetIterator sample_graph sample_key0 ''main'' '''') = Some (Ok gs)
     \<and> distinct (map gnKey gs) \<and> map gnKey gs = [key, sample_key0]"
proof -
  obtain key w' where app: "dag_Append sample_dag sample_child sample_key0 sample_world1 = (Ok key, w')"
    by (rule sample_child_append)
  have da: "gDa sample_graph = NewDag sample_env ''ns''" by (simp add: sample_graph_def sample_dag_def)
  obtain ns where sv: "saved sample_dag (hexHash sample_env) sample_child ns sample_world1 key w'"
    using local_dag.append_saved [OF app [unfolded sample_dag_def], folded sample_dag_def] by blast
  have keys: "key \<noteq> ''''" "sample_key0 \<noteq> ''''"
    using sv sample_key0_hash hexHash_neq_Nil [OF sample_sizes] by (auto simp: saved_def)
  have root: "getNodeByKey sample_dag sample_key0 w' = Ok (Some sample_root)"
    using local_dag.saved_getNode_keeps [OF sv [unfolded sample_dag_def] sample_child_clash [unfolded sample_dag_def]] sample_root_at
    by (simp add: sample_dag_def)
  have "GetLast sample_dag sample_key0 ''main'' w' = Ok (Some sample_child, key)"
    using local_dag.append_head(2) [OF app [unfolded sample_dag_def] sample_child_ok sample_child_clash [unfolded sample_dag_def]]
    by (simp add: sample_dag_def sample_child_def)
  moreover have "getNodeByKey sample_dag key w' = Ok (Some sample_child)"
    using local_dag.saved_getNode [OF sv [unfolded sample_dag_def] sample_child_ok] by (simp add: sample_dag_def)
  moreover have "nPrevious sample_child = sample_key0" "nPrevious sample_root = ''''"
    by (simp_all add: sample_child_def sample_root_def)
  ultimately have "timeline sample_graph w' sample_key0 ''main'' [(key, sample_child), (sample_key0, sample_root)]"
    using root keys by (simp add: timeline_def sample_graph_def)
  from All_timeline [OF this keys(2), of "\<lambda>_. True"]
  have all: "All sample_graph w' (\<lambda>_. True) (GetIterator sample_graph sample_key0 ''main'' '''')
      = Some (Ok [toGraphNode key sample_child, toGraphNode sample_key0 sample_root])"
    by (simp add: GetIterator_def)
  have "distinct (map gnKey [toGraphNode key sample_child, toGraphNode sample_key0 sample_root])"
    using iterator_returns [OF sample_rooted [OF app] da, of sample_key0 "''main''" "''''" "\<lambda>_. True", unfolded all] by simp
  with app all show ?thesis by (auto simp: toGraphNode_def)
qed

end
