(* ===== verification/NameBackends.thy ===== *)
theory NameBackends
  imports Resolver
begin

text \<open>
  The backends that keep the names of a resolver: their interface (\<^verbatim>\<open>resolver/backend.go\<close>) as the
  locale \<open>name_backend\<close>, the backend in memory (\<^verbatim>\<open>resolver/memory_backend.go\<close>), and the one on a
  Bolt database (\<^verbatim>\<open>resolver/bolt_backend.go\<close>), whose operations are parameters.
\<close>

section \<open>The interface\<close>

text \<open>
  In a state that is \<open>ready\<close>, a name that was added resolves to its value when it is a name at all;
  no other name changes, and a failed \<open>Add\<close> changes nothing.
\<close>

locale name_backend =
  fixes Add :: "string \<Rightarrow> string \<Rightarrow> (unit, 's) io"
    and Resolve :: "string \<Rightarrow> 's \<Rightarrow> string result"
    and named :: "string \<Rightarrow> bool"
    and ready :: "'s \<Rightarrow> bool"
  assumes ready_add: "ready s \<Longrightarrow> Add n v s = (r, s') \<Longrightarrow> ready s'"
    and resolve_add: "ready s \<Longrightarrow> named n \<Longrightarrow> Add n v s = (Ok (), s') \<Longrightarrow> Resolve n s' = Ok v"
    and resolve_other: "ready s \<Longrightarrow> Add n v s = (r, s') \<Longrightarrow> n' \<noteq> n \<Longrightarrow> Resolve n' s' = Resolve n' s"
    and resolve_failed: "ready s \<Longrightarrow> Add n v s = (r, s') \<Longrightarrow> \<not> is_ok r \<Longrightarrow> Resolve n' s' = Resolve n' s"
begin

text \<open>A run of additions, with what each returned.\<close>

fun run :: "(string \<times> string) list \<Rightarrow> 's \<Rightarrow> (string \<times> string \<times> unit result) list \<times> 's" where
  "run [] s = ([], s)"
| "run ((n, v) # xs) s = (case Add n v s of (r, s1) \<Rightarrow> (case run xs s1 of (rs, s2) \<Rightarrow> ((n, v, r) # rs, s2)))"

text \<open>The last value that was added with success under a name.\<close>

fun last_added :: "string \<Rightarrow> (string \<times> string \<times> unit result) list \<Rightarrow> string option" where
  "last_added n [] = None"
| "last_added n ((n', v, r) # rs) = (case last_added n rs of
     Some v' \<Rightarrow> Some v' | None \<Rightarrow> if n' = n \<and> is_ok r then Some v else None)"

lemma resolve_run:
  "ready s \<Longrightarrow> named n \<Longrightarrow> run xs s = (rs, s') \<Longrightarrow>
     ready s' \<and> Resolve n s' = (case last_added n rs of Some v \<Rightarrow> Ok v | None \<Rightarrow> Resolve n s)"
proof (induction xs arbitrary: s rs)
  case (Cons x xs)
  obtain m v where x: "x = (m, v)" by fastforce
  obtain r s1 where add: "Add m v s = (r, s1)" by fastforce
  obtain rs1 where run: "run xs s1 = (rs1, s')" "rs = (m, v, r) # rs1"
    using Cons.prems(3) add by (auto simp: x split: prod.splits)
  have one: "ready s1" "Resolve n s1 = (if m = n \<and> is_ok r then Ok v else Resolve n s)"
    using Cons.prems(1,2) add ready_add resolve_add [of s n v s1] resolve_other [OF _ add] resolve_failed [OF _ add]
    by (cases r; auto)+
  show ?case
    using Cons.IH [OF one(1) Cons.prems(2) run(1)] one(2) by (auto simp: run(2) split: option.split)
qed simp

end

text \<open>A resolver is a backend in which every text is a name and every state is ready.\<close>

sublocale name_table \<subseteq> log: name_backend Add Resolve "\<lambda>_. True" "\<lambda>_. True"
  by unfold_locales (auto intro: resolve_add resolve_add_other resolve_add_failed)

text \<open>So after any run of additions to the resolver in memory, a name resolves to the last that succeeded.\<close>

lemma local_resolver_run:
  "local_resolver.log.run E xs s = (rs, s') \<Longrightarrow>
     local_Resolve E n s' = (case local_resolver.log.last_added n rs of Some v \<Rightarrow> Ok v | None \<Rightarrow> local_Resolve E n s)"
  using local_resolver.log.resolve_run by blast

section \<open>In memory\<close>

text \<open>Its cache has no lifetime, so the times of the calls do not matter.\<close>

interpretation memory_names: name_backend "memory_Add now" "memory_Resolve now'" "\<lambda>_. True" "\<lambda>s. defaultTTL s = 0"
  for now now'
  by unfold_locales
    (auto simp: memory_Add_def memory_Resolve_def cache_Add_def AddWithTTL_def cache_Get_def IsExpired_def)

section \<open>On a Bolt database\<close>

text \<open>
  A database \<open>'d\<close> runs functions in transactions: \<open>Update\<close> in one that writes, \<open>View\<close> in one
  that reads.  In a transaction \<open>'t\<close> buckets are found by name; \<open>Get\<close> gives \<open>None\<close> for a key that is
  not there.
\<close>

record ('d, 't) bolt =
  db_Update :: "(unit, 't) io \<Rightarrow> (unit, 'd) io"
  db_View :: "('t \<Rightarrow> string result) \<Rightarrow> 'd \<Rightarrow> string result"
  tx_CreateBucketIfNotExists :: "bytes \<Rightarrow> (unit, 't) io"
  tx_Bucket :: "bytes \<Rightarrow> 't \<Rightarrow> bool"
  bucket_Put :: "bytes \<Rightarrow> bytes \<Rightarrow> bytes \<Rightarrow> (unit, 't) io"
  bucket_Get :: "bytes \<Rightarrow> bytes \<Rightarrow> 't \<Rightarrow> bytes option"

definition namesBucket :: string where
  "namesBucket = ''resolver_names''"

definition NewBoltBackend :: "('d, 't) bolt \<Rightarrow> (unit, 'd) io" where
  "NewBoltBackend B = bind_io (db_Update B (\<lambda>tx.
     bind_io (tx_CreateBucketIfNotExists B (bytes_of namesBucket)) (\<lambda>_. return_io ()) tx)) (\<lambda>_. return_io ())"

definition bolt_Add :: "('d, 't) bolt \<Rightarrow> string \<Rightarrow> string \<Rightarrow> (unit, 'd) io" where
  "bolt_Add B name v = db_Update B (\<lambda>tx.
     if \<not> tx_Bucket B (bytes_of namesBucket) tx then (Ok (), tx)
     else bucket_Put B (bytes_of namesBucket) (bytes_of name) (bytes_of v) tx)"

text \<open>Without the bucket the value stays the empty string.\<close>

definition bolt_Resolve :: "crypto_env \<Rightarrow> ('d, 't) bolt \<Rightarrow> string \<Rightarrow> 'd \<Rightarrow> string result" where
  "bolt_Resolve E B name d =
     (case getQueryNameRequestFromName E name of
        Panic \<Rightarrow> Panic
      | Err er \<Rightarrow> Err er
      | Ok _ \<Rightarrow> db_View B (\<lambda>tx.
          if \<not> tx_Bucket B (bytes_of namesBucket) tx then Ok ''''
          else (case bucket_Get B (bytes_of namesBucket) (bytes_of name) tx of
                  None \<Rightarrow> Err ResolverErrNotFound
                | Some data \<Rightarrow> Ok (string_of data))) d)"

text \<open>
  The documented contract of an open database, where \<open>snap\<close> is what it holds: a function
  that returns no error is committed, any other leaves the database as it was; a bucket is a map
  from keys to values.
\<close>

definition bolt_laws :: "('d, 't) bolt \<Rightarrow> ('d \<Rightarrow> 't) \<Rightarrow> bool" where
  "bolt_laws B snap \<longleftrightarrow>
     (\<forall>f d r d'. db_Update B f d = (r, d') \<longrightarrow>
        (r = Ok () \<longrightarrow> f (snap d) = (Ok (), snap d')) \<and> (\<not> is_ok r \<longrightarrow> snap d' = snap d))
   \<and> (\<forall>f d. db_View B f d = f (snap d))
   \<and> (\<forall>b t r t'. tx_CreateBucketIfNotExists B b t = (r, t') \<longrightarrow>
        (is_ok r \<longrightarrow> tx_Bucket B b t') \<and> (\<forall>k. tx_Bucket B b t \<longrightarrow> bucket_Get B b k t' = bucket_Get B b k t))
   \<and> (\<forall>b k v t t'. tx_Bucket B b t \<longrightarrow> bucket_Put B b k v t = (Ok (), t') \<longrightarrow>
        tx_Bucket B b t' \<and> (\<forall>k'. bucket_Get B b k' t' = (if k' = k then Some v else bucket_Get B b k' t)))"

definition bolt_ready :: "('d, 't) bolt \<Rightarrow> ('d \<Rightarrow> 't) \<Rightarrow> 'd \<Rightarrow> bool" where
  "bolt_ready B snap d \<longleftrightarrow> tx_Bucket B (bytes_of namesBucket) (snap d)"

definition is_name :: "crypto_env \<Rightarrow> string \<Rightarrow> bool" where
  "is_name E n \<longleftrightarrow> is_ok (getQueryNameRequestFromName E n)"

lemma bolt_Update:
  assumes "bolt_laws B snap" and "db_Update B f d = (r, d')"
  shows "r = Ok () \<Longrightarrow> f (snap d) = (Ok (), snap d')" "\<not> is_ok r \<Longrightarrow> snap d' = snap d"
  using assms unfolding bolt_laws_def by blast+

lemma bolt_View: "bolt_laws B snap \<Longrightarrow> db_View B f d = f (snap d)"
  unfolding bolt_laws_def by blast

lemma bolt_Put:
  assumes "bolt_laws B snap" and "tx_Bucket B b t" and "bucket_Put B b k v t = (Ok (), t')"
  shows "tx_Bucket B b t'" "bucket_Get B b k' t' = (if k' = k then Some v else bucket_Get B b k' t)"
  using assms unfolding bolt_laws_def by blast+

lemma bolt_Create:
  assumes "bolt_laws B snap" and "tx_CreateBucketIfNotExists B b t = (Ok u, t')"
  shows "tx_Bucket B b t'" "tx_Bucket B b t \<Longrightarrow> bucket_Get B b k t' = bucket_Get B b k t"
  using assms unfolding bolt_laws_def by (metis is_ok.simps(1))+

text \<open>A successful \<open>Add\<close> puts exactly one value; a failed one leaves the database alone.\<close>

lemma bolt_Add_cases:
  assumes "bolt_laws B snap" and "bolt_ready B snap d" and "bolt_Add B n v d = (r, d')"
  shows "bolt_ready B snap d'"
    "bucket_Get B (bytes_of namesBucket) (bytes_of n') (snap d')
       = (if n' = n \<and> is_ok r then Some (bytes_of v) else bucket_Get B (bytes_of namesBucket) (bytes_of n') (snap d))"
proof -
  let ?b = "bytes_of namesBucket"
  have up: "r = Ok () \<Longrightarrow> bucket_Put B ?b (bytes_of n) (bytes_of v) (snap d) = (Ok (), snap d')"
      "\<not> is_ok r \<Longrightarrow> snap d' = snap d"
    using bolt_Update [OF assms(1) assms(3) [unfolded bolt_Add_def]] assms(2) by (simp_all add: bolt_ready_def)
  note put = bolt_Put [OF assms(1) assms(2) [unfolded bolt_ready_def]]
  show "bolt_ready B snap d'"
    using up put(1) assms(2) by (cases r) (auto simp: bolt_ready_def)
  show "bucket_Get B ?b (bytes_of n') (snap d')
       = (if n' = n \<and> is_ok r then Some (bytes_of v) else bucket_Get B ?b (bytes_of n') (snap d))"
    using up put(2) by (cases r) auto
qed

lemma bolt_Resolve_eq:
  assumes "bolt_laws B snap" and "bolt_ready B snap d" and "is_name E n"
  shows "bolt_Resolve E B n d = (case bucket_Get B (bytes_of namesBucket) (bytes_of n) (snap d) of
     None \<Rightarrow> Err ResolverErrNotFound | Some data \<Rightarrow> Ok (string_of data))"
  using assms by (auto simp: bolt_Resolve_def bolt_View bolt_ready_def is_name_def is_ok_iff split: option.split)

lemma bolt_Resolve_no_name:
  assumes "\<not> is_name E n"
  shows "bolt_Resolve E B n d = (case getQueryNameRequestFromName E n of Err er \<Rightarrow> Err er | _ \<Rightarrow> Panic)"
  using assms by (auto simp: bolt_Resolve_def is_name_def split: result.split)

lemma bolt_names:
  assumes "bolt_laws B snap"
  shows "name_backend (bolt_Add B) (bolt_Resolve E B) (is_name E) (bolt_ready B snap)"
proof
  note add = bolt_Add_cases [OF assms]
  show "bolt_ready B snap s'" if "bolt_ready B snap s" "bolt_Add B n v s = (r, s')" for s n v r s'
    using add(1) that by blast
  have eq: "bolt_Resolve E B n' s' = (if n' = n \<and> is_ok r \<and> is_name E n then Ok v else bolt_Resolve E B n' s)"
    if "bolt_ready B snap s" "bolt_Add B n v s = (r, s')" for s n v r s' n'
    using add(1) [OF that] add(2) [OF that, of n'] that(1) bolt_Resolve_no_name [of E n' B] bolt_Resolve_eq [OF assms, of _ E n']
    by (cases "is_name E n'") auto
  show "bolt_Resolve E B n s' = Ok v"
    if "bolt_ready B snap s" "is_name E n" "bolt_Add B n v s = (Ok (), s')" for s n v s'
    using eq that by simp
  show "bolt_Resolve E B n' s' = bolt_Resolve E B n' s"
    if "bolt_ready B snap s" "bolt_Add B n v s = (r, s')" "n' \<noteq> n" for s n v r s' n'
    using eq that by simp
  show "bolt_Resolve E B n' s' = bolt_Resolve E B n' s"
    if "bolt_ready B snap s" "bolt_Add B n v s = (r, s')" "\<not> is_ok r" for s n v r s' n'
    using eq that by simp
qed

lemma NewBoltBackend_ready:
  assumes "bolt_laws B snap" and "NewBoltBackend B d = (Ok (), d')"
  shows "bolt_ready B snap d'"
proof -
  have "db_Update B (\<lambda>tx. bind_io (tx_CreateBucketIfNotExists B (bytes_of namesBucket)) (\<lambda>_. return_io ()) tx) d = (Ok (), d')"
    using assms(2) by (auto simp: NewBoltBackend_def bind_io_eq_Ok)
  from bolt_Update(1) [OF assms(1) this] show ?thesis
    using bolt_Create(1) [OF assms(1)] by (auto simp: bind_io_eq_Ok bolt_ready_def)
qed

section \<open>A database in memory\<close>

text \<open>An executable instance of the database; as in Bolt, the empty key is refused.\<close>

definition memory_bolt :: "(bytes \<rightharpoonup> bytes \<rightharpoonup> bytes, bytes \<rightharpoonup> bytes \<rightharpoonup> bytes) bolt" where
  "memory_bolt = \<lparr>
     db_Update = (\<lambda>f d. case f d of (Ok u, d') \<Rightarrow> (Ok u, d') | (r, _) \<Rightarrow> (r, d)),
     db_View = (\<lambda>f d. f d),
     tx_CreateBucketIfNotExists = (\<lambda>b t. (Ok (), case t b of None \<Rightarrow> t(b \<mapsto> Map.empty) | Some _ \<Rightarrow> t)),
     tx_Bucket = (\<lambda>b t. t b \<noteq> None),
     bucket_Put = (\<lambda>b k v t. if k = [] then (Err (ErrBackend 0), t)
       else (Ok (), case t b of None \<Rightarrow> t | Some m \<Rightarrow> t(b \<mapsto> m(k \<mapsto> v)))),
     bucket_Get = (\<lambda>b k t. case t b of None \<Rightarrow> None | Some m \<Rightarrow> m k)\<rparr>"

lemma memory_bolt_laws: "bolt_laws memory_bolt (\<lambda>d. d)"
  by (auto simp: bolt_laws_def memory_bolt_def split: option.splits prod.splits result.splits)

lemma memory_bolt_Add:
  "bolt_Add memory_bolt n v d = (case d (bytes_of namesBucket) of
     None \<Rightarrow> (Ok (), d)
   | Some m \<Rightarrow> if n = '''' then (Err (ErrBackend 0), d)
       else (Ok (), d(bytes_of namesBucket \<mapsto> m(bytes_of n \<mapsto> bytes_of v))))"
  by (simp add: bolt_Add_def memory_bolt_def split: option.split)

section \<open>Properties\<close>

text \<open>
  The names kept in a Bolt database.  After \<open>NewBoltBackend\<close> and any run of additions, whatever
  each of them returned, a name resolves to the last value that was added under it with success; if
  there is none, to what it was before the run.
\<close>

theorem bolt_last_value:
  assumes "bolt_laws B snap" and "NewBoltBackend B d = (Ok (), d1)"
    and "name_backend.run (bolt_Add B) xs d1 = (rs, d2)" and "is_name E n"
  shows "bolt_Resolve E B n d2 = (case name_backend.last_added n rs of
     Some v \<Rightarrow> Ok v | None \<Rightarrow> bolt_Resolve E B n d1)"
  using name_backend.resolve_run [OF bolt_names [OF assms(1)] NewBoltBackend_ready [OF assms(1,2)] assms(4,3)] by simp

text \<open>
  Without its bucket a Bolt backend loses what it is given: \<open>Add\<close> changes nothing, also when it
  reports success, and \<open>Resolve\<close> gives every name the empty text instead of \<open>ErrNotFound\<close>.
\<close>

theorem bolt_without_bucket:
  assumes "bolt_laws B snap" and "\<not> bolt_ready B snap d" and "bolt_Add B n v d = (r, d')" and "is_name E n'"
  shows "snap d' = snap d \<and> bolt_Resolve E B n' d' = Ok ''''"
proof -
  let ?f = "\<lambda>tx. if \<not> tx_Bucket B (bytes_of namesBucket) tx then (Ok (), tx)
     else bucket_Put B (bytes_of namesBucket) (bytes_of n) (bytes_of v) tx"
  have f: "?f (snap d) = (Ok (), snap d)" using assms(2) by (simp add: bolt_ready_def)
  have "snap d' = snap d"
    using bolt_Update [OF assms(1) assms(3) [unfolded bolt_Add_def]] f by (cases r) auto
  with assms(1,2,4) show ?thesis
    by (auto simp: bolt_Resolve_def bolt_View bolt_ready_def is_name_def is_ok_iff)
qed

end
