(* ===== verification/IpfsBackends.thy ===== *)
theory IpfsBackends
  imports NameBackends DataStore
begin

text \<open>
  \<^verbatim>\<open>resolver/ipfs_backend.go\<close> and \<^verbatim>\<open>datastore/ipfs-data-store.go\<close>: the names and the values kept in
  an IPFS node.  The operations of the node (its mutable file system MFS, UnixFS, blocks, content
  identifiers) are parameters.  The functions of Go's package \<^verbatim>\<open>path\<close> are written out.
\<close>

section \<open>Paths\<close>

text \<open>\<open>path.Split\<close>: everything up to the last slash, and the rest.\<close>

definition path_Split :: "string \<Rightarrow> string \<times> string" where
  "path_Split p = (let file = rev (takeWhile (\<lambda>c. c \<noteq> CHR ''/'') (rev p))
     in (take (length p - length file) p, file))"




lemma path_Split_join: "fst (path_Split p) @ snd (path_Split p) = p"
proof -
  let ?t = "takeWhile (\<lambda>c. c \<noteq> CHR ''/'') (rev p)"
  have "rev p = ?t @ drop (length ?t) (rev p)" by (metis append_take_drop_id takeWhile_eq_take)
  then have "p = rev (drop (length ?t) (rev p)) @ rev ?t" by (metis rev_append rev_rev_ident)
  then show ?thesis by (simp add: path_Split_def Let_def rev_drop)
qed

section \<open>The node\<close>

text \<open>
  Identifiers \<open>'c\<close>, nodes of the block graph \<open>'i\<close>, entries of the file system \<open>'e\<close>, and the state \<open>'f\<close>.
  \<open>cancelled\<close> is what is left of an open file when the context it was opened with is cancelled.
\<close>

datatype files_node = FileNode reader | OtherFileNode

record ('c, 'i, 'e, 'f) ipfs_node =
  NewCoreAPI :: "unit result"
  cid_Parse :: "string \<Rightarrow> 'c result"
  cid_String :: "'c \<Rightarrow> string"
  ResolveNode :: "'c \<Rightarrow> ('i, 'f) io"
  node_Cid :: "'i \<Rightarrow> 'c"
  Unixfs_Add :: "bytes \<Rightarrow> ('c, 'f) io"
  Unixfs_Get :: "'c \<Rightarrow> (files_node, 'f) io"
  cancelled :: "reader \<Rightarrow> reader"
  Block_Rm :: "'c \<Rightarrow> (unit, 'f) io"
  mfs_Lookup :: "string \<Rightarrow> ('e, 'f) io"
  mfs_Mkdir :: "string \<Rightarrow> (unit, 'f) io"   \<comment> \<open>with parents, flushed\<close>
  mfs_PutNode :: "string \<Rightarrow> 'i \<Rightarrow> (unit, 'f) io"
  is_Directory :: "'e \<Rightarrow> bool"
  GetNode :: "'e \<Rightarrow> ('i, 'f) io"
  dir_Unlink :: "'e \<Rightarrow> string \<Rightarrow> (unit, 'f) io"
  dir_Flush :: "'e \<Rightarrow> (unit, 'f) io"

section \<open>Names\<close>

definition NewIpfsBackend :: "('c, 'i, 'e, 'f) ipfs_node \<Rightarrow> Address \<Rightarrow> unit result" where
  "NewIpfsBackend I signerAddr =
     (if \<not> HasKeys signerAddr then Err ErrNoPrivateKey else NewCoreAPI I)"

text \<open>The existing entry of a name is unlinked from its directory.\<close>

definition unlink_existing :: "('c, 'i, 'e, 'f) ipfs_node \<Rightarrow> string \<Rightarrow> string \<Rightarrow> (unit, 'f) io" where
  "unlink_existing I dirtomake file =
     bind_io (map_error_io (\<lambda>_. ErrText ''parent lookup: '') (mfs_Lookup I dirtomake)) (\<lambda>parent.
     if \<not> is_Directory I parent then fail_io (ErrText ''no such file or directory: '')
     else
       bind_io (dir_Unlink I parent file) (\<lambda>_.
       bind_io (attempt (dir_Flush I parent)) (\<lambda>_. return_io ())))"

text \<open>Everything before the new node is put: it gives that node, and the name is free.\<close>

definition clear_name :: "('c, 'i, 'e, 'f) ipfs_node \<Rightarrow> string \<Rightarrow> string \<Rightarrow> ('i, 'f) io" where
  "clear_name I name v =
     bind_io (read_io (\<lambda>_. cid_Parse I v)) (\<lambda>c.
     bind_io (ResolveNode I c) (\<lambda>ipldNode.
     bind_io (attempt (mfs_Lookup I name)) (\<lambda>filesExists.
     case path_Split name of (dirtomake, file) \<Rightarrow>
     bind_io (mfs_Mkdir I dirtomake) (\<lambda>_.
     bind_io (if filesExists then unlink_existing I dirtomake file else return_io ()) (\<lambda>_.
     return_io ipldNode)))))"

text \<open>The error of \<open>PutNode\<close> is logged only.\<close>

definition ipfs_backend_Add :: "('c, 'i, 'e, 'f) ipfs_node \<Rightarrow> string \<Rightarrow> string \<Rightarrow> (unit, 'f) io" where
  "ipfs_backend_Add I name v =
     bind_io (clear_name I name v) (\<lambda>ipldNode.
     bind_io (attempt (mfs_PutNode I name ipldNode)) (\<lambda>_.
     return_io ()))"

definition ipfs_backend_Resolve :: "crypto_env \<Rightarrow> ('c, 'i, 'e, 'f) ipfs_node \<Rightarrow> string \<Rightarrow> (string, 'f) io" where
  "ipfs_backend_Resolve E I name =
     bind_io (read_io (\<lambda>_. getQueryNameRequestFromName E name)) (\<lambda>_.
     bind_io (mfs_Lookup I name) (\<lambda>node.
     bind_io (GetNode I node) (\<lambda>n.
     return_io (cid_String I (node_Cid I n)))))"

section \<open>Values\<close>

definition IpfsErrPrefix :: string where
  "IpfsErrPrefix = ''IpfsDataStore: ''"

definition ipfs_error :: "string \<Rightarrow> error \<Rightarrow> error" where
  "ipfs_error t _ = ErrText (IpfsErrPrefix @ t)"

definition NewIPFSDataStore :: "('c, 'i, 'e, 'f) ipfs_node \<Rightarrow> unit result" where
  "NewIPFSDataStore I = NewCoreAPI I"




text \<open>The file is opened with a context that is cancelled when \<open>Get\<close> returns.\<close>

definition ipfs_Get :: "('c, 'i, 'e, 'f) ipfs_node \<Rightarrow> string \<Rightarrow> (reader, 'f) io" where
  "ipfs_Get I key =
     bind_io (read_io (\<lambda>_. cid_Parse I key)) (\<lambda>c.
     bind_io (map_error_io (\<lambda>er. if er = ErrDeadlineExceeded then DatastoreErrNotFound
         else ipfs_error ''could not Unixfs.Get data with CID: '' er) (Unixfs_Get I c)) (\<lambda>node.
     case node of
       FileNode reader \<Rightarrow> return_io (cancelled I reader)
     | OtherFileNode \<Rightarrow> fail_io (ErrText (IpfsErrPrefix @ ''not a file: ''))))"

section \<open>Contracts\<close>

text \<open>What a path of the file system holds: the entry found there gives a block node.\<close>

definition mfs_holds :: "('c, 'i, 'e, 'f) ipfs_node \<Rightarrow> string \<Rightarrow> 'i \<Rightarrow> 'f \<Rightarrow> bool" where
  "mfs_holds I p i s \<longleftrightarrow> (\<exists>e s1 s2. mfs_Lookup I p s = (Ok e, s1) \<and> GetNode I e s1 = (Ok i, s2))"

text \<open>The documented contract of the file system and of \<open>ResolveNode\<close>, as far as names need it.\<close>

definition mfs_laws :: "('c, 'i, 'e, 'f) ipfs_node \<Rightarrow> bool" where
  "mfs_laws I \<longleftrightarrow>
     (\<forall>c s i s'. ResolveNode I c s = (Ok i, s') \<longrightarrow> node_Cid I i = c)
   \<and> (\<forall>p i s s'. mfs_PutNode I p i s = (Ok (), s') \<longrightarrow> mfs_holds I p i s')"


definition absent :: "('c, 'i, 'e, 'f) ipfs_node \<Rightarrow> string \<Rightarrow> 'f \<Rightarrow> bool" where
  "absent I p s \<longleftrightarrow> (\<exists>er s'. mfs_Lookup I p s = (Err er, s'))"

definition unlink_laws :: "('c, 'i, 'e, 'f) ipfs_node \<Rightarrow> bool" where
  "unlink_laws I \<longleftrightarrow>
     (\<forall>c p i. keeps (mfs_holds I p i) (ResolveNode I c))
   \<and> (\<forall>p d s s1 s2. snd (path_Split p) \<noteq> '''' \<longrightarrow> mfs_Lookup I (fst (path_Split p)) s = (Ok d, s1)
        \<longrightarrow> dir_Unlink I d (snd (path_Split p)) s1 = (Ok (), s2) \<longrightarrow> absent I p s2)
   \<and> (\<forall>p d. keeps (absent I p) (dir_Flush I d))
   \<and> (\<forall>p i s er s'. absent I p s \<longrightarrow> mfs_PutNode I p i s = (Err er, s') \<longrightarrow> absent I p s')"


lemma unlink_lawsD:
  assumes "unlink_laws I"
  shows "keeps (mfs_holds I p i) (ResolveNode I c)" "keeps (absent I p) (dir_Flush I d)"
    and "snd (path_Split p) \<noteq> '''' \<Longrightarrow> mfs_Lookup I (fst (path_Split p)) s = (Ok d, s1) \<Longrightarrow>
      dir_Unlink I d (snd (path_Split p)) s1 = (Ok (), s2) \<Longrightarrow> absent I p s2"
    and "absent I p s \<Longrightarrow> mfs_PutNode I p i s = (Err er, s') \<Longrightarrow> absent I p s'"
  using assms unfolding unlink_laws_def by (elim conjE, simp)+








lemma clear_name_node:
  assumes "mfs_laws I" and "cid_Parse I v = Ok c" and "clear_name I n v s = (Ok i, s')"
  shows "node_Cid I i = c"
proof -
  obtain s0 where "ResolveNode I c s = (Ok i, s0)"
    using assms(2,3) by (cases "path_Split n") (auto simp: clear_name_def bind_io_eq_Ok attempt_eq_Ok)
  then show ?thesis using assms(1) unfolding mfs_laws_def by blast
qed

lemma ipfs_Resolve_holds:
  assumes "is_name E n" and "mfs_holds I n i s"
  shows "\<exists>s'. ipfs_backend_Resolve E I n s = (Ok (cid_String I (node_Cid I i)), s')"
  using assms by (auto simp: ipfs_backend_Resolve_def is_name_def is_ok_iff mfs_holds_def bind_io_def read_io_def return_io_def)

section \<open>A node in memory\<close>

text \<open>
  An executable instance: a tree of directories (\<open>None\<close>) and files, blocks that are their own
  identifiers, and room for a number of further files.
\<close>

record memory_fs =
  tree :: "string list \<rightharpoonup> string option"
  blocks :: "string \<rightharpoonup> bytes"
  room :: nat

definition elements :: "string \<Rightarrow> string list" where
  "elements p = filter (\<lambda>x. x \<noteq> '''') (Split p CHR ''/'')"

definition entry_at :: "string list \<Rightarrow> memory_fs \<Rightarrow> string option option" where
  "entry_at q s = (if q = [] then Some None else tree s q)"

text \<open>The directories on the way, unless a file is in it.\<close>

fun make_dirs :: "string list \<Rightarrow> string list \<Rightarrow> (string list \<rightharpoonup> string option) \<Rightarrow> (string list \<rightharpoonup> string option) option" where
  "make_dirs q [] t = Some t"
| "make_dirs q (x # xs) t = (case t (q @ [x]) of
     None \<Rightarrow> make_dirs (q @ [x]) xs (t(q @ [x] \<mapsto> None))
   | Some None \<Rightarrow> make_dirs (q @ [x]) xs t
   | Some (Some _) \<Rightarrow> None)"

definition memory_node :: "(string, string, string list \<times> string option, memory_fs) ipfs_node" where
  "memory_node = \<lparr>
     NewCoreAPI = Ok (),
     cid_Parse = Ok,
     cid_String = (\<lambda>c. c),
     ResolveNode = (\<lambda>c s. (if blocks s c = None then Err ErrDeadlineExceeded else Ok c, s)),
     node_Cid = (\<lambda>i. i),
     Unixfs_Add = (\<lambda>b s. (Ok (string_of b), s\<lparr>blocks := (blocks s)(string_of b \<mapsto> b)\<rparr>)),
     Unixfs_Get = (\<lambda>c s. (case blocks s c of
        None \<Rightarrow> Err ErrDeadlineExceeded | Some b \<Rightarrow> Ok (FileNode (Reader b None)), s)),
     cancelled = (\<lambda>rd. case rd of Reader b er \<Rightarrow> if length b \<le> 8 then rd else Reader (take 8 b) (Some ErrContextDone)),
     Block_Rm = (\<lambda>c s. (Ok (), s\<lparr>blocks := (blocks s)(c := None)\<rparr>)),
     mfs_Lookup = (\<lambda>p s. (case entry_at (elements p) s of
        None \<Rightarrow> Err (ErrText ''file does not exist'') | Some e \<Rightarrow> Ok (elements p, e), s)),
     mfs_Mkdir = (\<lambda>p s. case make_dirs [] (elements p) (tree s) of
        None \<Rightarrow> (Err (ErrText ''not a directory''), s) | Some t \<Rightarrow> (Ok (), s\<lparr>tree := t\<rparr>)),
     mfs_PutNode = (\<lambda>p i s.
        if elements p = [] \<or> entry_at (elements p) s \<noteq> None \<or> entry_at (butlast (elements p)) s \<noteq> Some None
        then (Err (ErrText ''file already exists''), s)
        else if room s = 0 then (Err (ErrText ''no space''), s)
        else (Ok (), s\<lparr>tree := (tree s)(elements p \<mapsto> Some i), room := room s - 1\<rparr>)),
     is_Directory = (\<lambda>e. snd e = None),
     GetNode = (\<lambda>e s. (case snd e of Some i \<Rightarrow> Ok i | None \<Rightarrow> Ok ''dir'', s)),
     dir_Unlink = (\<lambda>e f s. (Ok (), s\<lparr>tree := (tree s)(fst e @ [f] := None)\<rparr>)),
     dir_Flush = (\<lambda>e s. (Ok (), s))\<rparr>"

lemma memory_mfs_laws: "mfs_laws memory_node"
  by (auto simp: mfs_laws_def mfs_holds_def memory_node_def entry_at_def split: if_splits)



lemma memory_absent [simp]: "absent memory_node p s \<longleftrightarrow> entry_at (elements p) s = None"
  by (auto simp: absent_def memory_node_def split: option.splits)


text \<open>The elements of a path are those of its directory and the file.\<close>

lemma Split_append: "Split (s @ sep # t) sep = Split s sep @ Split t sep"
  by (induction s) (auto simp: Split_neq_Nil split: list.splits)

lemma elements_split:
  assumes "snd (path_Split p) \<noteq> ''''"
  shows "elements p = elements (fst (path_Split p)) @ [snd (path_Split p)]"
proof -
  let ?t = "takeWhile (\<lambda>c. c \<noteq> CHR ''/'') (rev p)"
  have name: "snd (path_Split p) = rev ?t" by (simp add: path_Split_def Let_def)
  then have no: "CHR ''/'' \<notin> set (snd (path_Split p))" by (auto dest: set_takeWhileD)
  have "p = rev (dropWhile (\<lambda>c. c \<noteq> CHR ''/'') (rev p)) @ rev ?t"
    by (metis rev_append rev_rev_ident takeWhile_dropWhile_id)
  then have dir: "fst (path_Split p) = rev (dropWhile (\<lambda>c. c \<noteq> CHR ''/'') (rev p))"
    using path_Split_join [of p] name by (metis append_same_eq)
  show ?thesis
  proof (cases "dropWhile (\<lambda>c. c \<noteq> CHR ''/'') (rev p)")
    case Nil
    then have p: "p = snd (path_Split p)" using dir path_Split_join [of p] by (metis append_Nil rev.simps(1))
    have "Split p (CHR ''/'') = [p]" using Split_no_sep [OF no] unfolding p [symmetric] .
    moreover have "p \<noteq> ''''" using assms unfolding p [symmetric] .
    moreover have "fst (path_Split p) = ''''" by (simp add: dir Nil)
    ultimately show ?thesis unfolding p [symmetric] by (simp add: elements_def)
  next
    case (Cons c xs)
    then have "c = CHR ''/''" using hd_dropWhile [of "\<lambda>c. c \<noteq> CHR ''/''" "rev p"] by auto
    then have d: "fst (path_Split p) = rev xs @ [CHR ''/'']" using dir Cons by simp
    then have "p = rev xs @ CHR ''/'' # snd (path_Split p)" using path_Split_join [of p] by simp
    then have "Split p (CHR ''/'') = Split (rev xs) (CHR ''/'') @ [snd (path_Split p)]"
      using Split_append [of "rev xs" "CHR ''/''" "snd (path_Split p)"] Split_no_sep [OF no] by simp
    then show ?thesis using assms Split_append [of "rev xs" "CHR ''/''" "[]"] by (simp add: elements_def d)
  qed
qed

lemma memory_unlink_laws: "unlink_laws memory_node"
  unfolding unlink_laws_def memory_absent
  by (intro conjI allI impI)
    (auto simp: keeps_def mfs_holds_def memory_node_def entry_at_def elements_split split: if_splits option.splits)

section \<open>Properties\<close>





text \<open>
  C38: a lost name.  A name that has a value, and resolves to it, is unlinked before the new value is put under it; when the
  file system then refuses the new one, with whatever error, \<open>Add\<close> returns none although the name has neither value and does not resolve any more.
\<close>

theorem ipfs_add_loses_name:
  assumes "unlink_laws I" and "is_name E n" and "snd (path_Split n) \<noteq> ''''" and "mfs_holds I n old s"
    and "clear_name I n v s = (Ok i, s1)" and "mfs_PutNode I n i s1 = (Err er, s')"
  shows "(\<exists>t. ipfs_backend_Resolve E I n s = (Ok (cid_String I (node_Cid I old)), t))
    \<and> ipfs_backend_Add I n v s = (Ok (), s')
    \<and> (\<exists>er t. ipfs_backend_Resolve E I n s' = (Err er, t))"
proof -
  obtain dir fn where split: "path_Split n = (dir, fn)" by fastforce
  from assms(5) obtain c found sa sb sc where resolve: "ResolveNode I c s = (Ok i, sa)"
    and found: "attempt (mfs_Lookup I n) sa = (Ok found, sb)" and mkdir: "mfs_Mkdir I dir sb = (Ok (), sc)"
    and unlink: "(if found then unlink_existing I dir fn else return_io ()) sc = (Ok (), s1)"
    by (auto simp: clear_name_def split bind_io_eq_Ok)
  have "mfs_holds I n old sa" by (rule keepsD [OF unlink_lawsD(1) [OF assms(1)] assms(4) resolve])
  then have "found" using found by (auto simp: mfs_holds_def attempt_def)
  with unlink obtain d sd se r where d: "mfs_Lookup I dir sc = (Ok d, sd)" "dir_Unlink I d fn sd = (Ok (), se)"
    and flush: "dir_Flush I d se = (r, s1)"
    by (auto simp: unlink_existing_def bind_io_eq_Ok attempt_eq_Ok split: if_splits)
  have "absent I n se" using unlink_lawsD(3) [OF assms(1,3)] d by (simp add: split)
  from keepsD [OF unlink_lawsD(2) [OF assms(1)] this flush] have "absent I n s1" .
  then have "absent I n s'" by (rule unlink_lawsD(4) [OF assms(1) _ assms(6)])
  then have "\<exists>er t. ipfs_backend_Resolve E I n s' = (Err er, t)"
    using assms(2) by (auto simp: absent_def ipfs_backend_Resolve_def is_name_def is_ok_iff bind_io_def read_io_def)
  moreover have "ipfs_backend_Add I n v s = (Ok (), s')"
    using assms(5,6) by (simp add: ipfs_backend_Add_def bind_io_def attempt_def return_io_def)
  ultimately show ?thesis using ipfs_Resolve_holds [OF assms(2,4)] by blast
qed

text \<open>
  The names kept in IPFS.  Once the name is free, \<open>Add\<close> succeeds, whatever the file system answers when
  the node is put under the name; if it took the node, the name resolves to the identifier of the value.
\<close>

theorem ipfs_add_stores:
  assumes "mfs_laws I" and "is_name E n" and "cid_Parse I v = Ok c" and "clear_name I n v s = (Ok i, s1)"
    and "mfs_PutNode I n i s1 = (r, s')" and "r \<noteq> Panic"
  shows "ipfs_backend_Add I n v s = (Ok (), s')
    \<and> (is_ok r \<longrightarrow> (\<exists>s2. ipfs_backend_Resolve E I n s' = (Ok (cid_String I c), s2)))"
proof -
  have "ipfs_backend_Add I n v s = (Ok (), s')"
    using assms(4-6) by (cases r) (auto simp: ipfs_backend_Add_def bind_io_def attempt_def return_io_def)
  moreover have "\<exists>s2. ipfs_backend_Resolve E I n s' = (Ok (cid_String I c), s2)" if "is_ok r"
  proof -
    from that have "mfs_holds I n i s'" using assms(1,5) unfolding mfs_laws_def by (auto simp: is_ok_iff)
    from ipfs_Resolve_holds [OF assms(2) this] clear_name_node [OF assms(1,3,4)] show ?thesis by simp
  qed
  ultimately show ?thesis by blast
qed

end
