(* ===== verification/MessageJson.thy ===== *)
theory MessageJson
  imports Message Node
begin

text \<open>
  The JSON of messages (\<open>ToJson\<close> and \<open>FromJson\<close> of \<^verbatim>\<open>message/messages.go\<close>).  A message has a payload
  behind an interface, so \<open>FromJson\<close> reads the text into a generic map first, takes the payload out,
  writes the rest and the payload to JSON again, and reads each into its own type.
\<close>

section \<open>Writing\<close>

fun payload_json :: "payload \<Rightarrow> json" where
  "payload_json (StringPayload s) = JStr s"
| "payload_json (QueryPayload q) = JObj (str_field ''data'' (qData q) @ str_field ''reference'' (qReference q))"
| "payload_json (EventPayload e) = JObj (str_field ''name'' (N e) @
     (if D e = [] then [] else [(''data'', JStr (Base64Encode (D e)))]))"

text \<open>Only a nil payload is left out.\<close>

definition message_fields :: "Message \<Rightarrow> (string \<times> json) list" where
  "message_fields m =
     str_field ''timestamp'' (mTimestamp m) @
     str_field ''address'' (mAddress m) @
     str_field ''type'' (mType m) @
     (case mPayload m of None \<Rightarrow> [] | Some p \<Rightarrow> [(''payload'', payload_json p)]) @
     str_field ''publicKey'' (mPublicKey m) @
     str_field ''signature'' (mSignature m)"

definition Message_ToJson :: "Message \<Rightarrow> string result" where
  "Message_ToJson m = Ok (render (JObj (message_fields m)))"

section \<open>Generic values\<close>

text \<open>
  A number read into an interface becomes a \<open>float64\<close>; the decoder refuses the numbers that round
  to infinity.  The exponent stops growing at five digits, as in \<^verbatim>\<open>strconv\<close>.
\<close>

definition digits_value :: "string \<Rightarrow> nat" where
  "digits_value s = undigits 10 (map (\<lambda>c. code c - 48) s)"

definition exponent_value :: "string \<Rightarrow> int" where
  "exponent_value s =
     (case s of
        [] \<Rightarrow> 0
      | _ # r \<Rightarrow>
          (let neg = r \<noteq> [] \<and> hd r = CHR ''-'';
               ds = (if r \<noteq> [] \<and> \<not> is_digit (hd r) then tl r else r);
               e = foldl (\<lambda>e c. if e < 10000 then 10 * e + (int (code c) - 48) else e) 0 ds
           in if neg then - e else e))"

definition float64_bound :: nat where
  "float64_bound = 2 ^ 1024 - 2 ^ 970"

definition float64_ok :: "string \<Rightarrow> bool" where
  "float64_ok s =
     (let s = (if s \<noteq> [] \<and> hd s = CHR ''-'' then tl s else s);
          i = takeWhile is_digit s;
          r = dropWhile is_digit s;
          point = r \<noteq> [] \<and> hd r = CHR ''.'';
          f = (if point then takeWhile is_digit (tl r) else []);
          e = exponent_value (if point then dropWhile is_digit (tl r) else r) - int (length f);
          m = digits_value (i @ f)
      in if 0 \<le> e then m * 10 ^ nat e < float64_bound
         else m < float64_bound * 10 ^ nat (- e))"

text \<open>
  What \<^verbatim>\<open>json.Unmarshal\<close> makes of a value in a \<^verbatim>\<open>map[string]interface{}\<close>, written as the value that
  \<^verbatim>\<open>json.Marshal\<close> writes for it again: the last of equal keys counts, and keys come in order.  A
  number keeps its text: no field reads a number, so its digits never matter.
\<close>

fun iface :: "json \<Rightarrow> json option"
  and iface_elems :: "json list \<Rightarrow> json list option"
  and iface_members :: "(string \<times> json) list \<Rightarrow> (string \<times> json) list \<Rightarrow> (string \<times> json) list option"
where
  "iface (JNum n) = (if float64_ok n then Some (JNum n) else None)"
| "iface (JArr js) = map_option JArr (iface_elems js)"
| "iface (JObj kvs) = map_option JObj (iface_members [] kvs)"
| "iface JNull = Some JNull"
| "iface (JBool b) = Some (JBool b)"
| "iface (JStr s) = Some (JStr s)"
| "iface_elems [] = Some []"
| "iface_elems (j # js) =
     (case iface j of None \<Rightarrow> None | Some v \<Rightarrow> map_option (\<lambda>vs. v # vs) (iface_elems js))"
| "iface_members mp [] = Some mp"
| "iface_members mp ((k, j) # kvs) =
     (case iface j of None \<Rightarrow> None | Some v \<Rightarrow> iface_members (map_put k v mp) kvs)"

section \<open>Reading\<close>

datatype payload_type = StringPayloadType | QueryType | EventType

definition decode_query_field :: "string \<Rightarrow> json \<Rightarrow> Query \<Rightarrow> Query option" where
  "decode_query_field name j q =
     (let f = fold_name name in
      if f = ''DATA'' then map_option (\<lambda>v. q\<lparr>qData := v\<rparr>) (decode_string (qData q) j)
      else if f = ''REFERENCE'' then map_option (\<lambda>v. q\<lparr>qReference := v\<rparr>) (decode_string (qReference q) j)
      else Some q)"

definition decode_event_field :: "string \<Rightarrow> json \<Rightarrow> event \<Rightarrow> event option" where
  "decode_event_field name j e =
     (let f = fold_name name in
      if f = ''NAME'' then map_option (\<lambda>v. e\<lparr>N := v\<rparr>) (decode_string (N e) j)
      else if f = ''DATA'' then map_option (\<lambda>v. e\<lparr>D := v\<rparr>) (decode_bytes (D e) j)
      else Some e)"

text \<open>The payload is an interface with methods: only \<open>null\<close> can be read into it.\<close>

definition decode_message_field :: "string \<Rightarrow> json \<Rightarrow> Message \<Rightarrow> Message option" where
  "decode_message_field name j m =
     (let f = fold_name name in
      if f = ''TIMESTAMP'' then map_option (\<lambda>v. m\<lparr>mTimestamp := v\<rparr>) (decode_string (mTimestamp m) j)
      else if f = ''ADDRESS'' then map_option (\<lambda>v. m\<lparr>mAddress := v\<rparr>) (decode_string (mAddress m) j)
      else if f = ''TYPE'' then map_option (\<lambda>v. m\<lparr>mType := v\<rparr>) (decode_string (mType m) j)
      else if f = ''PAYLOAD'' then (if j = JNull then Some (m\<lparr>mPayload := None\<rparr>) else None)
      else if f = ''PUBLICKEY'' then map_option (\<lambda>v. m\<lparr>mPublicKey := v\<rparr>) (decode_string (mPublicKey m) j)
      else if f = ''SIGNATURE'' then map_option (\<lambda>v. m\<lparr>mSignature := v\<rparr>) (decode_string (mSignature m) j)
      else Some m)"

text \<open>A struct is filled member by member; \<open>null\<close> leaves it as it is.\<close>

fun fill :: "(string \<Rightarrow> json \<Rightarrow> 'a \<Rightarrow> 'a option) \<Rightarrow> (string \<times> json) list \<Rightarrow> 'a \<Rightarrow> 'a option" where
  "fill f [] m = Some m"
| "fill f ((k, j) # kvs) m = (case f k j m of None \<Rightarrow> None | Some m' \<Rightarrow> fill f kvs m')"

definition decode_struct :: "(string \<Rightarrow> json \<Rightarrow> 'a \<Rightarrow> 'a option) \<Rightarrow> json \<Rightarrow> 'a \<Rightarrow> 'a option" where
  "decode_struct f j m = (case j of JObj kvs \<Rightarrow> fill f kvs m | JNull \<Rightarrow> Some m | _ \<Rightarrow> None)"

text \<open>The payload is read into a fresh value of its type.\<close>

fun decode_payload :: "payload_type \<Rightarrow> json \<Rightarrow> payload option" where
  "decode_payload StringPayloadType j = map_option StringPayload (decode_string '''' j)"
| "decode_payload QueryType j =
     map_option QueryPayload (decode_struct decode_query_field j \<lparr>qData = '''', qReference = ''''\<rparr>)"
| "decode_payload EventType j = map_option EventPayload (decode_struct decode_event_field j \<lparr>N = '''', D = []\<rparr>)"

definition lookup_member :: "string \<Rightarrow> (string \<times> json) list \<Rightarrow> json" where
  "lookup_member k kvs = (case map_of kvs k of None \<Rightarrow> JNull | Some j \<Rightarrow> j)"

text \<open>The map that \<open>null\<close> is read into is nil, and is written as \<open>null\<close> again.\<close>

definition read_map :: "bytes \<Rightarrow> (string \<times> json) list option result" where
  "read_map js = (case parse_json (string_of js) of
     Some (JObj kvs) \<Rightarrow> (case iface_members [] kvs of None \<Rightarrow> Err ErrJson | Some mp \<Rightarrow> Ok (Some mp))
   | Some JNull \<Rightarrow> Ok None
   | _ \<Rightarrow> Err ErrJson)"

text \<open>Writing a value and reading it into a type.\<close>

definition via_json :: "(json \<Rightarrow> 'a option) \<Rightarrow> json \<Rightarrow> 'a result" where
  "via_json dec j = (case parse_json (render j) of
     None \<Rightarrow> Err ErrJson
   | Some j' \<Rightarrow> (case dec j' of None \<Rightarrow> Err ErrJson | Some x \<Rightarrow> Ok x))"

definition Message_FromJson :: "Message \<Rightarrow> bytes \<Rightarrow> payload_type option \<Rightarrow> Message result" where
  "Message_FromJson m js payloadType =
     bind_result (read_map js) (\<lambda>mp.
     let pload = (case mp of None \<Rightarrow> JNull | Some mp \<Rightarrow> lookup_member ''payload'' mp);
         rest = (case mp of None \<Rightarrow> JNull | Some mp \<Rightarrow> JObj (filter (\<lambda>(k, _). k \<noteq> ''payload'') mp))
     in bind_result (via_json (\<lambda>j. decode_struct decode_message_field j m) rest) (\<lambda>m'.
        case payloadType of
          None \<Rightarrow> Ok m'
        | Some t \<Rightarrow> bind_result (via_json (decode_payload t) pload) (\<lambda>p. Ok (m'\<lparr>mPayload := Some p\<rparr>))))"

section \<open>Maps in key order\<close>

lemma map_put_set:
  "sorted_wrt (<) (map fst m) \<Longrightarrow> k \<notin> fst ` set m \<Longrightarrow>
     set (map_put k v m) = insert (k, v) (set m) \<and> sorted_wrt (<) (map fst (map_put k v m))"
proof (induction k v m rule: map_put.induct)
  case (2 k v k' v' m)
  show ?case
  proof (cases "k < k'")
    case True
    then show ?thesis using 2 by (auto intro: less_trans)
  next
    case False
    then have "k' < k" using 2(3) by auto
    then show ?thesis using 2 False by auto
  qed
qed simp

lemma sorted_entries_unique:
  assumes "sorted_wrt (<) (map fst xs)" and "sorted_wrt (<) (map fst ys)" and "set xs = set ys"
  shows "xs = (ys :: (string \<times> 'a) list)"
proof (rule map_sorted_distinct_set_unique [of fst])
  show "inj_on fst (set xs \<union> set ys)"
    using assms strict_sorted_iff [of "map fst xs"] by (simp add: distinct_map)
qed (use assms strict_sorted_iff [of "map fst xs"] strict_sorted_iff [of "map fst ys"] in auto)

text \<open>Members with different keys and plain values are put in order.\<close>

lemma iface_members_set:
  assumes "\<And>k j. (k, j) \<in> set kvs \<Longrightarrow> iface j = Some j"
  shows "distinct (map fst (mp @ kvs)) \<Longrightarrow> sorted_wrt (<) (map fst mp) \<Longrightarrow>
    \<exists>mp'. iface_members mp kvs = Some mp' \<and> set mp' = set mp \<union> set kvs \<and> sorted_wrt (<) (map fst mp')"
  using assms
proof (induction kvs arbitrary: mp)
  case (Cons kv kvs)
  obtain k j where kv: "kv = (k, j)" by (cases kv)
  have j: "iface j = Some j" using Cons.prems(3) [of k j] kv by simp
  have put: "set (map_put k j mp) = insert (k, j) (set mp)" "sorted_wrt (<) (map fst (map_put k j mp))"
    using map_put_set [of mp k j] Cons.prems(1,2) kv by auto
  have "distinct (map fst (map_put k j mp))" using put(2) by (simp add: strict_sorted_iff)
  moreover have "fst ` set (map_put k j mp) \<inter> fst ` set kvs = {}" using put(1) Cons.prems(1) kv by auto
  ultimately have "distinct (map fst (map_put k j mp @ kvs))" using Cons.prems(1) kv by simp
  from Cons.IH [OF this put(2)] Cons.prems(3) obtain mp' where
    "iface_members (map_put k j mp) kvs = Some mp'" "set mp' = set (map_put k j mp) \<union> set kvs"
    "sorted_wrt (<) (map fst mp')" by auto
  then show ?case using j put(1) kv by auto
qed simp

lemma iface_members_sorted:
  assumes "\<And>k j. (k, j) \<in> set kvs \<Longrightarrow> iface j = Some j" and "distinct (map fst kvs)"
    and "sorted_wrt (<) (map fst s)" and "set s = set kvs"
  shows "iface_members [] kvs = Some s"
proof -
  obtain mp where "iface_members [] kvs = Some mp" "set mp = set kvs" "sorted_wrt (<) (map fst mp)"
    using iface_members_set [of kvs "[]"] assms(1,2) by auto
  with sorted_entries_unique [of mp s] assms(3,4) show ?thesis by simp
qed

section \<open>Messages survive their JSON\<close>

text \<open>The same members in key order.\<close>

definition message_sorted :: "Message \<Rightarrow> json \<Rightarrow> (string \<times> json) list" where
  "message_sorted m p = str_field ''address'' (mAddress m) @ [(''payload'', p)] @
     str_field ''publicKey'' (mPublicKey m) @ str_field ''signature'' (mSignature m) @
     str_field ''timestamp'' (mTimestamp m) @ str_field ''type'' (mType m)"

definition payload_sorted :: "payload \<Rightarrow> json" where
  "payload_sorted p = (case p of
     EventPayload e \<Rightarrow> JObj ((if D e = [] then [] else [(''data'', JStr (Base64Encode (D e)))]) @ str_field ''name'' (N e))
   | _ \<Rightarrow> payload_json p)"

lemma str_field_keys [simp]:
  "fst ` set (str_field k v) = (if v = '''' then {} else {k})"
  "(k', j) \<in> set (str_field k v) \<longleftrightarrow> v \<noteq> '''' \<and> k' = k \<and> j = JStr v"
  "distinct (map fst (str_field k v))" "sorted_wrt (<) (map fst (str_field k v))"
  by (auto simp: str_field_def)

lemma key_order:
  "''address'' < ''payload''" "''payload'' < ''publicKey''" "''publicKey'' < ''signature''"
  "''signature'' < ''timestamp''" "''timestamp'' < ''type''" "''data'' < ''name''" "''data'' < ''reference''"
  by code_simp+

text \<open>The names of the fields.\<close>

lemma message_names:
  "fold_name ''timestamp'' = ''TIMESTAMP''" "fold_name ''address'' = ''ADDRESS''" "fold_name ''type'' = ''TYPE''"
  "fold_name ''publicKey'' = ''PUBLICKEY''" "fold_name ''signature'' = ''SIGNATURE''"
  "fold_name ''data'' = ''DATA''" "fold_name ''reference'' = ''REFERENCE''" "fold_name ''name'' = ''NAME''"
  by code_simp+

lemma payload_iface: "iface (payload_json p) = Some (payload_sorted p)" "iface (payload_sorted p) = Some (payload_sorted p)"
proof -
  have q: "iface_members [] (str_field ''data'' a @ str_field ''reference'' b) = Some (str_field ''data'' a @ str_field ''reference'' b)"
    for a b
    by (rule iface_members_sorted) (use key_order in \<open>auto simp: sorted_wrt_append\<close>)
  let ?d = "\<lambda>d. (if d = [] then [] else [(''data'', JStr (Base64Encode d))])"
  have e: "iface_members [] (str_field ''name'' n @ ?d d) = Some (?d d @ str_field ''name'' n)"
      "iface_members [] (?d d @ str_field ''name'' n) = Some (?d d @ str_field ''name'' n)" for n d
    by (rule iface_members_sorted; use key_order in \<open>auto simp: sorted_wrt_append split: if_splits\<close>)+
  show "iface (payload_json p) = Some (payload_sorted p)" "iface (payload_sorted p) = Some (payload_sorted p)"
    using q e by (cases p; simp add: payload_sorted_def)+
qed

lemma iface_members_replace:
  "iface j = iface j' \<Longrightarrow> iface_members mp (xs @ (k, j) # ys) = iface_members mp (xs @ (k, j') # ys)"
  by (induction xs arbitrary: mp) (auto split: option.splits)

lemma message_iface:
  assumes "mPayload m = Some p"
  shows "iface_members [] (message_fields m) = Some (message_sorted m (payload_sorted p))"
proof -
  let ?before = "str_field ''timestamp'' (mTimestamp m) @ str_field ''address'' (mAddress m) @ str_field ''type'' (mType m)"
    and ?after = "str_field ''publicKey'' (mPublicKey m) @ str_field ''signature'' (mSignature m)"
  have "iface_members [] (message_fields m) = iface_members [] (?before @ (''payload'', payload_sorted p) # ?after)"
    using assms iface_members_replace [of "payload_json p" "payload_sorted p" "[]" ?before "''payload''" ?after]
    by (simp add: message_fields_def payload_iface)
  also have "\<dots> = Some (message_sorted m (payload_sorted p))"
    by (rule iface_members_sorted)
      (use key_order in \<open>auto simp: sorted_wrt_append message_sorted_def payload_iface\<close>)
  finally show ?thesis .
qed

text \<open>The members without the payload.\<close>

definition message_rest :: "Message \<Rightarrow> (string \<times> json) list" where
  "message_rest m = str_field ''address'' (mAddress m) @ str_field ''publicKey'' (mPublicKey m) @
     str_field ''signature'' (mSignature m) @ str_field ''timestamp'' (mTimestamp m) @ str_field ''type'' (mType m)"

lemma message_parts:
  "filter (\<lambda>(k, _). k \<noteq> ''payload'') (message_sorted m p) = message_rest m"
  "lookup_member ''payload'' (message_sorted m p) = p"
  by (simp_all add: message_sorted_def message_rest_def str_field_def lookup_member_def)

lemma fill_str_field:
  "fill f (str_field k v @ kvs) m = (if v = '''' then fill f kvs m
     else case f k (JStr v) m of None \<Rightarrow> None | Some m' \<Rightarrow> fill f kvs m')"
  by (simp add: str_field_def)

lemma decode_message_names:
  "decode_message_field ''timestamp'' (JStr v) m = Some (m\<lparr>mTimestamp := v\<rparr>)"
  "decode_message_field ''address'' (JStr v) m = Some (m\<lparr>mAddress := v\<rparr>)"
  "decode_message_field ''type'' (JStr v) m = Some (m\<lparr>mType := v\<rparr>)"
  "decode_message_field ''publicKey'' (JStr v) m = Some (m\<lparr>mPublicKey := v\<rparr>)"
  "decode_message_field ''signature'' (JStr v) m = Some (m\<lparr>mSignature := v\<rparr>)"
  "decode_query_field ''data'' (JStr v) q = Some (q\<lparr>qData := v\<rparr>)"
  "decode_query_field ''reference'' (JStr v) q = Some (q\<lparr>qReference := v\<rparr>)"
  "decode_event_field ''name'' (JStr v) e = Some (e\<lparr>N := v\<rparr>)"
  "decode_event_field ''data'' (JStr (Base64Encode d)) e = Some (e\<lparr>D := d\<rparr>)"
  by (simp_all only: decode_message_field_def decode_query_field_def decode_event_field_def message_names Let_def)
    (simp_all add: decode_string_def decode_bytes_def)

lemma fill_message:
  "fill decode_message_field (message_rest m) Message_zero = Some (m\<lparr>mPayload := None\<rparr>)"
proof -
  have "fill decode_message_field (str_field ''type'' v) m = Some (if v = '''' then m else m\<lparr>mType := v\<rparr>)" for v m
    using fill_str_field [of decode_message_field "''type''" v "[]" m]
    by (simp add: decode_message_names)
  then show ?thesis
    by (cases m) (simp add: message_rest_def fill_str_field Message_zero_def decode_message_names)
qed

definition type_of_payload :: "payload \<Rightarrow> payload_type" where
  "type_of_payload p = (case p of StringPayload _ \<Rightarrow> StringPayloadType | QueryPayload _ \<Rightarrow> QueryType | EventPayload _ \<Rightarrow> EventType)"

definition payload_ok :: "payload \<Rightarrow> bool" where
  "payload_ok p = (case p of StringPayload s \<Rightarrow> utf8_valid s
     | QueryPayload q \<Rightarrow> utf8_valid (qData q) \<and> utf8_valid (qReference q)
     | EventPayload e \<Rightarrow> utf8_valid (N e))"

definition message_ok :: "payload_type \<Rightarrow> Message \<Rightarrow> bool" where
  "message_ok t m \<longleftrightarrow>
     list_all utf8_valid [mTimestamp m, mAddress m, mType m, mPublicKey m, mSignature m]
     \<and> (case mPayload m of None \<Rightarrow> False | Some p \<Rightarrow> payload_ok p \<and> type_of_payload p = t)"

lemma utf8_Base64 [simp]: "utf8_valid (Base64Encode bs)"
  by (rule utf8_valid_ascii) (auto dest: Base64Encode_plain)

lemma payload_sorted_ok: "payload_ok p \<Longrightarrow> json_ok d (payload_sorted p) = (case p of StringPayload _ \<Rightarrow> True | _ \<Rightarrow> d < maxNestingDepth)"
  by (cases p) (auto simp: payload_ok_def payload_sorted_def str_field_def)

lemma decode_payload_sorted: "decode_payload (type_of_payload p) (payload_sorted p) = Some p"
proof (cases p)
  case (QueryPayload q)
  have "fill decode_query_field (str_field ''reference'' v) q = Some (if v = '''' then q else q\<lparr>qReference := v\<rparr>)" for v q
    using fill_str_field [of decode_query_field "''reference''" v "[]" q]
    by (cases q) (simp add: decode_message_names)
  with QueryPayload show ?thesis
    by (cases q) (simp add: payload_sorted_def type_of_payload_def decode_struct_def fill_str_field
        decode_message_names)
next
  case (EventPayload e)
  have "fill decode_event_field (str_field ''name'' v) e = Some (if v = '''' then e else e\<lparr>N := v\<rparr>)" for v e
    using fill_str_field [of decode_event_field "''name''" v "[]" e]
    by (cases e) (simp add: decode_message_names)
  with EventPayload show ?thesis
    by (cases e) (simp add: payload_sorted_def type_of_payload_def decode_struct_def fill_str_field
        decode_message_names)
qed (simp add: payload_sorted_def type_of_payload_def decode_string_def)

lemma via_json_ok: "json_ok 0 j \<Longrightarrow> dec j = Some x \<Longrightarrow> via_json dec j = Ok x"
  by (simp add: via_json_def parse_json_render)

lemma message_fields_ok:
  assumes "message_ok t m"
  shows "json_ok 0 (JObj (message_fields m))"
proof -
  have names: "utf8_valid ''timestamp''" "utf8_valid ''address''" "utf8_valid ''type''" "utf8_valid ''payload''"
    "utf8_valid ''publicKey''" "utf8_valid ''signature''" "utf8_valid ''data''" "utf8_valid ''name''" "utf8_valid ''reference''"
    by simp_all
  show ?thesis
    using assms names
    by (auto simp: message_ok_def message_fields_def maxNestingDepth_def payload_ok_def str_field_def
        split: option.splits payload.splits)
qed

lemma Message_FromJson_ToJson:
  assumes "message_ok t m" and "Message_ToJson m = Ok js"
  shows "Message_FromJson Message_zero (bytes_of js) (Some t) = Ok m"
proof -
  obtain p where p: "mPayload m = Some p" "payload_ok p" "type_of_payload p = t"
    using assms(1) by (auto simp: message_ok_def split: option.splits)
  have read: "read_map (bytes_of js) = Ok (Some (message_sorted m (payload_sorted p)))"
    using assms(2) parse_json_render [OF message_fields_ok [OF assms(1)]] message_iface [OF p(1)]
    by (auto simp: read_map_def Message_ToJson_def simp del: render.simps)
  have "json_ok 0 (JObj (message_rest m))"
    using assms(1) by (auto simp: message_ok_def message_rest_def str_field_def maxNestingDepth_def)
  then have rest: "via_json (\<lambda>j. decode_struct decode_message_field j Message_zero) (JObj (message_rest m))
      = Ok (m\<lparr>mPayload := None\<rparr>)"
    by (rule via_json_ok) (simp add: decode_struct_def fill_message)
  have "via_json (decode_payload t) (payload_sorted p) = Ok p"
    using payload_sorted_ok [OF p(2), of 0] decode_payload_sorted [of p] p(3)
    by (intro via_json_ok) (simp_all add: maxNestingDepth_def split: payload.split)
  with read rest p(1) show ?thesis
    by (simp add: Message_FromJson_def message_parts)
qed

interpretation message_json: partial_encoding Message_ToJson "\<lambda>js. Message_FromJson Message_zero (bytes_of js) (Some t)" "message_ok t" for t
  by unfold_locales (rule Message_FromJson_ToJson)

section \<open>Properties\<close>

text \<open>
  C33: a message keeps everything on its way as JSON.  A message whose texts are UTF-8 is encoded, and
  decoding it with the type of its payload gives back the same message, payload included: a text, a query, or an event
  with any bytes.
\<close>

theorem message_json_roundtrip:
  assumes "message_ok t m"
  shows "\<exists>js. Message_ToJson m = Ok js \<and> Message_FromJson Message_zero (bytes_of js) (Some t) = Ok m"
proof -
  obtain js where "Message_ToJson m = Ok js" by (simp add: Message_ToJson_def)
  with message_json.dec_enc_ok [OF assms this] show ?thesis by blast
qed

theorem message_json_roundtrip_witness:
  "let m = Message_zero\<lparr>mAddress := ''a'', mPayload := Some (EventPayload \<lparr>N = ''ping'', D = [255, 0, 128]\<rparr>)\<rparr>
   in \<exists>js. Message_ToJson m = Ok js \<and> Message_FromJson Message_zero (bytes_of js) (Some EventType) = Ok m"
proof -
  have "message_ok EventType (Message_zero\<lparr>mAddress := ''a'', mPayload := Some (EventPayload \<lparr>N = ''ping'', D = [255, 0, 128]\<rparr>)\<rparr>)"
    by (simp add: message_ok_def payload_ok_def type_of_payload_def Message_zero_def)
  from message_json_roundtrip [OF this] show ?thesis by (simp only: Let_def)
qed

end
