(* ===== verification/Event.thy ===== *)
theory Event
  imports MessageJson
begin

text \<open>
  \<^verbatim>\<open>event/\<close>: events that peers exchange as signed messages over a publish and subscribe service.
  The service (IPFS pubsub) is a parameter: publishing and subscribing to a topic are operations on a
  state of the network, and what arrives is an argument.  The operations on the subscriptions
  are atomic here, although the mutex does not cover all of \<open>Subscribe\<close> (\<open>EventRace\<close> has them access by access); the identifiers come from a library of random numbers and are arguments.
\<close>

section \<open>Subscriptions\<close>

text \<open>
  Callbacks by event name and identifier.  Go walks a map in an order of its own: \<open>Get\<close> takes it as
  the argument \<open>ord\<close>, a permutation.
\<close>

type_synonym 'c subscriptions = "string \<Rightarrow> (string \<times> 'c) list option"

record Subscription =
  sub_id :: string
  sub_eventName :: string
  sub_parent :: bool   \<comment> \<open>not nil\<close>

definition newSubscriptions :: "'c subscriptions" where
  "newSubscriptions = Map.empty"

definition getOrCreate :: "string \<Rightarrow> 'c subscriptions \<Rightarrow> (string \<times> 'c) list \<times> 'c subscriptions" where
  "getOrCreate eventName m = (case m eventName of
     Some sub \<Rightarrow> (sub, m)
   | None \<Rightarrow> ([], m(eventName \<mapsto> [])))"

definition subs_Subscribe :: "string \<Rightarrow> string \<Rightarrow> 'c \<Rightarrow> 'c subscriptions \<Rightarrow> Subscription \<times> 'c subscriptions" where
  "subs_Subscribe uuid eventName callback m =
     (let (subs, m1) = getOrCreate eventName m
      in (\<lparr>sub_id = uuid, sub_eventName = eventName, sub_parent = True\<rparr>,
          m1(eventName \<mapsto> map_put uuid callback subs)))"

definition subs_Get :: "((string \<times> 'c) list \<Rightarrow> (string \<times> 'c) list) \<Rightarrow> string \<Rightarrow> 'c subscriptions \<Rightarrow> 'c list" where
  "subs_Get ord eventName m = (case m eventName of None \<Rightarrow> [] | Some sub \<Rightarrow> map snd (ord sub))"

definition subs_Unsubscribe :: "string \<Rightarrow> string \<Rightarrow> 'c subscriptions \<Rightarrow> 'c subscriptions" where
  "subs_Unsubscribe eventName uuid m = (case m eventName of
     None \<Rightarrow> m
   | Some sub \<Rightarrow> m(eventName \<mapsto> filter (\<lambda>(k, _). k \<noteq> uuid) sub))"

definition Subscription_Unsubscribe :: "Subscription \<Rightarrow> 'c subscriptions \<Rightarrow> 'c subscriptions" where
  "Subscription_Unsubscribe s m =
     (if \<not> sub_parent s then m else subs_Unsubscribe (sub_eventName s) (sub_id s) m)"

section \<open>Events\<close>

text \<open>The payload has the type that \<open>FromJson\<close> was asked for; another would fail the type assertion.\<close>

definition newEventFromPubSubMessage :: "crypto_env \<Rightarrow> bytes \<Rightarrow> event result" where
  "newEventFromPubSubMessage E data =
     bind_result (Message_FromJson Message_zero data (Some EventType)) (\<lambda>m.
     bind_result (Message_VerifySignature E m) (\<lambda>_.
     case mPayload m of Some (EventPayload ev) \<Rightarrow> Ok ev | _ \<Rightarrow> Panic))"

definition event_Name :: "event \<Rightarrow> string" where
  "event_Name e = N e"

section \<open>The manager\<close>

record 'c manager =
  mgr_id :: string
  mgr_subs :: "'c subscriptions"
  mgr_nameSpace :: string
  mgr_signer :: Address
  mgr_managed :: Address

definition getTopicName :: "'c manager \<Rightarrow> string" where
  "getTopicName m = mgr_nameSpace m @ ''-'' @ Addr (mgr_managed m)"

text \<open>The event loop that is started is the repetition of \<open>loopOperation\<close>.\<close>

definition NewManager ::
    "(string \<Rightarrow> (unit, 'n) io) \<Rightarrow> string \<Rightarrow> string \<Rightarrow> Address \<Rightarrow> Address \<Rightarrow> ('c manager, 'n) io" where
  "NewManager subscribe peer ns signerAddr managedAddr =
     (let m = \<lparr>mgr_id = peer, mgr_subs = newSubscriptions, mgr_nameSpace = ns,
               mgr_signer = signerAddr, mgr_managed = managedAddr\<rparr>
      in bind_io (subscribe (getTopicName m)) (\<lambda>_. return_io m))"

text \<open>The factory keeps what all managers share; it cannot fail.\<close>

record 'n managerFactory =
  f_subscribe :: "string \<Rightarrow> (unit, 'n) io"   \<comment> \<open>of the field \<open>pubSub\<close>\<close>
  f_id :: string
  f_nameSpace :: string

definition NewManagerFactory :: "string \<Rightarrow> (string \<Rightarrow> (unit, 'n) io) \<Rightarrow> string \<Rightarrow> 'n managerFactory result" where
  "NewManagerFactory ns subscribe peer = Ok \<lparr>f_subscribe = subscribe, f_id = peer, f_nameSpace = ns\<rparr>"

definition Build :: "'n managerFactory \<Rightarrow> Address \<Rightarrow> Address \<Rightarrow> ('c manager, 'n) io" where
  "Build f signerAddr managedAddr = NewManager (f_subscribe f) (f_id f) (f_nameSpace f) signerAddr managedAddr"

definition manager_On :: "string \<Rightarrow> string \<Rightarrow> 'c \<Rightarrow> 'c manager \<Rightarrow> Subscription \<times> 'c manager" where
  "manager_On uuid eventName callback m =
     (let (s, subs) = subs_Subscribe uuid eventName callback (mgr_subs m) in (s, m\<lparr>mgr_subs := subs\<rparr>))"

text \<open>The event that reaches the channel first, or none when the context ends before.\<close>

definition manager_Next :: "string \<Rightarrow> string \<Rightarrow> 'c \<Rightarrow> event option \<Rightarrow> 'c manager \<Rightarrow> event result \<times> 'c manager" where
  "manager_Next uuid eventName callback got m =
     (let (s, m1) = manager_On uuid eventName callback m;
          m2 = m1\<lparr>mgr_subs := Subscription_Unsubscribe s (mgr_subs m1)\<rparr>
      in case got of Some ev \<Rightarrow> (Ok ev, m2) | None \<Rightarrow> (Err ErrContextDone, m2))"

text \<open>\<open>ts\<close> is the formatted time of the call.\<close>

definition Emit ::
    "crypto_env \<Rightarrow> (string \<Rightarrow> bytes \<Rightarrow> (unit, 'n) io) \<Rightarrow> bytes \<Rightarrow> string \<Rightarrow> string \<Rightarrow> bytes \<Rightarrow> 'c manager \<Rightarrow> (unit, 'n) io" where
  "Emit E publish rnd ts eventName data m =
     (if \<not> HasKeys (mgr_signer m) then fail_io ErrAddressNoKeys
      else (case Keys (mgr_signer m) of
          None \<Rightarrow> (\<lambda>w. (Panic, w))
        | Some keys \<Rightarrow>
            (let ev = \<lparr>N = eventName, D = data\<rparr>;
                 msg = Message_zero\<lparr>mTimestamp := ts, mAddress := Addr (mgr_signer m), mType := eventName,
                         mPayload := Some (EventPayload ev)\<rparr>
             in case SignWithKey E rnd (ToEcdsaPrivateKey keys) msg of
                  (Panic, _) \<Rightarrow> (\<lambda>w. (Panic, w))
                | (Err er, _) \<Rightarrow> fail_io er
                | (Ok _, msg) \<Rightarrow>
                    bind_io (read_io (\<lambda>_. Message_ToJson msg)) (\<lambda>payload.
                    publish (getTopicName m) (bytes_of payload)))))"

fun call_all :: "('c \<Rightarrow> event \<Rightarrow> (unit, 's) io) \<Rightarrow> event \<Rightarrow> 'c list \<Rightarrow> (unit, 's) io" where
  "call_all run ev [] = return_io ()"
| "call_all run ev (c # cs) = bind_io (run c ev) (\<lambda>_. call_all run ev cs)"

text \<open>
  One turn of the event loop: \<open>next_msg\<close> is what the subscription returned, with its sender; \<open>run\<close>
  calls a callback, on a state of its own.
\<close>

definition loopOperation ::
    "crypto_env \<Rightarrow> ('c \<Rightarrow> event \<Rightarrow> (unit, 's) io) \<Rightarrow> ((string \<times> 'c) list \<Rightarrow> (string \<times> 'c) list) \<Rightarrow>
     (string \<times> bytes) result \<Rightarrow> 'c manager \<Rightarrow> (unit, 's) io" where
  "loopOperation E run ord next_msg m =
     (case next_msg of
        Panic \<Rightarrow> (\<lambda>s. (Panic, s))
      | Err er \<Rightarrow> fail_io er
      | Ok (from, data) \<Rightarrow>
          if from = mgr_id m then return_io ()
          else (case newEventFromPubSubMessage E data of
              Panic \<Rightarrow> (\<lambda>s. (Panic, s))
            | Err er \<Rightarrow> return_io ()
            | Ok ev \<Rightarrow>
                (let callbacks = subs_Get ord (N ev) (mgr_subs m)
                 in if length callbacks = 0 then return_io () else call_all run ev callbacks)))"

text \<open>
  The event loop, over the turns it takes: what the subscription returned, the manager at that time, and whether
  the back-off gives up after this failure.  A turn that fails is tried again until then; with the last one the
  loop ends.  No further turn is a loop that still runs.
\<close>

fun event_loop ::
    "crypto_env \<Rightarrow> ('c \<Rightarrow> event \<Rightarrow> (unit, 's) io) \<Rightarrow> ((string \<times> 'c) list \<Rightarrow> (string \<times> 'c) list) \<Rightarrow>
     ((string \<times> bytes) result \<times> 'c manager \<times> bool) list \<Rightarrow> (unit, 's) io" where
  "event_loop E run ord [] = return_io ()"
| "event_loop E run ord ((next_msg, m, give_up) # turns) = (\<lambda>s.
     case loopOperation E run ord next_msg m s of
       (Ok _, s') \<Rightarrow> event_loop E run ord turns s'
     | (Err er, s') \<Rightarrow> if give_up then (Err er, s') else event_loop E run ord turns s'
     | (Panic, s') \<Rightarrow> (Panic, s'))"

section \<open>Lemmas\<close>

lemma via_json_Ok: "via_json dec j = Ok x \<Longrightarrow> \<exists>j'. dec j' = Some x"
  by (auto simp: via_json_def split: option.splits)

lemma FromJson_payload:
  assumes "Message_FromJson m js (Some t) = Ok m'"
  shows "\<exists>p. mPayload m' = Some p \<and> type_of_payload p = t"
proof -
  obtain pload p m1 where p: "via_json (decode_payload t) pload = Ok p" "m' = m1\<lparr>mPayload := Some p\<rparr>"
    using assms by (auto simp: Message_FromJson_def Let_def)
  obtain j where "decode_payload t j = Some p" using via_json_Ok [OF p(1)] by blast
  then have "type_of_payload p = t" by (cases t) (auto simp: type_of_payload_def)
  with p(2) show ?thesis by simp
qed

lemma event_payload:
  assumes "Message_FromJson Message_zero data (Some EventType) = Ok m"
  obtains ev where "mPayload m = Some (EventPayload ev)"
proof -
  obtain p where p: "mPayload m = Some p" "type_of_payload p = EventType"
    using FromJson_payload [OF assms] by blast
  then obtain ev where "p = EventPayload ev" by (cases p) (simp_all add: type_of_payload_def)
  with p(1) that show thesis by simp
qed

lemma newEvent_Ok:
  "newEventFromPubSubMessage E data = Ok ev \<longleftrightarrow>
     (\<exists>m. Message_FromJson Message_zero data (Some EventType) = Ok m
        \<and> Message_VerifySignature E m = Ok () \<and> mPayload m = Some (EventPayload ev))"
proof (cases "Message_FromJson Message_zero data (Some EventType)")
  case (Ok m)
  obtain ev' where "mPayload m = Some (EventPayload ev')" by (rule event_payload [OF Ok])
  then show ?thesis using Ok by (simp add: newEventFromPubSubMessage_def)
qed (simp_all add: newEventFromPubSubMessage_def)

lemma via_json_not_Panic [simp]: "via_json dec j \<noteq> Panic"
  by (simp add: via_json_def split: option.split)

lemma FromJson_Message_not_Panic [simp]: "Message_FromJson m js t \<noteq> Panic"
  by (auto simp: Message_FromJson_def Let_def read_map_def bind_result_eq_Panic split: option.splits json.splits)

lemma Message_VerifySignature_not_Panic [simp]: "Message_VerifySignature E m \<noteq> Panic"
  by (auto simp: Message_VerifySignature_def Let_def split: prod.splits option.splits)

lemma newEvent_not_Panic [simp]: "newEventFromPubSubMessage E data \<noteq> Panic"
proof (cases "Message_FromJson Message_zero data (Some EventType)")
  case (Ok m)
  obtain ev where "mPayload m = Some (EventPayload ev)" by (rule event_payload [OF Ok])
  then show ?thesis using Ok by (simp add: newEventFromPubSubMessage_def bind_result_eq_Panic)
qed (simp_all add: newEventFromPubSubMessage_def)

text \<open>What every callback keeps, a turn of the event loop keeps.\<close>

lemma call_all_keeps:
  assumes "\<And>x. keeps P (run x ev)"
  shows "keeps P (call_all run ev xs)"
  by (induction xs) (auto intro!: keeps_intros assms)

lemma loopOperation_keeps:
  assumes "\<And>x ev. keeps P (run x ev)"
  shows "keeps P (loopOperation E run ord next_msg m)"
proof -
  have "keeps P (call_all run ev xs)" for ev xs by (rule call_all_keeps) (rule assms)
  moreover have "keeps P (\<lambda>s. (Panic, s))" by (simp add: keeps_def)
  ultimately show ?thesis
    unfolding loopOperation_def Let_def
    by (auto split: result.split prod.split intro!: keeps_intros)
qed

section \<open>From emitting to receiving\<close>

text \<open>A signer whose texts can be written, and which can sign.\<close>

definition signer_ok :: "crypto_env \<Rightarrow> ecdsa_key \<Rightarrow> Address \<Rightarrow> bool" where
  "signer_ok E k a \<longleftrightarrow> ecdsa_signs E k \<and> key_fits k \<and> keyD k \<noteq> 0
     \<and> (\<forall>rnd digest. is_ok (ecdsa_sign E rnd k digest))
     \<and> Keys a = Some (keypair_of k) \<and> utf8_valid (Addr a)"

lemma signer_sign:
  assumes "signer_ok E k a"
  obtains m' where "SignWithKey E rnd k m = (Ok (), m')"
proof -
  let ?m1 = "m\<lparr>mPublicKey := HexEncode (pair_bytes (keyX k) (keyY k))\<rparr>"
  obtain rs where "ecdsa_sign E rnd k (sha256 E (Message_Bytes ?m1)) = Ok rs"
    using assms by (fastforce simp: signer_ok_def is_ok_iff)
  then obtain s where "Sign E rnd (sha256 E (Message_Bytes ?m1)) k = Ok s"
    by (cases rs) (simp add: Sign_def)
  then show thesis using that by (auto simp: SignWithKey_Ok Let_def)
qed

lemma SignWithKey_message_ok:
  assumes "SignWithKey E rnd k m = (Ok (), m')" and "mPayload m = Some p" and "payload_ok p" and "type_of_payload p = t"
    and "utf8_valid (mTimestamp m)" and "utf8_valid (mAddress m)" and "utf8_valid (mType m)"
  shows "message_ok t m'" and "mPayload m' = Some p" and "mAddress m' = mAddress m" and "mType m' = mType m"
    and "mTimestamp m' = mTimestamp m"
  using assms by (auto simp: SignWithKey_Ok Let_def message_ok_def)

lemma Emit_publishes:
  assumes "signer_ok E k (mgr_signer m)" and "utf8_valid ts" and "utf8_valid eventName"
  shows "\<exists>js. (\<forall>publish w. Emit E publish rnd ts eventName data m w = publish (getTopicName m) js w)
    \<and> newEventFromPubSubMessage E js = Ok \<lparr>N = eventName, D = data\<rparr>"
proof -
  note s = assms(1) [unfolded signer_ok_def]
  let ?msg = "Message_zero\<lparr>mTimestamp := ts, mAddress := Addr (mgr_signer m), mType := eventName,
     mPayload := Some (EventPayload \<lparr>N = eventName, D = data\<rparr>)\<rparr>"
  obtain m' where sign: "SignWithKey E rnd k ?msg = (Ok (), m')" by (rule signer_sign [OF assms(1)])
  have ok: "message_ok EventType m'" "mPayload m' = Some (EventPayload \<lparr>N = eventName, D = data\<rparr>)"
    using SignWithKey_message_ok [OF sign, of "EventPayload \<lparr>N = eventName, D = data\<rparr>" EventType] s assms(2,3)
    by (simp_all add: payload_ok_def type_of_payload_def)
  obtain js where js: "Message_ToJson m' = Ok js" by (simp add: Message_ToJson_def)
  have "newEventFromPubSubMessage E (bytes_of js) = Ok \<lparr>N = eventName, D = data\<rparr>"
    using message_json.dec_enc_ok [OF ok(1) js] SignWithKey_verifies [OF _ _ sign] s ok(2)
    by (simp add: newEvent_Ok)
  moreover have "Emit E publish rnd ts eventName data m w = publish (getTopicName m) (bytes_of js) w" for publish and w :: 'n
    using HasKeys_pair [of "mgr_signer m" k] s sign js
    by (simp add: Emit_def ToEcdsaPrivateKey_keypair_of bind_io_def read_io_def)
  ultimately show ?thesis by blast
qed

text \<open>
  Failures of the subscription that are not given up, messages of the manager itself, and messages that are no signed
  events do not show: the loop runs as on the other turns alone.
\<close>

fun heard :: "crypto_env \<Rightarrow> (string \<times> bytes) result \<times> 'c manager \<times> bool \<Rightarrow> bool" where
  "heard E (next_msg, m, give_up) = (case next_msg of
     Ok (from, data) \<Rightarrow> from \<noteq> mgr_id m \<and> is_ok (newEventFromPubSubMessage E data)
   | Err _ \<Rightarrow> give_up
   | Panic \<Rightarrow> True)"

lemma event_loop_heard: "event_loop E run ord turns s = event_loop E run ord (filter (heard E) turns) s"
proof (induction turns arbitrary: s)
  case (Cons t turns)
  obtain next_msg m g where t: "t = (next_msg, m, g)" by (cases t) auto
  show ?case
  proof (cases "heard E t")
    case True
    then show ?thesis by (simp add: t Cons.IH cong: if_cong split: prod.split result.split)
  next
    case False
    show ?thesis
    proof (cases next_msg)
      case (Ok msg)
      obtain "from" data where msg: "msg = (from, data)" by (cases msg)
      have "loopOperation E run ord next_msg m s = (Ok (), s)"
        using False newEvent_not_Panic [of E data]
        by (cases "newEventFromPubSubMessage E data") (auto simp: t Ok msg loopOperation_def return_io_def)
      with False show ?thesis by (simp add: t Cons.IH)
    next
      case (Err er)
      with False show ?thesis by (simp add: t Cons.IH loopOperation_def fail_io_def)
    qed (use False in \<open>simp add: t\<close>)
  qed
qed simp

section \<open>Properties\<close>

text \<open>
  C28: an emitted event reaches the subscribers.  What \<open>Emit\<close> publishes on the topic is, for every
  other manager of the namespace and address that takes it off the topic, a call of exactly the callbacks that are
  subscribed to the event's name, in some order, with the same name and data; the sender ignores it.
\<close>

theorem emitted_event_received:
  assumes "signer_ok E k (mgr_signer m)" and "utf8_valid ts" and "utf8_valid eventName"
  shows "\<exists>js. (\<forall>publish (w :: 'n). Emit E publish rnd ts eventName data m w = publish (getTopicName m) js w)
    \<and> (\<forall>run ord (s :: 's). loopOperation E run ord (Ok (mgr_id m', js)) m' s = (Ok (), s)
      \<and> (from \<noteq> mgr_id m' \<longrightarrow> loopOperation E run ord (Ok (from, js)) m' s
           = call_all run \<lparr>N = eventName, D = data\<rparr> (subs_Get ord eventName (mgr_subs m')) s))"
proof -
  obtain js where js: "\<And>publish (w :: 'n). Emit E publish rnd ts eventName data m w = publish (getTopicName m) js w"
      "newEventFromPubSubMessage E js = Ok \<lparr>N = eventName, D = data\<rparr>"
    using Emit_publishes [OF assms] by blast
  have "loopOperation E run ord (Ok (mgr_id m', js)) m' s = (Ok (), s)" for run ord and s :: 's
    by (simp add: loopOperation_def return_io_def)
  moreover have "loopOperation E run ord (Ok (from, js)) m' s
      = call_all run \<lparr>N = eventName, D = data\<rparr> (subs_Get ord eventName (mgr_subs m')) s"
    if "from \<noteq> mgr_id m'" for run ord and s :: 's
    using that js(2) by (cases "subs_Get ord eventName (mgr_subs m')") (simp_all add: loopOperation_def)
  ultimately show ?thesis using js(1) by blast
qed

text \<open>Two managers of one topic.\<close>

definition sample_sender :: "unit manager" where
  "sample_sender = \<lparr>mgr_id = ''a'', mgr_subs = newSubscriptions, mgr_nameSpace = ''ns'',
     mgr_signer = \<lparr>Keys = Some (keypair_of sample_key), Addr = ''x''\<rparr>, mgr_managed = \<lparr>Keys = None, Addr = ''y''\<rparr>\<rparr>"

definition sample_receiver :: "unit manager" where
  "sample_receiver = sample_sender\<lparr>mgr_id := ''b'', mgr_subs := [''ping'' \<mapsto> [(''id'', ())]]\<rparr>"

theorem emitted_event_received_witness:
  "\<exists>js. (\<forall>w. Emit sample_env (\<lambda>t d w. (Ok (), w @ [(t, d)])) [] ''2024-02-29T23:59:59+01:00'' ''ping'' [7] sample_sender w
        = (Ok (), w @ [(''ns-y'', js)]))
     \<and> loopOperation sample_env (\<lambda>c ev s. (Ok (), s @ [D ev])) (\<lambda>xs. xs) (Ok (''a'', js)) sample_receiver [] = (Ok (), [[7]])"
proof -
  let ?m = sample_sender and ?m' = sample_receiver
  have "\<exists>rs. ecdsa_sign sample_env rnd sample_key digest = Ok rs" for rnd digest by (simp add: sample_env_def)
  then have ok: "signer_ok sample_env sample_key (mgr_signer ?m)"
    using sample_signs [of sample_key]
    by (simp add: signer_ok_def key_fits_def sample_key_def fits32_def is_ok_iff sample_sender_def)
  have "utf8_valid ''2024-02-29T23:59:59+01:00''" "utf8_valid ''ping''" by simp_all
  from emitted_event_received [OF ok this, of "[]" "[7]" ?m' "''a''"]
  obtain js where both: "(\<forall>publish (w :: (string \<times> bytes) list).
      Emit sample_env publish [] ''2024-02-29T23:59:59+01:00'' ''ping'' [7] ?m w = publish (getTopicName ?m) js w)
    \<and> (\<forall>run ord (s :: bytes list). loopOperation sample_env run ord (Ok (mgr_id ?m', js)) ?m' s = (Ok (), s)
        \<and> (''a'' \<noteq> mgr_id ?m' \<longrightarrow> loopOperation sample_env run ord (Ok (''a'', js)) ?m' s
          = call_all run \<lparr>N = ''ping'', D = [7]\<rparr> (subs_Get ord ''ping'' (mgr_subs ?m')) s))"
    by (rule exE)
  note js = both [THEN conjunct1, rule_format] and loop = both [THEN conjunct2, rule_format, THEN conjunct2, rule_format]
  have "mgr_id ?m' = ''b''" "mgr_subs ?m' ''ping'' = Some [(''id'', ())]" "getTopicName ?m = ''ns-y''"
    by (simp_all add: sample_receiver_def sample_sender_def getTopicName_def)
  then have "loopOperation sample_env (\<lambda>c ev s. (Ok (), s @ [D ev])) (\<lambda>xs. xs) (Ok (''a'', js)) ?m' [] = (Ok (), [[7]])"
    by (subst loop) (simp_all add: subs_Get_def bind_io_def return_io_def)
  with js \<open>getTopicName ?m = ''ns-y''\<close> show ?thesis by (intro exI [of _ js]) simp
qed

text \<open>
  An event must be signed, but not by the owner of its address.  A message from the topic is
  taken as an event exactly when it can be read and its signature verifies under the public key
  that it carries itself; any other message changes nothing; and the same event from
  the same key is taken whatever address the message names.
\<close>

theorem event_signature_only:
  "loopOperation E run ord (Ok (from, data)) m s =
     (case Message_FromJson Message_zero data (Some EventType) of
        Ok msg \<Rightarrow>
          (case mPayload msg of
             Some (EventPayload ev) \<Rightarrow>
               if from \<noteq> mgr_id m \<and> Message_VerifySignature E msg = Ok ()
               then call_all run ev (subs_Get ord (N ev) (mgr_subs m)) s else (Ok (), s)
           | _ \<Rightarrow> (Ok (), s))
      | _ \<Rightarrow> (Ok (), s))"
proof (cases "Message_FromJson Message_zero data (Some EventType)")
  case (Ok msg)
  obtain ev where ev: "mPayload msg = Some (EventPayload ev)" by (rule event_payload [OF Ok])
  show ?thesis
    using Ok ev
    by (cases "Message_VerifySignature E msg"; cases "subs_Get ord (N ev) (mgr_subs m)")
       (simp_all add: loopOperation_def newEventFromPubSubMessage_def return_io_def)
qed (simp_all add: loopOperation_def newEventFromPubSubMessage_def return_io_def)

lemma map_put_fresh: "k \<notin> fst ` set m \<Longrightarrow> filter (\<lambda>(k', _). k' \<noteq> k) (map_put k v m) = m"
proof (induction k v m rule: map_put.induct)
  case (2 k v k' v' m)
  have "k \<notin> fst ` set m \<Longrightarrow> filter (\<lambda>(k', _). k' \<noteq> k) m = m" by (induction m) auto
  with 2 show ?case by auto
qed simp

lemma map_put_mset: "k \<notin> fst ` set m \<Longrightarrow> mset (map_put k v m) = add_mset (k, v) (mset m)"
  by (induction k v m rule: map_put.induct) auto

text \<open>
  A subscription lasts until it is ended.  A callback that is subscribed under a fresh
  identifier is added to those of its event and to no others, and ending the subscription gives
  every event the callbacks it had before; so \<open>Next\<close> leaves the subscriptions as it found them.
\<close>

theorem subscription_lifecycle:
  assumes "\<And>sub. mgr_subs m n = Some sub \<Longrightarrow> uuid \<notin> fst ` set sub" and "\<And>xs. mset (ord xs) = mset xs"
    and "manager_On uuid n cb m = (s, m1)"
  shows "mset (subs_Get ord n (mgr_subs m1)) = add_mset cb (mset (subs_Get ord n (mgr_subs m)))
    \<and> (\<forall>n'. n' \<noteq> n \<longrightarrow> subs_Get ord n' (mgr_subs m1) = subs_Get ord n' (mgr_subs m))
    \<and> subs_Get ord n' (Subscription_Unsubscribe s (mgr_subs m1)) = subs_Get ord n' (mgr_subs m)
    \<and> subs_Get ord n' (mgr_subs (snd (manager_Next uuid n cb got m))) = subs_Get ord n' (mgr_subs m)"
proof -
  have "ord [] = []" using assms(2) [of "[]"] by simp
  define sub where "sub = (case mgr_subs m n of None \<Rightarrow> [] | Some sub \<Rightarrow> sub)"
  have fresh: "uuid \<notin> fst ` set sub" using assms(1) by (cases "mgr_subs m n") (simp_all add: sub_def)
  have get: "subs_Get ord n (mgr_subs m) = map snd (ord sub)"
    using \<open>ord [] = []\<close> by (simp add: subs_Get_def sub_def split: option.splits)
  have s: "s = \<lparr>sub_id = uuid, sub_eventName = n, sub_parent = True\<rparr>"
    and m1: "mgr_subs m1 = (mgr_subs m)(n \<mapsto> map_put uuid cb sub)"
    using assms(3) by (auto simp: manager_On_def subs_Subscribe_def getOrCreate_def sub_def Let_def split: option.splits)
  have end1: "subs_Get ord n' (Subscription_Unsubscribe s (mgr_subs m1)) = subs_Get ord n' (mgr_subs m)"
    using get map_put_fresh [OF fresh] by (simp add: Subscription_Unsubscribe_def subs_Unsubscribe_def subs_Get_def s m1)
  moreover have "mset (map snd (ord xs)) = mset (map snd xs)" for xs
    using assms(2) [of xs] by (metis mset_map)
  moreover have "mgr_subs (snd (manager_Next uuid n cb got m)) = Subscription_Unsubscribe s (mgr_subs m1)"
    using assms(3) by (simp add: manager_Next_def Let_def split: option.split)
  ultimately show ?thesis
    using map_put_mset [OF fresh] get by (simp add: subs_Get_def m1)
qed

theorem subscription_lifecycle_witness:
  "\<exists>s m1. manager_On ''i'' ''ping'' (1 :: nat) \<lparr>mgr_id = ''a'', mgr_subs = newSubscriptions, mgr_nameSpace = ''ns'',
        mgr_signer = \<lparr>Keys = None, Addr = ''x''\<rparr>, mgr_managed = \<lparr>Keys = None, Addr = ''y''\<rparr>\<rparr> = (s, m1)
     \<and> subs_Get (\<lambda>xs. xs) ''ping'' (mgr_subs m1) = [1]
     \<and> subs_Get (\<lambda>xs. xs) ''ping'' (Subscription_Unsubscribe s (mgr_subs m1)) = []"
proof -
  let ?m = "\<lparr>mgr_id = ''a'', mgr_subs = newSubscriptions, mgr_nameSpace = ''ns'',
        mgr_signer = \<lparr>Keys = None, Addr = ''x''\<rparr>, mgr_managed = \<lparr>Keys = None, Addr = ''y''\<rparr>\<rparr> :: nat manager"
  obtain s m1 where on: "manager_On ''i'' ''ping'' 1 ?m = (s, m1)" by fastforce
  have empty: "subs_Get (\<lambda>xs. xs) ''ping'' (mgr_subs ?m) = []" by (simp add: subs_Get_def newSubscriptions_def)
  have "mset (subs_Get (\<lambda>xs. xs) ''ping'' (mgr_subs m1)) = {#1#}"
    "subs_Get (\<lambda>xs. xs) ''ping'' (Subscription_Unsubscribe s (mgr_subs m1)) = []"
    using subscription_lifecycle [OF _ _ on, of "\<lambda>xs. xs" "''ping''"] empty by (auto simp: newSubscriptions_def)
  with on show ?thesis by auto
qed

end
