(* ===== verification/IpfsResolver.thy ===== *)
theory IpfsResolver
  imports Event Cache Resolver
begin

text \<open>
  \<^verbatim>\<open>resolver/ipfs_resolver.go\<close>: names resolved by asking the peers that manage an address.

  The network behind the event managers and the backend that stores the names are parameters, as
  operations of the configuration over a state of their own.  The goroutines of
  \<open>sendResolution\<close> that sleep before they send are part of the state; each operation reads the clock
  once, and its inputs (clock, formatted time, randomness, identifiers) are the record \<open>input\<close>.
\<close>

section \<open>State\<close>

text \<open>A resource keeps its event manager by reference: the index of the manager.\<close>

record Resource =
  res_addr :: Address
  res_evm :: nat
  res_request :: Subscription
  res_response :: Subscription

record ('b, 'n) ipfs_config =
  ir_env :: crypto_env
  ir_peer :: string
  ir_nameSpace :: string
  ir_publish :: "string \<Rightarrow> bytes \<Rightarrow> (unit, 'n) io"
  ir_topic :: "string \<Rightarrow> (unit, 'n) io"
  ir_signerAddr :: Address
  ir_bAdd :: "time \<Rightarrow> string \<Rightarrow> string \<Rightarrow> (unit, 'b) io"
  ir_bResolve :: "time \<Rightarrow> string \<Rightarrow> 'b \<Rightarrow> string result"

record ('b, 'n) ipfs =
  resourceCache :: "Resource memoryCache"
  resolutionCache :: "Message memoryCache"
  pending :: "string \<Rightarrow> bool"
  managers :: "unit manager list"
  sending :: "Message list"
  backend :: 'b
  net :: 'n

record input =
  i_now :: time
  i_ts :: string
  i_rnd :: bytes
  i_uuid1 :: string
  i_uuid2 :: string

text \<open>The caches of a new resolver: no lifetime for resources, ten seconds for resolutions.\<close>

definition ipfs_init :: "'b \<Rightarrow> 'n \<Rightarrow> ('b, 'n) ipfs" where
  "ipfs_init b n = \<lparr>resourceCache = NewMemoryCache 0, resolutionCache = NewMemoryCache (10 * 1000000000),
     pending = (\<lambda>_. False), managers = [], sending = [], backend = b, net = n\<rparr>"

text \<open>
  The options of \<open>NewIpfsResolver\<close>, on the configuration and the state that make up the resolver; the logger is
  left out.
\<close>

definition WithBackend :: "(time \<Rightarrow> string \<Rightarrow> string \<Rightarrow> (unit, 'b) io) \<Rightarrow> (time \<Rightarrow> string \<Rightarrow> 'b \<Rightarrow> string result) \<Rightarrow> 'b \<Rightarrow>
    ('a, 'n) ipfs_config \<times> ('a, 'n) ipfs \<Rightarrow> ('b, 'n) ipfs_config \<times> ('b, 'n) ipfs" where
  "WithBackend add resolve b = (\<lambda>(c, s).
     (\<lparr>ir_env = ir_env c, ir_peer = ir_peer c, ir_nameSpace = ir_nameSpace c, ir_publish = ir_publish c, ir_topic = ir_topic c,
       ir_signerAddr = ir_signerAddr c, ir_bAdd = add, ir_bResolve = resolve\<rparr>,
      \<lparr>resourceCache = resourceCache s, resolutionCache = resolutionCache s, pending = pending s, managers = managers s,
       sending = sending s, backend = b, net = net s\<rparr>))"

definition WithSignerAddr :: "Address \<Rightarrow> ('b, 'n) ipfs_config \<times> ('b, 'n) ipfs \<Rightarrow> ('b, 'n) ipfs_config \<times> ('b, 'n) ipfs" where
  "WithSignerAddr a = (\<lambda>(c, s). (c\<lparr>ir_signerAddr := a\<rparr>, s))"

definition WithResourceCache :: "Resource memoryCache \<Rightarrow> ('b, 'n) ipfs_config \<times> ('b, 'n) ipfs \<Rightarrow> ('b, 'n) ipfs_config \<times> ('b, 'n) ipfs" where
  "WithResourceCache rc = (\<lambda>(c, s). (c, s\<lparr>resourceCache := rc\<rparr>))"

definition WithResolutionCache :: "Message memoryCache \<Rightarrow> ('b, 'n) ipfs_config \<times> ('b, 'n) ipfs \<Rightarrow> ('b, 'n) ipfs_config \<times> ('b, 'n) ipfs" where
  "WithResolutionCache rc = (\<lambda>(c, s). (c, s\<lparr>resolutionCache := rc\<rparr>))"

text \<open>
  \<open>c\<close> holds what the factory of the managers brings, \<open>generated\<close> the new key, and \<open>options\<close> is the composition of
  the options, of which a backend may change the type of the state.
\<close>

definition NewIpfsResolver :: "(string memoryCache, 'n) ipfs_config \<Rightarrow> 'n \<Rightarrow> ecdsa_key result \<Rightarrow>
    ((string memoryCache, 'n) ipfs_config \<times> (string memoryCache, 'n) ipfs \<Rightarrow> ('b, 'n) ipfs_config \<times> ('b, 'n) ipfs) \<Rightarrow>
    (('b, 'n) ipfs_config \<times> ('b, 'n) ipfs) result" where
  "NewIpfsResolver c n generated options =
     bind_result (NewAddressWithKeys (ir_env c) generated) (\<lambda>signerAddr.
     Ok (options (c\<lparr>ir_signerAddr := signerAddr, ir_bAdd := memory_Add, ir_bResolve := memory_Resolve\<rparr>,
                  ipfs_init NewMemoryBackend n)))"

section \<open>Resources\<close>

text \<open>The callback is \<open>handleEvent\<close> of the resolver for both events.\<close>

definition ipfs_subscribe :: "('b, 'n) ipfs_config \<Rightarrow> input \<Rightarrow> Address \<Rightarrow> (Resource, ('b, 'n) ipfs) io" where
  "ipfs_subscribe c i addr s =
     (case cache_Get (i_now i) (Addr addr) (resourceCache s) of
        Ok (Some res) \<Rightarrow> (Ok res, s)
      | Panic \<Rightarrow> (Panic, s)
      | _ \<Rightarrow>
          (case NewManager (ir_topic c) (ir_peer c) (ir_nameSpace c) (ir_signerAddr c) addr (net s) of
             (Panic, n) \<Rightarrow> (Panic, s\<lparr>net := n\<rparr>)
           | (Err er, n) \<Rightarrow> (Err er, s\<lparr>net := n\<rparr>)
           | (Ok evm, n) \<Rightarrow>
               (let (response, evm1) = manager_On (i_uuid1 i) QueryNameResponse () evm;
                    (request, evm2) = manager_On (i_uuid2 i) QueryNameRequest () evm1;
                    res = \<lparr>res_addr = addr, res_evm = length (managers s),
                           res_request = request, res_response = response\<rparr>;
                    (r, rc) = cache_Add (i_now i) (Addr addr) res (resourceCache s);
                    s1 = s\<lparr>net := n, managers := managers s @ [evm2], resourceCache := rc\<rparr>
                in case r of Ok _ \<Rightarrow> (Ok res, s1) | Err er \<Rightarrow> (Err er, s1) | Panic \<Rightarrow> (Panic, s1))))"

definition ipfs_Subscribe :: "('b, 'n) ipfs_config \<Rightarrow> input \<Rightarrow> string \<Rightarrow> (Resource, ('b, 'n) ipfs) io" where
  "ipfs_Subscribe c i addr = ipfs_subscribe c i \<lparr>Keys = None, Addr = addr\<rparr>"

text \<open>Nil keys are dereferenced.\<close>

definition ipfs_Manage :: "('b, 'n) ipfs_config \<Rightarrow> input \<Rightarrow> Address \<Rightarrow> (unit, ('b, 'n) ipfs) io" where
  "ipfs_Manage c i addr s =
     (case Keys addr of
        None \<Rightarrow> (Panic, s)
      | Some keys \<Rightarrow>
          if PrivateKey keys = '''' then (Err ErrNoPrivateKey, s)
          else bind_io (ipfs_subscribe c i addr) (\<lambda>_. return_io ()) s)"

definition ipfs_Remove :: "input \<Rightarrow> string \<Rightarrow> (unit, ('b, 'n) ipfs) io" where
  "ipfs_Remove i addr s =
     (case cache_Get (i_now i) addr (resourceCache s) of
        Ok (Some res) \<Rightarrow>
          (let evm = managers s ! res_evm res;
               subs1 = Subscription_Unsubscribe (res_request res) (mgr_subs evm);
               subs2 = Subscription_Unsubscribe (res_response res) subs1;
               (r, rc) = cache_Delete addr (resourceCache s)
           in (Ok (), s\<lparr>managers := (managers s)[res_evm res := evm\<lparr>mgr_subs := subs2\<rparr>], resourceCache := rc\<rparr>))
      | Panic \<Rightarrow> (Panic, s)
      | _ \<Rightarrow> (Ok (), s))"

definition isManaged :: "time \<Rightarrow> Message \<Rightarrow> ('b, 'n) ipfs \<Rightarrow> bool" where
  "isManaged now rec s =
     (case cache_Get now (mAddress rec) (resourceCache s) of Ok (Some res) \<Rightarrow> HasKeys (res_addr res) | _ \<Rightarrow> False)"

section \<open>Names\<close>

definition ipfs_Add :: "('b, 'n) ipfs_config \<Rightarrow> input \<Rightarrow> string \<Rightarrow> string \<Rightarrow> (unit, ('b, 'n) ipfs) io" where
  "ipfs_Add c i name v s =
     (case getQueryNameRequestFromName (ir_env c) name of
        Panic \<Rightarrow> (Panic, s)
      | Err er \<Rightarrow> (Err er, s)
      | Ok rec \<Rightarrow>
          if \<not> isManaged (i_now i) rec s then (Err ErrUnmanagedAddress, s)
          else (case ir_bAdd c (i_now i) name v (backend s) of (r, b) \<Rightarrow> (r, s\<lparr>backend := b\<rparr>)))"

definition getFromCache :: "time \<Rightarrow> string \<Rightarrow> Message memoryCache \<Rightarrow> Message result" where
  "getFromCache now name rc =
     (case cache_Get now name rc of
        Panic \<Rightarrow> Panic
      | Ok (Some v) \<Rightarrow> Ok v
      | _ \<Rightarrow> Err ResolverErrNotFound)"

definition putInCache :: "time \<Rightarrow> Message \<Rightarrow> (unit, ('b, 'n) ipfs) io" where
  "putInCache now rec s =
     (case cache_Add now (qReference (ExtractQuery rec)) rec (resolutionCache s) of
        (_, rc) \<Rightarrow> (Ok (), s\<lparr>resolutionCache := rc\<rparr>))"

definition evm_Emit :: "('b, 'n) ipfs_config \<Rightarrow> input \<Rightarrow> string \<Rightarrow> bytes \<Rightarrow> Resource \<Rightarrow> (unit, ('b, 'n) ipfs) io" where
  "evm_Emit c i eventName data res s =
     (case Emit (ir_env c) (ir_publish c) (i_rnd i) (i_ts i) eventName data (managers s ! res_evm res) (net s) of
        (r, n) \<Rightarrow> (r, s\<lparr>net := n\<rparr>))"

text \<open>
  A query before it waits: the key to wait for, or \<open>None\<close> when the event could not be sent, which
  returns an empty message without an error.
\<close>

definition query_send :: "('b, 'n) ipfs_config \<Rightarrow> input \<Rightarrow> Message \<Rightarrow> (string option, ('b, 'n) ipfs) io" where
  "query_send c i rec =
     bind_io (read_io (\<lambda>_. Message_ToJson rec)) (\<lambda>data.
     bind_io (ipfs_Subscribe c i (mAddress rec)) (\<lambda>res s.
     case evm_Emit c i QueryNameRequest (bytes_of data) res s of
       (Panic, s') \<Rightarrow> (Panic, s')
     | (Err er, s') \<Rightarrow> (Ok None, s')
     | (Ok _, s') \<Rightarrow> (Ok (Some (GetID (ir_env c) rec)), s')))"

text \<open>
  The waiting loop looks into the cache now and then; \<open>polls\<close> are what it sees until the context is
  done.
\<close>

fun query_wait :: "string \<Rightarrow> (time \<times> Message memoryCache) list \<Rightarrow> Message result" where
  "query_wait key [] = Err ErrContextDone"
| "query_wait key ((now, rc) # polls) =
     (case getFromCache now key rc of
        Ok found \<Rightarrow> Ok found
      | Panic \<Rightarrow> Panic
      | Err _ \<Rightarrow> query_wait key polls)"

definition query :: "('b, 'n) ipfs_config \<Rightarrow> input \<Rightarrow> (time \<times> Message memoryCache) list \<Rightarrow> Message \<Rightarrow>
    (Message, ('b, 'n) ipfs) io" where
  "query c i polls rec =
     bind_io (query_send c i rec) (\<lambda>key.
       case key of None \<Rightarrow> return_io Message_zero | Some key \<Rightarrow> read_io (\<lambda>_. query_wait key polls))"

text \<open>The state is the one after the query has been sent.\<close>

definition ipfs_Resolve :: "('b, 'n) ipfs_config \<Rightarrow> input \<Rightarrow> (time \<times> Message memoryCache) list \<Rightarrow> string \<Rightarrow>
    (string, ('b, 'n) ipfs) io" where
  "ipfs_Resolve c i polls name s =
     (case getQueryNameRequestFromName (ir_env c) name of
        Panic \<Rightarrow> (Panic, s)
      | Err er \<Rightarrow> (Err er, s)
      | Ok rec \<Rightarrow>
          if isManaged (i_now i) rec s then (ir_bResolve c (i_now i) name (backend s), s)
          else
            bind_io (\<lambda>s. case getFromCache (i_now i) (GetID (ir_env c) rec) (resolutionCache s) of
                Err er \<Rightarrow> if er = ResolverErrNotFound then query c i polls rec s else (Err er, s)
              | r \<Rightarrow> (r, s)) (\<lambda>rc.
            return_io (qData (ExtractQuery rc))) s)"

section \<open>Events\<close>

definition addPendingQuery :: "('b, 'n) ipfs_config \<Rightarrow> Message \<Rightarrow> ('b, 'n) ipfs \<Rightarrow> ('b, 'n) ipfs" where
  "addPendingQuery c msg s = s\<lparr>pending := (pending s)(GetID (ir_env c) msg := True)\<rparr>"

definition removePendingQuery :: "Message \<Rightarrow> ('b, 'n) ipfs \<Rightarrow> ('b, 'n) ipfs" where
  "removePendingQuery msg s = s\<lparr>pending := (pending s)(qReference (ExtractQuery msg) := False)\<rparr>"

text \<open>The answer to a query, before it is signed.\<close>

definition resolution_message :: "crypto_env \<Rightarrow> input \<Rightarrow> Message \<Rightarrow> string \<Rightarrow> Message" where
  "resolution_message E i msg resolution = Message_zero\<lparr>mTimestamp := i_ts i, mAddress := mAddress msg,
     mType := QueryNameResponse,
     mPayload := Some (QueryPayload \<lparr>qData = resolution, qReference = GetID E msg\<rparr>)\<rparr>"

definition handleQuery :: "('b, 'n) ipfs_config \<Rightarrow> input \<Rightarrow> Message \<Rightarrow> (unit, ('b, 'n) ipfs) io" where
  "handleQuery c i msg s =
     (let s1 = addPendingQuery c msg s in
      case ir_bResolve c (i_now i) (qData (ExtractQuery msg)) (backend s1) of
        Panic \<Rightarrow> (Panic, s1)
      | Err er \<Rightarrow> (Ok (), s1)
      | Ok resolution \<Rightarrow>
        (case ipfs_Subscribe c i (mAddress msg) s1 of
           (Panic, s2) \<Rightarrow> (Panic, s2)
         | (Err er, s2) \<Rightarrow> (Ok (), s2)
         | (Ok resource, s2) \<Rightarrow>
             if \<not> HasKeys (res_addr resource) then (Ok (), s2)
             else (case Keys (res_addr resource) of
                 None \<Rightarrow> (Panic, s2)
               | Some keys \<Rightarrow>
                   (case SignWithKey (ir_env c) (i_rnd i) (ToEcdsaPrivateKey keys) (resolution_message (ir_env c) i msg resolution) of
                      (Panic, _) \<Rightarrow> (Panic, s2)
                    | (Err er, _) \<Rightarrow> (Ok (), s2)
                    | (Ok _, rec) \<Rightarrow>
                        (case Message_VerifySignature (ir_env c) rec of
                           Panic \<Rightarrow> (Panic, s2)
                         | Err er \<Rightarrow> (Ok (), s2)
                         | Ok _ \<Rightarrow> (Ok (), s2\<lparr>sending := sending s2 @ [rec]\<rparr>))))))"

definition handleResolution :: "('b, 'n) ipfs_config \<Rightarrow> input \<Rightarrow> Message \<Rightarrow> (unit, ('b, 'n) ipfs) io" where
  "handleResolution c i msg s =
     (case Message_VerifySignature (ir_env c) msg of
        Panic \<Rightarrow> (Panic, s)
      | Err er \<Rightarrow> (Ok (), s)
      | Ok _ \<Rightarrow>
        (case cache_Get (i_now i) (qReference (ExtractQuery msg)) (resolutionCache s) of
           Panic \<Rightarrow> (Panic, s)
         | Ok (Some cached) \<Rightarrow>
             (let s1 = (if Older cached msg then snd (putInCache (i_now i) msg s) else s)
              in (Ok (), removePendingQuery msg s1))
         | _ \<Rightarrow> (Ok (), removePendingQuery msg (snd (putInCache (i_now i) msg s)))))"

definition dispatch :: "('b, 'n) ipfs_config \<Rightarrow> input \<Rightarrow> Message \<Rightarrow> (unit, ('b, 'n) ipfs) io" where
  "dispatch c i rec =
     (if mType rec = QueryNameRequest then handleQuery c i rec
      else if mType rec = QueryNameResponse then handleResolution c i rec
      else return_io ())"

definition handleEvent :: "('b, 'n) ipfs_config \<Rightarrow> input \<Rightarrow> event \<Rightarrow> (unit, ('b, 'n) ipfs) io" where
  "handleEvent c i ev =
     (case Message_FromJson Message_zero (event_Data ev) (Some QueryType) of
        Panic \<Rightarrow> (\<lambda>s. (Panic, s))
      | Err er \<Rightarrow> return_io ()
      | Ok rec \<Rightarrow> dispatch c i rec)"

text \<open>A message that arrives for the manager with index \<open>k\<close>.\<close>

definition receive :: "('b, 'n) ipfs_config \<Rightarrow> input \<Rightarrow> ((string \<times> unit) list \<Rightarrow> (string \<times> unit) list) \<Rightarrow>
    nat \<Rightarrow> string \<Rightarrow> bytes \<Rightarrow> (unit, ('b, 'n) ipfs) io" where
  "receive c i ord k from data s =
     loopOperation (ir_env c) (\<lambda>_. handleEvent c i) ord (Ok (from, data)) (managers s ! k) s"

section \<open>Sending answers\<close>

text \<open>After the sleep: the query must still be pending, and is not any more then.\<close>

definition canSendResolution :: "Message \<Rightarrow> ('b, 'n) ipfs \<Rightarrow> bool \<times> ('b, 'n) ipfs" where
  "canSendResolution msg s =
     (let ref = qReference (ExtractQuery msg) in
      if pending s ref then (True, s\<lparr>pending := (pending s)(ref := False)\<rparr>) else (False, s))"

text \<open>The goroutine of \<open>sendResolution\<close>, which ends without a result.\<close>

definition sendResolution :: "('b, 'n) ipfs_config \<Rightarrow> input \<Rightarrow> Message \<Rightarrow> (unit, ('b, 'n) ipfs) io" where
  "sendResolution c i msg s =
     (case Message_ToJson msg of
        Panic \<Rightarrow> (Panic, s)
      | Err er \<Rightarrow> (Ok (), s)
      | Ok data \<Rightarrow>
        (case canSendResolution msg s of
           (False, s1) \<Rightarrow> (Ok (), s1)
         | (True, s1) \<Rightarrow>
             (case ipfs_Subscribe c i (mAddress msg) s1 of
                (Panic, s2) \<Rightarrow> (Panic, s2)
              | (Err er, s2) \<Rightarrow> (Ok (), s2)
              | (Ok res, s2) \<Rightarrow>
                  (case evm_Emit c i QueryNameResponse (bytes_of data) res s2 of
                     (Panic, s3) \<Rightarrow> (Panic, s3) | (_, s3) \<Rightarrow> (Ok (), s3)))))"

section \<open>Steps\<close>

text \<open>The operations of the program and the messages of the network, in any order.\<close>

inductive ipfs_step :: "('b, 'n) ipfs_config \<Rightarrow> input \<Rightarrow> ('b, 'n) ipfs \<Rightarrow> ('b, 'n) ipfs \<Rightarrow> bool" for c i where
  do_add: "ipfs_Add c i name v s = (r, s') \<Longrightarrow> ipfs_step c i s s'"
| do_resolve: "ipfs_Resolve c i polls name s = (r, s') \<Longrightarrow> ipfs_step c i s s'"
| do_manage: "ipfs_Manage c i addr s = (r, s') \<Longrightarrow> ipfs_step c i s s'"
| do_subscribe: "ipfs_Subscribe c i a s = (r, s') \<Longrightarrow> ipfs_step c i s s'"
| do_remove: "ipfs_Remove i a s = (r, s') \<Longrightarrow> ipfs_step c i s s'"
| do_receive: "k < length (managers s) \<Longrightarrow> receive c i ord k from data s = (r, s') \<Longrightarrow> ipfs_step c i s s'"
| do_send: "sending s = xs @ msg # ys \<Longrightarrow>
    sendResolution c i msg (s\<lparr>sending := xs @ ys\<rparr>) = (r, s') \<Longrightarrow> ipfs_step c i s s'"

definition ipfs_reachable :: "('b, 'n) ipfs_config \<Rightarrow> ('b, 'n) ipfs \<Rightarrow> bool" where
  "ipfs_reachable c s \<longleftrightarrow> (\<exists>b n. (\<lambda>s s'. \<exists>i. ipfs_step c i s s')\<^sup>*\<^sup>* (ipfs_init b n) s)"

lemma ipfs_reachable_step: "ipfs_reachable c s \<Longrightarrow> ipfs_step c i s s' \<Longrightarrow> ipfs_reachable c s'"
  unfolding ipfs_reachable_def by (metis (mono_tags, lifting) rtranclp.rtrancl_into_rtrancl)

lemma NewIpfsResolver_reachable:
  "NewIpfsResolver c n generated (\<lambda>r. r) = Ok (c', s) \<Longrightarrow> ipfs_reachable c' s"
  "NewIpfsResolver c n generated (WithBackend add resolve b) = Ok (c'', s') \<Longrightarrow> ipfs_reachable c'' s'"
proof -
  show "NewIpfsResolver c n generated (\<lambda>r. r) = Ok (c', s) \<Longrightarrow> ipfs_reachable c' s"
    unfolding ipfs_reachable_def by (auto simp: NewIpfsResolver_def)
  assume new: "NewIpfsResolver c n generated (WithBackend add resolve b) = Ok (c'', s')"
  have "s' = ipfs_init b n"
    using new by (auto simp: NewIpfsResolver_def WithBackend_def ipfs_init_def)
  then show "ipfs_reachable c'' s'" unfolding ipfs_reachable_def by blast
qed

section \<open>What the parts leave alone\<close>

text \<open>Subscribing touches the resources, the managers and the network only.\<close>

lemma ipfs_subscribe_frame:
  assumes "ipfs_subscribe c i addr s = (r, s')"
  shows "resolutionCache s' = resolutionCache s" "pending s' = pending s" "sending s' = sending s" "backend s' = backend s"
  using assms by (auto simp: ipfs_subscribe_def Let_def split: result.splits option.splits prod.splits)

lemma evm_Emit_frame:
  assumes "evm_Emit c i n data res s = (r, s')"
  shows "resolutionCache s' = resolutionCache s" "pending s' = pending s" "sending s' = sending s" "backend s' = backend s"
    "resourceCache s' = resourceCache s" "managers s' = managers s"
  using assms by (auto simp: evm_Emit_def split: prod.splits)

lemma frame_bundle:
  "ipfs_subscribe c i addr s = (r, s') \<Longrightarrow>
     resolutionCache s' = resolutionCache s \<and> pending s' = pending s \<and> sending s' = sending s \<and> backend s' = backend s"
  "evm_Emit c i n data res s = (r', s'') \<Longrightarrow>
     resolutionCache s'' = resolutionCache s \<and> pending s'' = pending s \<and> sending s'' = sending s \<and> backend s'' = backend s"
  by (simp_all add: ipfs_subscribe_frame evm_Emit_frame)

lemma query_send_frame:
  assumes "query_send c i rec s = (r, s')"
  shows "resolutionCache s' = resolutionCache s" "sending s' = sending s" "backend s' = backend s" "pending s' = pending s"
  using assms
  by (auto simp: query_send_def ipfs_Subscribe_def bind_io_def read_io_def split: result.splits prod.splits
      dest!: frame_bundle)

lemma ipfs_Resolve_frame:
  assumes "ipfs_Resolve c i polls name s = (r, s')"
  shows "resolutionCache s' = resolutionCache s" "sending s' = sending s" "backend s' = backend s" "pending s' = pending s"
  using assms
  by (auto simp: ipfs_Resolve_def query_def bind_io_def read_io_def return_io_def
      split: result.splits prod.splits if_splits option.splits dest: query_send_frame)

lemma ipfs_Add_frame:
  assumes "ipfs_Add c i name v s = (r, s')"
  shows "resolutionCache s' = resolutionCache s" "sending s' = sending s" "pending s' = pending s"
    "resourceCache s' = resourceCache s" "managers s' = managers s" "net s' = net s"
  using assms by (auto simp: ipfs_Add_def split: result.splits if_splits prod.splits)

lemma ipfs_Manage_frame:
  assumes "ipfs_Manage c i addr s = (r, s')"
  shows "resolutionCache s' = resolutionCache s" "sending s' = sending s" "backend s' = backend s" "pending s' = pending s"
  using assms
  by (auto simp: ipfs_Manage_def bind_io_def return_io_def split: result.splits prod.splits if_splits option.splits
      dest!: frame_bundle(1))

lemma ipfs_Remove_frame:
  assumes "ipfs_Remove i a s = (r, s')"
  shows "resolutionCache s' = resolutionCache s" "sending s' = sending s" "backend s' = backend s" "pending s' = pending s"
  using assms
  by (auto simp: ipfs_Remove_def Let_def split: result.splits prod.splits option.splits)

lemma handleQuery_frame:
  assumes "handleQuery c i msg s = (r, s')"
  shows "resolutionCache s' = resolutionCache s" "backend s' = backend s"
  using assms
  by (auto simp: handleQuery_def addPendingQuery_def ipfs_Subscribe_def Let_def
      split: result.splits prod.splits if_splits option.splits dest!: frame_bundle(1))

lemma sendResolution_frame:
  assumes "sendResolution c i msg s = (r, s')"
  shows "resolutionCache s' = resolutionCache s" "sending s' = sending s" "backend s' = backend s"
  using assms
  by (auto simp: sendResolution_def canSendResolution_def ipfs_Subscribe_def Let_def
      split: result.splits prod.splits if_splits bool.splits dest!: frame_bundle)

text \<open>What the handling of any event keeps, a message from the network keeps.\<close>

lemma receive_keeps:
  assumes "\<And>ev. keeps P (handleEvent c i ev)" and "receive c i ord k from data s = (r, s')" and "P s"
  shows "P s'"
  using keepsD [OF loopOperation_keeps [of P "\<lambda>_. handleEvent c i"], OF assms(1,3) assms(2) [unfolded receive_def]] .

end
