(* ===== verification/IpfsProps.thy ===== *)
theory IpfsProps
  imports IpfsResolver
begin

text \<open>
  The properties of the resolver over the network: what its cache of resolutions can hold, when it
  answers, a query from the asking to the answering peer and back, and what is not checked.
\<close>

section \<open>The cache of resolutions\<close>

text \<open>
  What a step at the time \<open>now\<close> does to the cache: an entry that is new carries a message with a valid
  signature under the reference of that message, and takes the place of an entry only when that one
  has expired or is older.
\<close>

definition cache_evolves :: "crypto_env \<Rightarrow> time \<Rightarrow> Message memoryCache \<Rightarrow> Message memoryCache \<Rightarrow> bool" where
  "cache_evolves E now rc rc' \<longleftrightarrow>
     (\<forall>k r'. cdata rc' k = Some r' \<longrightarrow>
        cdata rc k = Some r'
        \<or> Message_VerifySignature E (cvalue r') = Ok () \<and> qReference (ExtractQuery (cvalue r')) = k
          \<and> \<not> IsExpired now r'
          \<and> (\<forall>r. cdata rc k = Some r \<longrightarrow> IsExpired now r \<or> Older (cvalue r) (cvalue r')))
     \<and> (\<forall>k. cdata rc k \<noteq> None \<longrightarrow> cdata rc' k \<noteq> None)"

lemma cache_evolves_refl [simp]: "cache_evolves E now rc rc"
  by (simp add: cache_evolves_def)

lemma Older_trans: "Older a b \<Longrightarrow> Older b c \<Longrightarrow> Older a c"
  by (auto simp: Older_iff dest: Before_trans)

lemma cache_evolves_trans:
  assumes "cache_evolves E now a b" and "cache_evolves E now b c"
  shows "cache_evolves E now a c"
proof -
  have "cdata a k = Some r'
      \<or> Message_VerifySignature E (cvalue r') = Ok () \<and> qReference (ExtractQuery (cvalue r')) = k
        \<and> \<not> IsExpired now r' \<and> (\<forall>r. cdata a k = Some r \<longrightarrow> IsExpired now r \<or> Older (cvalue r) (cvalue r'))"
    if "cdata c k = Some r'" for k r'
  proof (cases "cdata b k = Some r'")
    case True
    then show ?thesis using assms(1) unfolding cache_evolves_def by blast
  next
    case False
    then have new: "Message_VerifySignature E (cvalue r') = Ok ()" "qReference (ExtractQuery (cvalue r')) = k"
        "\<not> IsExpired now r'" "\<And>q. cdata b k = Some q \<Longrightarrow> IsExpired now q \<or> Older (cvalue q) (cvalue r')"
      using assms(2) that unfolding cache_evolves_def by blast+
    have "IsExpired now r \<or> Older (cvalue r) (cvalue r')" if "cdata a k = Some r" for r
    proof -
      have "cdata b k \<noteq> None" using assms(1) that unfolding cache_evolves_def by simp
      then obtain q where q: "cdata b k = Some q" by blast
      have "q = r \<or> \<not> IsExpired now q \<and> (IsExpired now r \<or> Older (cvalue r) (cvalue q))"
        using assms(1) [unfolded cache_evolves_def, THEN conjunct1, rule_format, OF q] that by auto
      with new(4) [OF q] show ?thesis using Older_trans by blast
    qed
    with new show ?thesis by blast
  qed
  moreover have "cdata c k \<noteq> None" if "cdata a k \<noteq> None" for k
    using assms that unfolding cache_evolves_def by blast
  ultimately show ?thesis unfolding cache_evolves_def by blast
qed

lemma putInCache_data:
  "resolutionCache (snd (putInCache now m s)) = (resolutionCache s)\<lparr>cdata := (cdata (resolutionCache s))
     (qReference (ExtractQuery m) \<mapsto> \<lparr>expiresAt = (if defaultTTL (resolutionCache s) > 0
        then now + defaultTTL (resolutionCache s) else 0), cvalue = m\<rparr>)\<rparr>"
  by (simp add: putInCache_def cache_Add_def AddWithTTL_def)

lemma putInCache_evolves:
  assumes "Message_VerifySignature E m = Ok ()"
    and "\<And>r. cdata (resolutionCache s) (qReference (ExtractQuery m)) = Some r \<Longrightarrow> IsExpired now r \<or> Older (cvalue r) m"
  shows "cache_evolves E now (resolutionCache s) (resolutionCache (snd (putInCache now m s)))"
  using assms by (auto simp: cache_evolves_def putInCache_data IsExpired_def)

lemma handleResolution_evolves:
  assumes "handleResolution c i msg s = (r, s')"
  shows "cache_evolves (ir_env c) (i_now i) (resolutionCache s) (resolutionCache s')"
proof (cases "Message_VerifySignature (ir_env c) msg")
  case (Ok u)
  let ?ref = "qReference (ExtractQuery msg)"
  have put: "cache_evolves (ir_env c) (i_now i) (resolutionCache s) (resolutionCache (snd (putInCache (i_now i) msg s)))"
    if "\<And>q. cdata (resolutionCache s) ?ref = Some q \<Longrightarrow> IsExpired (i_now i) q \<or> Older (cvalue q) msg"
    using Ok that by (intro putInCache_evolves) simp_all
  have get: "cache_Get (i_now i) ?ref (resolutionCache s) = Ok
      (case cdata (resolutionCache s) ?ref of None \<Rightarrow> None | Some q \<Rightarrow> if IsExpired (i_now i) q then None else Some (cvalue q))"
    by (simp add: cache_Get_def split: option.split)
  show ?thesis
    using assms Ok put get
    by (cases "cdata (resolutionCache s) ?ref")
       (auto simp: handleResolution_def removePendingQuery_def Let_def split: if_splits)
qed (use assms in \<open>auto simp: handleResolution_def\<close>)

lemma handleEvent_evolves:
  assumes "handleEvent c i ev s = (r, s')"
  shows "cache_evolves (ir_env c) (i_now i) (resolutionCache s) (resolutionCache s')"
  using assms handleResolution_evolves [of c i _ s r s'] handleQuery_frame [of c i _ s r s']
  by (auto simp: handleEvent_def dispatch_def return_io_def split: result.splits if_splits)

lemma receive_evolves:
  assumes "receive c i ord k from data s = (r, s')"
  shows "cache_evolves (ir_env c) (i_now i) (resolutionCache s) (resolutionCache s')"
proof (rule receive_keeps [OF _ assms])
  show "keeps (\<lambda>t. cache_evolves (ir_env c) (i_now i) (resolutionCache s) (resolutionCache t)) (handleEvent c i ev)" for ev
    unfolding keeps_def using handleEvent_evolves cache_evolves_trans by blast
qed simp

lemma step_evolves:
  "ipfs_step c i s s' \<Longrightarrow> cache_evolves (ir_env c) (i_now i) (resolutionCache s) (resolutionCache s')"
proof (induction rule: ipfs_step.induct)
  case (do_subscribe a s r s')
  then show ?case using ipfs_subscribe_frame(1) by (fastforce simp: ipfs_Subscribe_def)
next
  case (do_send s xs msg ys r s')
  then show ?case using sendResolution_frame(1) [OF do_send(2)] by simp
qed (auto simp: ipfs_Add_frame ipfs_Resolve_frame ipfs_Manage_frame ipfs_Remove_frame dest: receive_evolves)

definition resolutions_signed :: "crypto_env \<Rightarrow> Message memoryCache \<Rightarrow> bool" where
  "resolutions_signed E rc \<longleftrightarrow> (\<forall>k r. cdata rc k = Some r \<longrightarrow>
     Message_VerifySignature E (cvalue r) = Ok () \<and> qReference (ExtractQuery (cvalue r)) = k)"

lemma evolves_signed: "cache_evolves E now rc rc' \<Longrightarrow> resolutions_signed E rc \<Longrightarrow> resolutions_signed E rc'"
  unfolding cache_evolves_def resolutions_signed_def by blast

lemma reachable_signed: "ipfs_reachable c s \<Longrightarrow> resolutions_signed (ir_env c) (resolutionCache s)"
proof -
  assume "ipfs_reachable c s"
  then obtain b n where "(\<lambda>s s'. \<exists>i. ipfs_step c i s s')\<^sup>*\<^sup>* (ipfs_init b n) s"
    by (auto simp: ipfs_reachable_def)
  then show ?thesis
  proof (induction rule: rtranclp_induct)
    case base
    show ?case by (simp add: resolutions_signed_def ipfs_init_def NewMemoryCache_def)
  next
    case (step s s')
    then show ?case using step_evolves evolves_signed by blast
  qed
qed

section \<open>Over the network\<close>

text \<open>
  A network that takes every message and every subscription, and keeps what was published; a
  resolver on it.
\<close>

type_synonym bus = "(string \<times> bytes) list"

definition on_bus :: "('b, bus) ipfs_config \<Rightarrow> bool" where
  "on_bus c \<longleftrightarrow> ir_publish c = (\<lambda>t d n. (Ok (), n @ [(t, d)])) \<and> ir_topic c = (\<lambda>t n. (Ok (), n))"

text \<open>The manager of an address, with the resolver's callback for both events.\<close>

definition manager_of :: "('b, 'n) ipfs_config \<Rightarrow> string \<Rightarrow> string \<Rightarrow> Address \<Rightarrow> unit manager" where
  "manager_of c u1 u2 addr = \<lparr>mgr_id = ir_peer c,
     mgr_subs = [QueryNameResponse \<mapsto> [(u1, ())], QueryNameRequest \<mapsto> [(u2, ())]],
     mgr_nameSpace = ir_nameSpace c, mgr_signer = ir_signerAddr c, mgr_managed = addr\<rparr>"

lemma query_names [simp]: "QueryNameRequest \<noteq> QueryNameResponse" "QueryNameResponse \<noteq> QueryNameRequest" "utf8_valid QueryNameRequest" "utf8_valid QueryNameResponse"
  by (simp_all add: QueryNameRequest_def QueryNameResponse_def)

lemma manager_On_twice:
  assumes "manager_On u1 QueryNameResponse () \<lparr>mgr_id = p, mgr_subs = newSubscriptions, mgr_nameSpace = ns, mgr_signer = a, mgr_managed = addr\<rparr> = (s1, m1)"
    and "manager_On u2 QueryNameRequest () m1 = (s2, m2)"
  shows "m2 = \<lparr>mgr_id = p, mgr_subs = [QueryNameResponse \<mapsto> [(u1, ())], QueryNameRequest \<mapsto> [(u2, ())]],
     mgr_nameSpace = ns, mgr_signer = a, mgr_managed = addr\<rparr>"
  using assms
  by (auto simp: manager_On_def subs_Subscribe_def getOrCreate_def newSubscriptions_def)

text \<open>Subscribing to an address without a resource makes a manager for it.\<close>

lemma subscribe_new:
  assumes "ir_topic c = (\<lambda>t n. (Ok (), n))" and "cache_Get (i_now i) (Addr addr) (resourceCache s) = Ok None"
  shows "\<exists>res rc. ipfs_subscribe c i addr s
      = (Ok res, s\<lparr>managers := managers s @ [manager_of c (i_uuid1 i) (i_uuid2 i) addr], resourceCache := rc\<rparr>)
    \<and> res_addr res = addr \<and> res_evm res = length (managers s)
    \<and> cache_Add (i_now i) (Addr addr) res (resourceCache s) = (Ok (), rc)"
proof -
  let ?m = "\<lparr>mgr_id = ir_peer c, mgr_subs = newSubscriptions, mgr_nameSpace = ir_nameSpace c,
    mgr_signer = ir_signerAddr c, mgr_managed = addr\<rparr> :: unit manager"
  obtain s1 m1 where on1: "manager_On (i_uuid1 i) QueryNameResponse () ?m = (s1, m1)" by fastforce
  obtain s2 m2 where on2: "manager_On (i_uuid2 i) QueryNameRequest () m1 = (s2, m2)" by fastforce
  have new: "NewManager (ir_topic c) (ir_peer c) (ir_nameSpace c) (ir_signerAddr c) addr (net s) = (Ok ?m, net s)"
    using assms(1) by (simp add: NewManager_def bind_io_def return_io_def)
  let ?res = "\<lparr>res_addr = addr, res_evm = length (managers s), res_request = s2, res_response = s1\<rparr>"
  obtain rc where rc: "cache_Add (i_now i) (Addr addr) ?res (resourceCache s) = (Ok (), rc)"
    by (simp add: cache_Add_def AddWithTTL_def)
  have "m2 = manager_of c (i_uuid1 i) (i_uuid2 i) addr"
    using manager_On_twice [OF on1 on2] by (simp add: manager_of_def)
  with assms(2) new on1 on2 rc show ?thesis
    by (intro exI [of _ ?res] exI [of _ rc]) (simp add: ipfs_subscribe_def)
qed

lemma subscribe_cached:
  "cache_Get (i_now i) (Addr addr) (resourceCache s) = Ok (Some res) \<Longrightarrow> ipfs_subscribe c i addr s = (Ok res, s)"
  by (simp add: ipfs_subscribe_def)

text \<open>
  A message with a query that a manager emits is a call of \<open>dispatch\<close> with that message at every other manager
  of the topic that has the callback.
\<close>

lemma query_transport:
  assumes "signer_ok E k (mgr_signer m)" and "utf8_valid ts" and "utf8_valid eventName"
    and "message_ok QueryType rec" and "Message_ToJson rec = Ok data"
  shows "\<exists>js. (\<forall>publish (w :: 'n). Emit E publish rnd ts eventName (bytes_of data) m w = publish (getTopicName m) js w)
    \<and> (\<forall>(c :: ('b, 'm) ipfs_config) i ord j from s x. ir_env c = E \<longrightarrow> from \<noteq> mgr_id (managers s ! j)
        \<longrightarrow> (\<forall>z. ord [z] = [z]) \<longrightarrow> mgr_subs (managers s ! j) eventName = Some [x]
        \<longrightarrow> receive c i ord j from js s = bind_io (dispatch c i rec) (\<lambda>_. return_io ()) s)"
proof -
  obtain js where js: "\<And>publish (w :: 'n). Emit E publish rnd ts eventName (bytes_of data) m w = publish (getTopicName m) js w"
    and ev: "newEventFromPubSubMessage E js = Ok \<lparr>N = eventName, D = bytes_of data\<rparr>"
    using Emit_publishes [OF assms(1-3)] by blast
  have dispatch: "handleEvent c i \<lparr>N = eventName, D = bytes_of data\<rparr> = dispatch c i rec" for c :: "('b, 'm) ipfs_config" and i
    using message_json.dec_enc_ok [OF assms(4,5)] by (simp add: handleEvent_def event_Data_def)
  have "receive c i ord j from js s = bind_io (dispatch c i rec) (\<lambda>_. return_io ()) s"
    if "ir_env c = E" "from \<noteq> mgr_id (managers s ! j)" "\<And>z. ord [z] = [z]" "mgr_subs (managers s ! j) eventName = Some [x]"
    for c :: "('b, 'm) ipfs_config" and i ord j "from" s x
    using that ev dispatch by (simp add: receive_def loopOperation_def subs_Get_def)
  with js show ?thesis by blast
qed

text \<open>The same for one receiver.\<close>

lemma query_transport_to:
  fixes c :: "('b, 'm) ipfs_config"
  assumes "signer_ok E k (mgr_signer m)" and "utf8_valid ts" and "utf8_valid eventName" and "message_ok QueryType rec"
    and "ir_env c = E" and "from \<noteq> mgr_id (managers s ! j)" and "\<And>z. ord [z] = [z]" and "mgr_subs (managers s ! j) eventName = Some [x]"
  shows "\<exists>js. (\<forall>publish (w :: 'n). Emit E publish rnd ts eventName (bytes_of (render (JObj (message_fields rec)))) m w
      = publish (getTopicName m) js w)
    \<and> receive c i ord j from js s = bind_io (dispatch c i rec) (\<lambda>_. return_io ()) s"
proof -
  have json: "Message_ToJson rec = Ok (render (JObj (message_fields rec)))" by (simp only: Message_ToJson_def)
  obtain js where js: "\<forall>publish (w :: 'n). Emit E publish rnd ts eventName (bytes_of (render (JObj (message_fields rec)))) m w
      = publish (getTopicName m) js w"
    and rcv: "\<forall>(c :: ('b, 'm) ipfs_config) i ord j from s x. ir_env c = E \<longrightarrow> from \<noteq> mgr_id (managers s ! j)
        \<longrightarrow> (\<forall>z. ord [z] = [z]) \<longrightarrow> mgr_subs (managers s ! j) eventName = Some [x]
        \<longrightarrow> receive c i ord j from js s = bind_io (dispatch c i rec) (\<lambda>_. return_io ()) s"
    using query_transport [OF assms(1-4) json, of rnd] by (elim exE conjE) (rule that)
  have "receive c i ord j from js s = bind_io (dispatch c i rec) (\<lambda>_. return_io ()) s"
    by (rule rcv [rule_format, OF assms(5-8)])
  with js show ?thesis by blast
qed

lemma manager_of_sel [simp]:
  "mgr_id (manager_of c u1 u2 addr) = ir_peer c" "mgr_signer (manager_of c u1 u2 addr) = ir_signerAddr c"
  "mgr_subs (manager_of c u1 u2 addr) QueryNameRequest = Some [(u2, ())]"
  "mgr_subs (manager_of c u1 u2 addr) QueryNameResponse = Some [(u1, ())]"
  "getTopicName (manager_of c u1 u2 addr) = ir_nameSpace c @ ''-'' @ Addr addr"
  by (simp_all add: manager_of_def getTopicName_def)

lemma request_of_name:
  assumes "getQueryNameRequestFromName E name = Ok rec"
  shows "mType rec = QueryNameRequest" "ExtractQuery rec = \<lparr>qData = name, qReference = ''''\<rparr>"
    and "utf8_valid name \<Longrightarrow> utf8_valid (mAddress rec) \<Longrightarrow> message_ok QueryType rec"
  using assms
  by (auto simp: getQueryNameRequestFromName_def Let_def ExtractQuery_def message_ok_def payload_ok_def type_of_payload_def
      split: if_splits result.splits)

text \<open>A resolution with a valid signature is taken in when none is cached; a name that is not managed is answered with it.\<close>

lemma resolution_taken:
  assumes "Message_VerifySignature (ir_env c) answer = Ok ()" and "mType answer = QueryNameResponse"
    and "qReference (ExtractQuery answer) = key" and "cache_Get (i_now i) key (resolutionCache s) = Ok None" and "0 < i_now i"
    and "alive (i_now i) (defaultTTL (resolutionCache s)) (i_now i2)"
  shows "\<exists>s'. dispatch c i answer s = (Ok (), s') \<and> resourceCache s' = resourceCache s
    \<and> getFromCache (i_now i2) key (resolutionCache s') = Ok answer"
proof -
  define s' where "s' = removePendingQuery answer (snd (putInCache (i_now i) answer s))"
  have "dispatch c i answer s = (Ok (), s')"
    using assms(1-4) by (simp add: dispatch_def handleResolution_def s'_def)
  moreover have "resolutionCache s' = snd (cache_Add (i_now i) key answer (resolutionCache s))"
    using assms(3) by (simp add: s'_def removePendingQuery_def putInCache_def split: prod.split)
  then have "getFromCache (i_now i2) key (resolutionCache s') = Ok answer"
    using memory_cache.get_add [OF assms(5), of key answer "defaultTTL (resolutionCache s)" "resolutionCache s"]
      assms(6) memory_cache.add_ok [of "i_now i" key answer "defaultTTL (resolutionCache s)" "resolutionCache s"]
    by (auto simp: getFromCache_def cache_Add_def)
  moreover have "resourceCache s' = resourceCache s"
    by (simp add: s'_def removePendingQuery_def putInCache_def split: prod.split)
  ultimately show ?thesis by blast
qed

lemma resolution_answers:
  assumes "Message_VerifySignature (ir_env c) answer = Ok ()" and "mType answer = QueryNameResponse"
    and "qReference (ExtractQuery answer) = GetID (ir_env c) rec"
    and "getQueryNameRequestFromName (ir_env c) name = Ok rec"
    and "cache_Get (i_now i) (GetID (ir_env c) rec) (resolutionCache s) = Ok None" and "0 < i_now i"
    and "alive (i_now i) (defaultTTL (resolutionCache s)) (i_now i2)" and "\<not> isManaged (i_now i2) rec s"
  shows "\<exists>s'. dispatch c i answer s = (Ok (), s')
    \<and> ipfs_Resolve c i2 polls name s' = (Ok (qData (ExtractQuery answer)), s')
    \<and> query_wait (GetID (ir_env c) rec) [(i_now i2, resolutionCache s')] = Ok answer"
proof -
  obtain s' where s': "dispatch c i answer s = (Ok (), s')" "resourceCache s' = resourceCache s"
      "getFromCache (i_now i2) (GetID (ir_env c) rec) (resolutionCache s') = Ok answer"
    using resolution_taken [OF assms(1-3,5-7)] by blast
  then have "\<not> isManaged (i_now i2) rec s'" using assms(8) by (simp add: isManaged_def)
  then have "ipfs_Resolve c i2 polls name s' = (Ok (qData (ExtractQuery answer)), s')"
    using assms(4) s'(3) by (simp add: ipfs_Resolve_def bind_io_def return_io_def)
  with s'(1,3) show ?thesis by auto
qed

section \<open>A query from peer to peer\<close>

lemma Emit_on_bus:
  assumes "on_bus c" and "managers s ! res_evm res = m"
    and "\<And>w :: bus. Emit (ir_env c) (ir_publish c) (i_rnd i) (i_ts i) eventName data m w = ir_publish c (getTopicName m) js w"
  shows "evm_Emit c i eventName data res s = (Ok (), s\<lparr>net := net s @ [(getTopicName m, js)]\<rparr>)"
  using assms by (simp add: evm_Emit_def on_bus_def)

text \<open>The asking side: the query goes out on the topic of the address.\<close>

lemma query_published:
  assumes "on_bus c" and "signer_ok (ir_env c) k (ir_signerAddr c)" and "utf8_valid (i_ts i)"
    and "getQueryNameRequestFromName (ir_env c) name = Ok rec" and "utf8_valid name" and "utf8_valid (mAddress rec)"
    and "cache_Get (i_now i) (mAddress rec) (resourceCache s) = Ok None"
  shows "\<exists>js s1. query_send c i rec s = (Ok (Some (GetID (ir_env c) rec)), s1)
    \<and> net s1 = net s @ [(ir_nameSpace c @ ''-'' @ mAddress rec, js)]
    \<and> managers s1 = managers s @ [manager_of c (i_uuid1 i) (i_uuid2 i) \<lparr>Keys = None, Addr = mAddress rec\<rparr>]
    \<and> resolutionCache s1 = resolutionCache s
    \<and> (\<exists>res. cache_Add (i_now i) (mAddress rec) res (resourceCache s) = (Ok (), resourceCache s1)
          \<and> res_addr res = \<lparr>Keys = None, Addr = mAddress rec\<rparr>)
    \<and> (\<forall>(c' :: ('b2, bus) ipfs_config) i' ord j from s' x. ir_env c' = ir_env c \<longrightarrow> from \<noteq> mgr_id (managers s' ! j)
        \<longrightarrow> (\<forall>z. ord [z] = [z]) \<longrightarrow> mgr_subs (managers s' ! j) QueryNameRequest = Some [x]
        \<longrightarrow> receive c' i' ord j from js s' = bind_io (dispatch c' i' rec) (\<lambda>_. return_io ()) s')"
proof -
  let ?m = "manager_of c (i_uuid1 i) (i_uuid2 i) \<lparr>Keys = None, Addr = mAddress rec\<rparr>"
  have ok: "message_ok QueryType rec" by (rule request_of_name(3) [OF assms(4-6)])
  obtain data where data: "Message_ToJson rec = Ok data" by (simp add: Message_ToJson_def)
  have signer: "signer_ok (ir_env c) k (mgr_signer ?m)" using assms(2) by simp
  obtain js where js: "\<forall>publish (w :: bus). Emit (ir_env c) publish (i_rnd i) (i_ts i) QueryNameRequest (bytes_of data) ?m w = publish (getTopicName ?m) js w"
    and rcv: "\<forall>(c' :: ('b2, bus) ipfs_config) i' ord j from s' x. ir_env c' = ir_env c \<longrightarrow> from \<noteq> mgr_id (managers s' ! j)
        \<longrightarrow> (\<forall>z. ord [z] = [z]) \<longrightarrow> mgr_subs (managers s' ! j) QueryNameRequest = Some [x]
        \<longrightarrow> receive c' i' ord j from js s' = bind_io (dispatch c' i' rec) (\<lambda>_. return_io ()) s'"
    using query_transport [OF signer assms(3) query_names(3) ok data, of "i_rnd i"] by (elim exE conjE) (rule that)
  obtain res rc where sub: "ipfs_Subscribe c i (mAddress rec) s = (Ok res, s\<lparr>managers := managers s @ [?m], resourceCache := rc\<rparr>)"
    and res: "res_addr res = \<lparr>Keys = None, Addr = mAddress rec\<rparr>" "res_evm res = length (managers s)"
      "cache_Add (i_now i) (mAddress rec) res (resourceCache s) = (Ok (), rc)"
    using subscribe_new [of c i "\<lparr>Keys = None, Addr = mAddress rec\<rparr>" s] assms(1,7)
    by (auto simp: ipfs_Subscribe_def on_bus_def)
  let ?s = "s\<lparr>managers := managers s @ [?m], resourceCache := rc\<rparr>"
  have "evm_Emit c i QueryNameRequest (bytes_of data) res ?s = (Ok (), ?s\<lparr>net := net s @ [(getTopicName ?m, js)]\<rparr>)"
    using Emit_on_bus [OF assms(1), of ?s res ?m i QueryNameRequest "bytes_of data" js] js res(2) by simp
  then have "query_send c i rec s = (Ok (Some (GetID (ir_env c) rec)), ?s\<lparr>net := net s @ [(getTopicName ?m, js)]\<rparr>)"
    using data sub by (simp add: query_send_def bind_io_def read_io_def)
  with rcv res show ?thesis by (intro exI [of _ js] exI conjI) (assumption | simp | rule exI)+
qed

text \<open>The answering side: the manager of the address signs the value with the key of the address.\<close>

lemma query_answered:
  assumes "mType rec = QueryNameRequest" and "utf8_valid (mAddress rec)"
    and "cache_Get (i_now i) (mAddress rec) (resourceCache s) = Ok (Some res)" and "signer_ok (ir_env c) k (res_addr res)"
    and "ir_bResolve c (i_now i) (qData (ExtractQuery rec)) (backend s) = Ok v" and "utf8_valid v" and "utf8_valid (i_ts i)"
  shows "\<exists>answer. dispatch c i rec s = (Ok (), s\<lparr>pending := (pending s)(GetID (ir_env c) rec := True), sending := sending s @ [answer]\<rparr>)
    \<and> Message_VerifySignature (ir_env c) answer = Ok () \<and> message_ok QueryType answer
    \<and> mType answer = QueryNameResponse \<and> mAddress answer = mAddress rec
    \<and> ExtractQuery answer = \<lparr>qData = v, qReference = GetID (ir_env c) rec\<rparr>
    \<and> mPublicKey answer = PublicKey (keypair_of k)"
proof -
  let ?E = "ir_env c" and ?p = "QueryPayload \<lparr>qData = v, qReference = GetID (ir_env c) rec\<rparr>"
  note k = assms(4) [unfolded signer_ok_def]
  obtain answer where sign: "SignWithKey ?E (i_rnd i) k (resolution_message ?E i rec v) = (Ok (), answer)"
    by (rule signer_sign [OF assms(4)])
  have payload: "mPayload (resolution_message ?E i rec v) = Some ?p" "payload_ok ?p" "type_of_payload ?p = QueryType"
    using assms(6) by (simp_all add: resolution_message_def payload_ok_def type_of_payload_def GetID_def)
  have answer: "message_ok QueryType answer" "mPayload answer = Some ?p" "mAddress answer = mAddress rec" "mType answer = QueryNameResponse"
    using SignWithKey_message_ok [OF sign payload] assms(2,7) by (simp_all add: resolution_message_def)
  have verify: "Message_VerifySignature ?E answer = Ok ()" "mPublicKey answer = PublicKey (keypair_of k)"
    using SignWithKey_verifies [OF _ _ sign] k by simp_all
  let ?s1 = "s\<lparr>pending := (pending s)(GetID ?E rec := True)\<rparr>"
  have sub: "ipfs_Subscribe c i (mAddress rec) ?s1 = (Ok res, ?s1)"
    unfolding ipfs_Subscribe_def using assms(3) by (intro subscribe_cached) simp
  have "HasKeys (res_addr res)" using HasKeys_pair [of "res_addr res" k] k by simp
  then have "dispatch c i rec s = (Ok (), ?s1\<lparr>sending := sending s @ [answer]\<rparr>)"
    using assms(1,5) sub k sign verify(1)
    by (simp add: dispatch_def handleQuery_def addPendingQuery_def ToEcdsaPrivateKey_keypair_of)
  with answer verify show ?thesis by (intro exI [of _ answer]) (simp add: ExtractQuery_def)
qed

lemma answer_published:
  assumes "on_bus c" and "signer_ok (ir_env c) k (ir_signerAddr c)" and "utf8_valid (i_ts i)" and "message_ok QueryType answer"
    and "cache_Get (i_now i) (mAddress answer) (resourceCache s) = Ok (Some res)"
    and "managers s ! res_evm res = manager_of c u1 u2 addr" and "pending s (qReference (ExtractQuery answer))"
  shows "\<exists>js. sendResolution c i answer s = (Ok (), s\<lparr>pending := (pending s)(qReference (ExtractQuery answer) := False),
        net := net s @ [(ir_nameSpace c @ ''-'' @ Addr addr, js)]\<rparr>)
    \<and> (\<forall>(c' :: ('b2, bus) ipfs_config) i' ord j from s' x. ir_env c' = ir_env c \<longrightarrow> from \<noteq> mgr_id (managers s' ! j)
        \<longrightarrow> (\<forall>z. ord [z] = [z]) \<longrightarrow> mgr_subs (managers s' ! j) QueryNameResponse = Some [x]
        \<longrightarrow> receive c' i' ord j from js s' = bind_io (dispatch c' i' answer) (\<lambda>_. return_io ()) s')"
proof -
  let ?m = "manager_of c u1 u2 addr" and ?ref = "qReference (ExtractQuery answer)"
  obtain data where data: "Message_ToJson answer = Ok data" by (simp add: Message_ToJson_def)
  have signer: "signer_ok (ir_env c) k (mgr_signer ?m)" using assms(2) by simp
  obtain js where js: "\<forall>publish (w :: bus). Emit (ir_env c) publish (i_rnd i) (i_ts i) QueryNameResponse (bytes_of data) ?m w = publish (getTopicName ?m) js w"
    and rcv: "\<forall>(c' :: ('b2, bus) ipfs_config) i' ord j from s' x. ir_env c' = ir_env c \<longrightarrow> from \<noteq> mgr_id (managers s' ! j)
        \<longrightarrow> (\<forall>z. ord [z] = [z]) \<longrightarrow> mgr_subs (managers s' ! j) QueryNameResponse = Some [x]
        \<longrightarrow> receive c' i' ord j from js s' = bind_io (dispatch c' i' answer) (\<lambda>_. return_io ()) s'"
    using query_transport [OF signer assms(3) query_names(4) assms(4) data, of "i_rnd i"] by (elim exE conjE) (rule that)
  let ?s1 = "s\<lparr>pending := (pending s)(?ref := False)\<rparr>"
  have "ipfs_Subscribe c i (mAddress answer) ?s1 = (Ok res, ?s1)"
    unfolding ipfs_Subscribe_def using assms(5) by (intro subscribe_cached) simp
  moreover have "evm_Emit c i QueryNameResponse (bytes_of data) res ?s1 = (Ok (), ?s1\<lparr>net := net s @ [(getTopicName ?m, js)]\<rparr>)"
    using Emit_on_bus [OF assms(1), of ?s1 res ?m i QueryNameResponse "bytes_of data" js] js assms(6) by simp
  ultimately have "sendResolution c i answer s = (Ok (), ?s1\<lparr>net := net s @ [(getTopicName ?m, js)]\<rparr>)"
    using data assms(7) by (simp add: sendResolution_def canSendResolution_def)
  with rcv show ?thesis by (intro exI [of _ js]) simp
qed

text \<open>An answer signed with anyone's key is delivered, and taken.\<close>

lemma forged_message:
  fixes c :: "('b, bus) ipfs_config"
  assumes "ir_env c = E" and "utf8_valid v" and "signer_ok E k (mgr_signer m)" and "utf8_valid ts"
    and "from \<noteq> mgr_id (managers s ! j)" and "\<And>z. ord [z] = [z]" and "mgr_subs (managers s ! j) QueryNameResponse = Some [x]"
  shows "\<exists>answer js.
    SignWithKey E rnd k (Message_zero\<lparr>mTimestamp := ts, mType := QueryNameResponse,
      mPayload := Some (QueryPayload \<lparr>qData = v, qReference = GetID E rec\<rparr>)\<rparr>) = (Ok (), answer)
    \<and> (\<forall>publish (w :: bus). Emit E publish rnd ts QueryNameResponse
         (bytes_of (render (JObj (message_fields answer)))) m w = publish (getTopicName m) js w)
    \<and> receive c i ord j from js s = bind_io (dispatch c i answer) (\<lambda>_. return_io ()) s
    \<and> Message_VerifySignature E answer = Ok () \<and> mType answer = QueryNameResponse
    \<and> ExtractQuery answer = \<lparr>qData = v, qReference = GetID E rec\<rparr> \<and> mPublicKey answer = PublicKey (keypair_of k)"
proof -
  let ?p = "QueryPayload \<lparr>qData = v, qReference = GetID E rec\<rparr>"
  let ?m = "Message_zero\<lparr>mTimestamp := ts, mType := QueryNameResponse, mPayload := Some ?p\<rparr>"
  obtain answer where sign: "SignWithKey E rnd k ?m = (Ok (), answer)" by (rule signer_sign [OF assms(3)])
  have payload: "mPayload ?m = Some ?p" "payload_ok ?p" "type_of_payload ?p = QueryType"
    using assms(2) by (simp_all add: payload_ok_def type_of_payload_def GetID_def)
  have answer: "message_ok QueryType answer" "mPayload answer = Some ?p" "mType answer = QueryNameResponse"
    using SignWithKey_message_ok [OF sign payload] assms(4) by (simp_all add: Message_zero_def)
  have verify: "Message_VerifySignature E answer = Ok ()" "mPublicKey answer = PublicKey (keypair_of k)"
    using SignWithKey_verifies [OF _ _ sign] assms(3) by (simp_all add: signer_ok_def)
  obtain js where js: "\<forall>publish (w :: bus). Emit E publish rnd ts QueryNameResponse
         (bytes_of (render (JObj (message_fields answer)))) m w = publish (getTopicName m) js w"
    and "receive c i ord j from js s = bind_io (dispatch c i answer) (\<lambda>_. return_io ()) s"
    using query_transport_to [OF assms(3,4) query_names(4) answer(1) assms(1,5,6,7), of rnd i] by (elim exE conjE) (rule that)
  with sign verify answer(2,3) show ?thesis by (intro exI [of _ answer] exI [of _ js]) (simp add: ExtractQuery_def)
qed

lemma forged_resolution:
  fixes c :: "('b, bus) ipfs_config"
  assumes "ir_env c = E" and "getQueryNameRequestFromName E name = Ok rec" and "utf8_valid v" and "0 < i_now i"
    and "signer_ok E k (mgr_signer m)" and "utf8_valid ts" and "from \<noteq> mgr_id (managers s ! j)" and "\<And>z. ord [z] = [z]"
    and "mgr_subs (managers s ! j) QueryNameResponse = Some [x]"
    and "cache_Get (i_now i) (GetID E rec) (resolutionCache s) = Ok None"
    and "alive (i_now i) (defaultTTL (resolutionCache s)) (i_now i2)" and "\<not> isManaged (i_now i2) rec s"
  shows "\<exists>answer js s'.
    SignWithKey E rnd k (Message_zero\<lparr>mTimestamp := ts, mType := QueryNameResponse,
      mPayload := Some (QueryPayload \<lparr>qData = v, qReference = GetID E rec\<rparr>)\<rparr>) = (Ok (), answer)
    \<and> (\<forall>publish (w :: bus). Emit E publish rnd ts QueryNameResponse
         (bytes_of (render (JObj (message_fields answer)))) m w = publish (getTopicName m) js w)
    \<and> receive c i ord j from js s = (Ok (), s') \<and> ipfs_Resolve c i2 polls name s' = (Ok v, s')
    \<and> query_wait (GetID E rec) [(i_now i2, resolutionCache s')] = Ok answer \<and> mPublicKey answer = PublicKey (keypair_of k)"
proof -
  obtain answer js where msg: "SignWithKey E rnd k (Message_zero\<lparr>mTimestamp := ts, mType := QueryNameResponse,
      mPayload := Some (QueryPayload \<lparr>qData = v, qReference = GetID E rec\<rparr>)\<rparr>) = (Ok (), answer)"
    "\<forall>publish (w :: bus). Emit E publish rnd ts QueryNameResponse
         (bytes_of (render (JObj (message_fields answer)))) m w = publish (getTopicName m) js w"
    and rcv: "receive c i ord j from js s = bind_io (dispatch c i answer) (\<lambda>_. return_io ()) s"
    and answer: "Message_VerifySignature E answer = Ok ()" "mType answer = QueryNameResponse"
      "ExtractQuery answer = \<lparr>qData = v, qReference = GetID E rec\<rparr>" and key: "mPublicKey answer = PublicKey (keypair_of k)"
    using forged_message [OF assms(1,3,5-9), of rnd rec i] by (elim exE conjE) (rule that)
  obtain s' where s': "dispatch c i answer s = (Ok (), s')" "ipfs_Resolve c i2 polls name s' = (Ok v, s')"
      "query_wait (GetID E rec) [(i_now i2, resolutionCache s')] = Ok answer"
    using resolution_answers [of c answer rec name i s i2 polls] answer assms(1,2,4,10-12) by auto
  have "receive c i ord j from js s = (Ok (), s')" using rcv s'(1) by (simp add: bind_io_def return_io_def)
  with msg s'(2,3) key show ?thesis by (intro exI [of _ answer] exI [of _ js] exI [of _ s']) simp
qed

text \<open>Two peers of one network and name space, which can sign what they publish.\<close>

definition two_peers :: "crypto_env \<Rightarrow> ecdsa_key \<Rightarrow> ecdsa_key \<Rightarrow> ('a, bus) ipfs_config \<Rightarrow> ('b, bus) ipfs_config \<Rightarrow> bool" where
  "two_peers E kA kB cA cB \<longleftrightarrow> ir_env cA = E \<and> ir_env cB = E \<and> ir_nameSpace cA = ir_nameSpace cB \<and> ir_peer cA \<noteq> ir_peer cB
     \<and> on_bus cA \<and> on_bus cB \<and> signer_ok E kA (ir_signerAddr cA) \<and> signer_ok E kB (ir_signerAddr cB)"

text \<open>
  One name asked across the network: \<open>B\<close> sends the query, the manager \<open>k\<close> of \<open>A\<close> takes it from the topic and the answer
  that it leaves to send is published, and \<open>B\<close> takes that answer.
\<close>

definition asked_across :: "('a, bus) ipfs_config \<Rightarrow> ('b, bus) ipfs_config \<Rightarrow> ((string \<times> unit) list \<Rightarrow> (string \<times> unit) list) \<Rightarrow>
    input \<Rightarrow> input \<Rightarrow> input \<Rightarrow> input \<Rightarrow> nat \<Rightarrow> Message \<Rightarrow> ('a, bus) ipfs \<Rightarrow> ('b, bus) ipfs \<Rightarrow> Message \<Rightarrow> ('b, bus) ipfs \<Rightarrow> bool" where
  "asked_across cA cB ord iB iA iA2 iB2 k rec sA sB answer sB2 \<longleftrightarrow>
     (\<exists>js sB1 sA1 js2. query_send cB iB rec sB = (Ok (Some (GetID (ir_env cB) rec)), sB1)
        \<and> net sB1 = net sB @ [(ir_nameSpace cB @ ''-'' @ mAddress rec, js)]
        \<and> receive cA iA ord k (ir_peer cB) js sA = (Ok (), sA1) \<and> sending sA1 = sending sA @ [answer]
        \<and> net (snd (sendResolution cA iA2 answer (sA1\<lparr>sending := sending sA\<rparr>)))
            = net sA1 @ [(ir_nameSpace cA @ ''-'' @ mAddress rec, js2)]
        \<and> receive cB iB2 ord (length (managers sB)) (ir_peer cA) js2 sB1 = (Ok (), sB2))"

lemma exchange_resolves:
  fixes cA :: "('a, bus) ipfs_config" and cB :: "('b, bus) ipfs_config"
  assumes peers: "two_peers E kA kB cA cB" and ord: "\<And>z. ord [z] = [z]"
    and times: "utf8_valid (i_ts iB)" "utf8_valid (i_ts iA)" "utf8_valid (i_ts iA2)" "0 < i_now iB" "0 < i_now iB2"
    and name: "getQueryNameRequestFromName E name = Ok rec" "utf8_valid name" "utf8_valid v"
    and asker: "cache_Get (i_now iB) (mAddress rec) (resourceCache sB) = Ok None"
      "cache_Get (i_now iB2) (GetID E rec) (resolutionCache sB) = Ok None"
      "alive (i_now iB2) (defaultTTL (resolutionCache sB)) (i_now iB3)" "defaultTTL (resourceCache sB) = 0"
    and answerer: "signer_ok E k addr" "mAddress rec = Addr addr" "res_addr res = addr"
      "\<And>i. i \<in> {iA, iA2} \<Longrightarrow> cache_Get (i_now i) (Addr addr) (resourceCache sA) = Ok (Some res)"
      "managers sA ! res_evm res = manager_of cA u1 u2 addr"
      "ir_bResolve cA (i_now iA) name (backend sA) = Ok v"
  shows "\<exists>answer sB2. asked_across cA cB ord iB iA iA2 iB2 (res_evm res) rec sA sB answer sB2
    \<and> query_wait (GetID E rec) [(i_now iB3, resolutionCache sB2)] = Ok answer
    \<and> ipfs_Resolve cB iB3 polls name sB2 = (Ok v, sB2)"
proof -
  have env: "ir_env cA = E" "ir_env cB = E" "ir_nameSpace cA = ir_nameSpace cB" "ir_peer cA \<noteq> ir_peer cB"
    and bus: "on_bus cA" "on_bus cB" and signers: "signer_ok E kA (ir_signerAddr cA)" "signer_ok E kB (ir_signerAddr cB)"
    using peers by (simp_all add: two_peers_def)
  have a: "utf8_valid (mAddress rec)" using answerer(1,2) by (simp add: signer_ok_def)
  note q = request_of_name(1,2) [OF name(1)]
  obtain js sB1 rB where send: "query_send cB iB rec sB = (Ok (Some (GetID E rec)), sB1)"
      "net sB1 = net sB @ [(ir_nameSpace cB @ ''-'' @ mAddress rec, js)]"
    and sB1: "managers sB1 = managers sB @ [manager_of cB (i_uuid1 iB) (i_uuid2 iB) \<lparr>Keys = None, Addr = mAddress rec\<rparr>]"
      "resolutionCache sB1 = resolutionCache sB"
    and rB: "cache_Add (i_now iB) (mAddress rec) rB (resourceCache sB) = (Ok (), resourceCache sB1)"
      "res_addr rB = \<lparr>Keys = None, Addr = mAddress rec\<rparr>"
    and rcvA: "receive cA iA ord (res_evm res) (ir_peer cB) js sA = bind_io (dispatch cA iA rec) (\<lambda>_. return_io ()) sA"
    using query_published [OF bus(2), of kB iB name rec sB] env signers times name a asker(1) answerer(5) ord
    by (auto 0 3 simp: manager_of_sel)
  obtain answer where ans: "dispatch cA iA rec sA = (Ok (), sA\<lparr>pending := (pending sA)(GetID E rec := True), sending := sending sA @ [answer]\<rparr>)"
      "Message_VerifySignature E answer = Ok ()" "message_ok QueryType answer" "mType answer = QueryNameResponse"
      "mAddress answer = mAddress rec" "ExtractQuery answer = \<lparr>qData = v, qReference = GetID E rec\<rparr>"
    using query_answered [OF q(1) a, of iA sA res cA k v] answerer env q(2) name times by auto
  let ?sA1 = "sA\<lparr>pending := (pending sA)(GetID E rec := True), sending := sending sA @ [answer]\<rparr>"
  have recA: "receive cA iA ord (res_evm res) (ir_peer cB) js sA = (Ok (), ?sA1)"
    using rcvA ans(1) by (simp add: bind_io_def return_io_def)
  let ?sA2 = "?sA1\<lparr>sending := sending sA\<rparr>"
  obtain js2 where sent: "sendResolution cA iA2 answer ?sA2 = (Ok (), ?sA2\<lparr>pending := (pending ?sA2)(qReference (ExtractQuery answer) := False),
        net := net sA @ [(ir_nameSpace cA @ ''-'' @ Addr addr, js2)]\<rparr>)"
    and rcvB: "receive cB iB2 ord (length (managers sB)) (ir_peer cA) js2 sB1 = bind_io (dispatch cB iB2 answer) (\<lambda>_. return_io ()) sB1"
    using answer_published [OF bus(1), of kA iA2 answer ?sA2 res u1 u2 addr] env signers times ans(3,5,6) answerer sB1(1) ord
    by (auto 0 3 simp: manager_of_sel)
  have "cache_Get (i_now iB3) (mAddress rec) (resourceCache sB1) = Ok (Some rB)"
    using rB(1) asker(4) memory_cache.get_forever [OF times(4)] by (simp add: cache_Add_def)
  then have "\<not> isManaged (i_now iB3) rec sB1" using rB(2) by (simp add: isManaged_def HasKeys_def)
  then obtain sB2 where B: "dispatch cB iB2 answer sB1 = (Ok (), sB2)"
      "ipfs_Resolve cB iB3 polls name sB2 = (Ok v, sB2)"
      "query_wait (GetID E rec) [(i_now iB3, resolutionCache sB2)] = Ok answer"
    using resolution_answers [of cB answer rec name iB2 sB1 iB3 polls] ans(2,4,6) env(2) name(1) asker(2,3) times(5) sB1(2)
    by auto
  have "receive cB iB2 ord (length (managers sB)) (ir_peer cA) js2 sB1 = (Ok (), sB2)"
    using rcvB B(1) by (simp add: bind_io_def return_io_def)
  with send recA sent answerer(2) env(2) have "asked_across cA cB ord iB iA iA2 iB2 (res_evm res) rec sA sB answer sB2"
    unfolding asked_across_def
    by (intro exI [of _ js] exI [of _ sB1] exI [of _ ?sA1] exI [of _ js2]) simp
  with B(2,3) show ?thesis by blast
qed

section \<open>Properties\<close>

text \<open>
  C4: a name is resolved across the network.  A resolver that does not manage the address of a name
  publishes its query on the topic of the address; a resolver that manages the address and whose backend
  knows the name takes the query from the topic, signs the value with the key of the address, and
  publishes the answer on the same topic; and the first resolver, taking the answer from the topic, ends
  its waiting with that answer, and resolves the name to the backend's value from then on while
  the answer is cached.
\<close>

theorem resolve_across_network:
  fixes cA :: "('a, bus) ipfs_config" and cB :: "('b, bus) ipfs_config"
  assumes peers: "two_peers E kA kB cA cB" and ord: "\<And>z. ord [z] = [z]"
    and times: "utf8_valid (i_ts iB)" "utf8_valid (i_ts iA)" "utf8_valid (i_ts iA2)" "0 < i_now iB" "0 < i_now iB2"
    and name: "getQueryNameRequestFromName E name = Ok rec" "utf8_valid name" "utf8_valid v"
    and asker: "cache_Get (i_now iB) (mAddress rec) (resourceCache sB) = Ok None"
      "cache_Get (i_now iB2) (GetID E rec) (resolutionCache sB) = Ok None"
      "alive (i_now iB2) (defaultTTL (resolutionCache sB)) (i_now iB3)" "defaultTTL (resourceCache sB) = 0"
    and answerer: "signer_ok E k addr" "mAddress rec = Addr addr" "res_addr res = addr"
      "\<And>i. i \<in> {iA, iA2} \<Longrightarrow> cache_Get (i_now i) (Addr addr) (resourceCache sA) = Ok (Some res)"
      "managers sA ! res_evm res = manager_of cA u1 u2 addr"
      "ir_bResolve cA (i_now iA) name (backend sA) = Ok v"
  shows "\<exists>answer sB2. asked_across cA cB ord iB iA iA2 iB2 (res_evm res) rec sA sB answer sB2
    \<and> query_wait (GetID E rec) [(i_now iB3, resolutionCache sB2)] = Ok answer
    \<and> ipfs_Resolve cB iB3 polls name sB2 = (Ok v, sB2)"
  using exchange_resolves [OF assms] .

text \<open>
  Any key resolves any name.  A resolver that does not manage the address of a name takes from the
  topic an answer that is signed with the key of anyone: after it, the name resolves to the value of that
  answer, although the key is not the one of the name's address.
\<close>

theorem any_key_resolves:
  fixes c :: "('b, bus) ipfs_config"
  assumes "ir_env c = E" and "getQueryNameRequestFromName E name = Ok rec" and "utf8_valid v" and "0 < i_now i"
    and "signer_ok E k (mgr_signer m)" and "utf8_valid ts" and "from \<noteq> mgr_id (managers s ! j)" and "\<And>z. ord [z] = [z]"
    and "mgr_subs (managers s ! j) QueryNameResponse = Some [x]"
    and "cache_Get (i_now i) (GetID E rec) (resolutionCache s) = Ok None"
    and "alive (i_now i) (defaultTTL (resolutionCache s)) (i_now i2)" and "\<not> isManaged (i_now i2) rec s"
  shows "\<exists>answer js s'.
    SignWithKey E rnd k (Message_zero\<lparr>mTimestamp := ts, mType := QueryNameResponse,
      mPayload := Some (QueryPayload \<lparr>qData = v, qReference = GetID E rec\<rparr>)\<rparr>) = (Ok (), answer)
    \<and> (\<forall>publish (w :: bus). Emit E publish rnd ts QueryNameResponse
         (bytes_of (render (JObj (message_fields answer)))) m w = publish (getTopicName m) js w)
    \<and> receive c i ord j from js s = (Ok (), s') \<and> ipfs_Resolve c i2 polls name s' = (Ok v, s')
    \<and> mPublicKey answer = PublicKey (keypair_of k)"
  using forged_resolution [OF assms, of rnd polls] by blast

text \<open>
  C12: the cached resolutions are signed.  In every reachable state of the resolver, whatever the network
  sends, every message in the cache of resolutions has a valid signature under its own public key
  and is stored under its own reference; and a step replaces a cached message only when it
  has expired or is older than the new one, and never removes one.
\<close>

theorem cached_resolutions_signed:
  assumes "ipfs_reachable c s" and "ipfs_step c i s s'" and "cdata (resolutionCache s') key = Some r'"
  shows "Message_VerifySignature (ir_env c) (cvalue r') = Ok ()
    \<and> qReference (ExtractQuery (cvalue r')) = key
    \<and> (\<forall>r. cdata (resolutionCache s) key = Some r \<longrightarrow>
         r' = r \<or> IsExpired (i_now i) r \<or> Older (cvalue r) (cvalue r'))"
proof -
  note ev = step_evolves [OF assms(2)]
  have "resolutions_signed (ir_env c) (resolutionCache s')"
    by (rule evolves_signed [OF ev reachable_signed [OF assms(1)]])
  then have "Message_VerifySignature (ir_env c) (cvalue r') = Ok ()" "qReference (ExtractQuery (cvalue r')) = key"
    using assms(3) unfolding resolutions_signed_def by blast+
  then show ?thesis
    using ev [unfolded cache_evolves_def, THEN conjunct1, rule_format, OF assms(3)] by auto
qed

text \<open>
  C24: only managed addresses are answered for.  A query adds at most one message to those that wait to be sent;
  if it adds one, the address of the query is managed with a key pair, the message is signed with
  that key pair, and it carries what the backend resolves the queried name to, with the query's
  identifier.
\<close>

theorem answers_are_managed:
  assumes "handleQuery c i msg s = (r, s')"
  shows "sending s' = sending s
    \<or> (\<exists>res keys v answer. cache_Get (i_now i) (mAddress msg) (resourceCache s) = Ok (Some res)
        \<and> HasKeys (res_addr res) \<and> Keys (res_addr res) = Some keys
        \<and> ir_bResolve c (i_now i) (qData (ExtractQuery msg)) (backend s) = Ok v
        \<and> sending s' = sending s @ [answer] \<and> mAddress answer = mAddress msg
        \<and> ExtractQuery answer = \<lparr>qData = v, qReference = GetID (ir_env c) msg\<rparr>
        \<and> mPublicKey answer = HexEncode (pair_bytes (keyX (ToEcdsaPrivateKey keys)) (keyY (ToEcdsaPrivateKey keys)))
        \<and> Message_VerifySignature (ir_env c) answer = Ok ())"
proof (cases "sending s' = sending s")
  case False
  let ?s1 = "addPendingQuery c msg s"
  have s1: "sending ?s1 = sending s" "resourceCache ?s1 = resourceCache s" "backend ?s1 = backend s"
    by (simp_all add: addPendingQuery_def)
  obtain v where v: "ir_bResolve c (i_now i) (qData (ExtractQuery msg)) (backend s) = Ok v"
    using assms False s1 by (auto simp: handleQuery_def Let_def split: result.splits)
  obtain r2 s2 where sub: "ipfs_subscribe c i \<lparr>Keys = None, Addr = mAddress msg\<rparr> ?s1 = (r2, s2)" by fastforce
  have s2: "sending s2 = sending s" using ipfs_subscribe_frame(3) [OF sub] s1 by simp
  obtain res where r2: "r2 = Ok res" and keys: "HasKeys (res_addr res)"
    using assms False v sub s1 s2 by (cases r2) (auto simp: handleQuery_def ipfs_Subscribe_def Let_def split: if_splits)
  obtain kp where kp: "Keys (res_addr res) = Some kp" using keys by (auto simp: HasKeys_def split: option.splits)
  obtain u answer where sign: "SignWithKey (ir_env c) (i_rnd i) (ToEcdsaPrivateKey kp) (resolution_message (ir_env c) i msg v) = (Ok u, answer)"
    and verify: "Message_VerifySignature (ir_env c) answer = Ok ()" and s': "sending s' = sending s2 @ [answer]"
    using assms False v sub s1 s2 r2 keys kp
    by (auto simp: handleQuery_def ipfs_Subscribe_def Let_def split: prod.splits result.splits)
  have "cache_Get (i_now i) (mAddress msg) (resourceCache s) = Ok (Some res)"
    using sub r2 keys s1
    by (auto simp: ipfs_subscribe_def HasKeys_def Let_def split: result.splits option.splits prod.splits)
  moreover have "mAddress answer = mAddress msg" "ExtractQuery answer = \<lparr>qData = v, qReference = GetID (ir_env c) msg\<rparr>"
      "mPublicKey answer = HexEncode (pair_bytes (keyX (ToEcdsaPrivateKey kp)) (keyY (ToEcdsaPrivateKey kp)))"
    using sign by (auto simp: SignWithKey_Ok Let_def resolution_message_def ExtractQuery_def)
  ultimately show ?thesis using v verify s' s2 keys kp by auto
qed simp

text \<open>
  A query is answered once.  After an answer to a query has been taken from the network, or one has been
  sent, sending another answer to the same query publishes nothing, until the query comes in again.
\<close>

theorem query_answered_once:
  assumes "sendResolution c i msg s = (r, s1) \<or> (handleResolution c i msg s = (r, s1) \<and> Message_VerifySignature (ir_env c) msg = Ok ())"
    and "qReference (ExtractQuery msg') = qReference (ExtractQuery msg)"
  shows "sendResolution c i' msg' s1 = (Ok (), s1)"
proof -
  have "\<not> pending s1 (qReference (ExtractQuery msg))"
    using assms(1)
  proof
    assume "sendResolution c i msg s = (r, s1)"
    then show ?thesis
      by (auto simp: sendResolution_def canSendResolution_def Message_ToJson_def ipfs_Subscribe_def Let_def
          split: prod.splits if_splits result.splits dest!: frame_bundle)
  next
    assume "handleResolution c i msg s = (r, s1) \<and> Message_VerifySignature (ir_env c) msg = Ok ()"
    then show ?thesis
      by (auto simp: handleResolution_def removePendingQuery_def Let_def cache_Get_def split: option.splits result.splits if_splits)
  qed
  then show ?thesis using assms(2) by (simp add: sendResolution_def canSendResolution_def Message_ToJson_def)
qed

text \<open>
  C34: a resolver that has asked about an address cannot manage it.  Once there is a resource without keys for the
  address, as every query and every subscription leaves one, \<open>Manage\<close> returns no error but changes
  nothing, and \<open>Add\<close> of a name of the address keeps failing with \<open>ErrUnmanagedAddress\<close>.
\<close>

theorem manage_after_subscribe:
  assumes "ipfs_Subscribe c i (Addr addr) s = (Ok res0, s1)" and "cache_Get (i_now i) (Addr addr) (resourceCache s) = Ok None"
    and "defaultTTL (resourceCache s) = 0" and "0 < i_now i"
    and "Keys addr = Some keys" and "PrivateKey keys \<noteq> ''''"
    and "getQueryNameRequestFromName (ir_env c) name = Ok rec" and "mAddress rec = Addr addr"
  shows "ipfs_Manage c i2 addr s1 = (Ok (), s1) \<and> ipfs_Add c i3 name v s1 = (Err ErrUnmanagedAddress, s1)"
proof -
  obtain res where "cache_Add (i_now i) (Addr addr) res (resourceCache s) = (Ok (), resourceCache s1)"
    and res: "Keys (res_addr res) = None"
    using assms(1,2)
    by (auto simp: ipfs_Subscribe_def ipfs_subscribe_def Let_def cache_Add_def AddWithTTL_def
        split: result.splits prod.splits)
  then have get: "cache_Get now (Addr addr) (resourceCache s1) = Ok (Some res)" for now
    using assms(3) memory_cache.get_forever [OF assms(4)] by (simp add: cache_Add_def)
  have "ipfs_Manage c i2 addr s1 = (Ok (), s1)"
    using assms(5,6) subscribe_cached [OF get] by (simp add: ipfs_Manage_def bind_io_def return_io_def)
  moreover have "\<not> isManaged (i_now i3) rec s1" using get res assms(8) by (simp add: isManaged_def HasKeys_def)
  ultimately show ?thesis using assms(7) by (simp add: ipfs_Add_def)
qed

text \<open>
  A query that cannot be sent resolves to nothing.  When the event of a query cannot be emitted,
  \<open>Resolve\<close> returns the empty value and no error.
\<close>

theorem lost_query_resolves_empty:
  assumes "getQueryNameRequestFromName (ir_env c) name = Ok rec" and "\<not> isManaged (i_now i) rec s"
    and "cache_Get (i_now i) (GetID (ir_env c) rec) (resolutionCache s) = Ok None"
    and "ipfs_Subscribe c i (mAddress rec) s = (Ok res, s1)"
    and "Emit (ir_env c) (ir_publish c) (i_rnd i) (i_ts i) QueryNameRequest
      (bytes_of (render (JObj (message_fields rec)))) (managers s1 ! res_evm res) (net s1) = (Err er, n)"
  shows "ipfs_Resolve c i polls name s = (Ok '''', s1\<lparr>net := n\<rparr>)"
proof -
  have "Message_ToJson rec = Ok (render (JObj (message_fields rec)))" by (simp only: Message_ToJson_def)
  then have "query c i polls rec s = (Ok Message_zero, s1\<lparr>net := n\<rparr>)"
    using assms(4,5) by (simp add: query_def query_send_def evm_Emit_def bind_io_def read_io_def return_io_def del: render.simps)
  then show ?thesis
    using assms(1-3) by (simp add: ipfs_Resolve_def getFromCache_def bind_io_def return_io_def ExtractQuery_def Message_zero_def)
qed

end
