(* ===== verification/IpfsSample.thy ===== *)
theory IpfsSample
  imports IpfsProps DagSpec
begin

text \<open>
  Two resolvers on one network, on which the properties of the resolver are exercised: \<open>A\<close> manages the
  address of the sample key and has a name of it, \<open>B\<close> does not.
\<close>

section \<open>The resolvers\<close>

definition sample_config :: "string \<Rightarrow> (string memoryCache, bus) ipfs_config" where
  "sample_config peer = \<lparr>ir_env = sample_env, ir_peer = peer, ir_nameSpace = ''ns'',
     ir_publish = (\<lambda>t d n. (Ok (), n @ [(t, d)])), ir_topic = (\<lambda>t n. (Ok (), n)),
     ir_signerAddr = \<lparr>Keys = Some (keypair_of other_key), Addr = peer\<rparr>,
     ir_bAdd = memory_Add, ir_bResolve = memory_Resolve\<rparr>"

definition sample_input :: "time \<Rightarrow> input" where
  "sample_input t = \<lparr>i_now = t, i_ts = ''2024-02-29T23:59:59Z'', i_rnd = [], i_uuid1 = ''1'', i_uuid2 = ''2''\<rparr>"

lemma sample_config_sel [simp]:
  "ir_env (sample_config p) = sample_env" "ir_peer (sample_config p) = p" "ir_nameSpace (sample_config p) = ''ns''"
  "ir_topic (sample_config p) = (\<lambda>t n. (Ok (), n))" "on_bus (sample_config p)"
  "ir_bAdd (sample_config p) = memory_Add" "ir_bResolve (sample_config p) = memory_Resolve"
  by (simp_all add: sample_config_def on_bus_def)

lemma sample_input_sel [simp]: "i_now (sample_input t) = t" "utf8_valid (i_ts (sample_input t))"
  by (simp_all add: sample_input_def)

lemma sample_signer_ok:
  assumes "k = sample_key \<or> k = other_key" and "utf8_valid a"
  shows "signer_ok sample_env k \<lparr>Keys = Some (keypair_of k), Addr = a\<rparr>"
proof -
  have "\<exists>rs. ecdsa_sign sample_env rnd k digest = Ok rs" for rnd digest by (simp add: sample_env_def)
  moreover have "keyD k \<noteq> 0" using assms(1) by (auto simp: sample_key_def other_key_def)
  ultimately show ?thesis
    using assms sample_signs [of k] sample_fits other_fits by (auto simp: signer_ok_def is_ok_iff)
qed

lemma sample_config_signer: "utf8_valid p \<Longrightarrow> signer_ok sample_env other_key (ir_signerAddr (sample_config p))"
  using sample_signer_ok [of other_key p] by (simp add: sample_config_def)

lemma sample_address_utf8: "utf8_valid (Addr sample_address)"
  by (rule utf8_ascii [OF owner_address(5) [OF sample_sizes sample_address]])

lemma sample_address_signer: "signer_ok sample_env sample_key sample_address"
  using sample_signer_ok [OF _ sample_address_utf8, of sample_key] owner_address(1) [OF sample_sizes sample_address]
  by (simp add: signer_ok_def)

text \<open>A name of the address, and the request for it.\<close>

definition sample_name :: string where
  "sample_name = ''/'' @ Addr sample_address @ ''/x''"

lemma sample_request:
  obtains rec where "getQueryNameRequestFromName sample_env sample_name = Ok rec" and "mAddress rec = Addr sample_address"
  using getQueryNameRequest_address [OF owner_address(2,3) [OF sample_sizes sample_address], of "''x''"]
  by (auto simp: sample_name_def)

lemma utf8_valid_ascii_append: "list_all (\<lambda>c. code c < 128) s \<Longrightarrow> utf8_valid t \<Longrightarrow> utf8_valid (s @ t)"
  by (induction s) auto

lemma sample_name_utf8: "utf8_valid sample_name"
  unfolding sample_name_def
  using utf8_valid_ascii_append [OF owner_address(5) [OF sample_sizes sample_address], of "''/x''"] by simp

text \<open>\<open>A\<close> after it manages the address and adds the name, and \<open>B\<close> at its start.\<close>

definition state_B :: "(string memoryCache, bus) ipfs" where
  "state_B = ipfs_init NewMemoryBackend []"

definition state_A0 :: "(string memoryCache, bus) ipfs" where
  "state_A0 = snd (ipfs_Manage (sample_config ''A'') (sample_input 1) sample_address state_B)"

definition state_A :: "(string memoryCache, bus) ipfs" where
  "state_A = snd (ipfs_Add (sample_config ''A'') (sample_input 2) sample_name ''v'' state_A0)"

lemma state_B_empty:
  "cache_Get t key (resourceCache state_B) = Ok None" "cache_Get t key (resolutionCache state_B) = Ok None"
  "defaultTTL (resourceCache state_B) = 0" "defaultTTL (resolutionCache state_B) = 10000000000"
  "managers state_B = []" "backend state_B = NewMemoryBackend" "net state_B = []" "\<not> isManaged t rec state_B"
  by (simp_all add: state_B_def ipfs_init_def NewMemoryCache_def cache_Get_def isManaged_def)

lemma state_A0_manages:
  "\<exists>res. (\<forall>t. cache_Get t (Addr sample_address) (resourceCache state_A0) = Ok (Some res))
     \<and> res_addr res = sample_address \<and> res_evm res = 0 \<and> backend state_A0 = NewMemoryBackend
     \<and> managers state_A0 = [manager_of (sample_config ''A'') ''1'' ''2'' sample_address]"
proof -
  obtain keys where keys: "Keys sample_address = Some keys" "PrivateKey keys \<noteq> ''''"
    using owner_address(1) [OF sample_sizes sample_address] sample_key_text by simp
  obtain res rc where sub: "ipfs_subscribe (sample_config ''A'') (sample_input 1) sample_address state_B
      = (Ok res, state_B\<lparr>managers := [manager_of (sample_config ''A'') ''1'' ''2'' sample_address], resourceCache := rc\<rparr>)"
      "res_addr res = sample_address" "res_evm res = 0"
      "cache_Add 1 (Addr sample_address) res (resourceCache state_B) = (Ok (), rc)"
    using subscribe_new [of "sample_config ''A''" "sample_input 1" sample_address state_B] state_B_empty
    by (auto simp: sample_input_def)
  have "cache_Get t (Addr sample_address) rc = Ok (Some res)" for t
    using sub(4) memory_cache.get_forever [of 1 "Addr sample_address" res] by (simp add: cache_Add_def state_B_empty)
  then show ?thesis
    using sub keys by (intro exI [of _ res]) (simp add: state_A0_def ipfs_Manage_def bind_io_def return_io_def state_B_empty)
qed

lemma state_A_ready:
  "\<exists>res. (\<forall>t. cache_Get t (Addr sample_address) (resourceCache state_A) = Ok (Some res))
     \<and> res_addr res = sample_address \<and> managers state_A ! res_evm res = manager_of (sample_config ''A'') ''1'' ''2'' sample_address
     \<and> (\<forall>t. memory_Resolve t sample_name (backend state_A) = Ok ''v'')"
proof -
  obtain res where A0: "\<And>t. cache_Get t (Addr sample_address) (resourceCache state_A0) = Ok (Some res)"
    "res_addr res = sample_address" "res_evm res = 0" "backend state_A0 = NewMemoryBackend"
    "managers state_A0 = [manager_of (sample_config ''A'') ''1'' ''2'' sample_address]"
    using state_A0_manages by blast
  obtain rec where rec: "getQueryNameRequestFromName sample_env sample_name = Ok rec" "mAddress rec = Addr sample_address"
    by (rule sample_request)
  have "HasKeys sample_address"
    using HasKeys_pair [of sample_address sample_key] sample_address_signer by (simp add: signer_ok_def)
  then have "isManaged 2 rec state_A0" using A0(1,2) rec(2) by (simp add: isManaged_def)
  then have A: "state_A = state_A0\<lparr>backend := snd (memory_Add 2 sample_name ''v'' NewMemoryBackend)\<rparr>"
    using rec(1) A0(4) by (simp add: state_A_def ipfs_Add_def split: prod.split)
  have "memory_Resolve t sample_name (snd (memory_Add 2 sample_name ''v'' NewMemoryBackend)) = Ok ''v''" for t
    by (simp add: memory_Resolve_def memory_Add_def cache_Add_def AddWithTTL_def NewMemoryBackend_def NewMemoryCache_def
        cache_Get_def IsExpired_def)
  then show ?thesis unfolding A using A0 by (intro exI [of _ res]) simp
qed

text \<open>These states are reached from the start of the resolvers.\<close>

lemma state_B_reachable: "ipfs_reachable c state_B"
  unfolding ipfs_reachable_def state_B_def by blast

lemma state_A0_reachable: "ipfs_reachable (sample_config ''A'') state_A0"
proof (rule ipfs_reachable_step [OF state_B_reachable do_manage])
  show "ipfs_Manage (sample_config ''A'') (sample_input 1) sample_address state_B
      = (fst (ipfs_Manage (sample_config ''A'') (sample_input 1) sample_address state_B), state_A0)"
    by (simp add: state_A0_def)
qed

lemma state_A_reachable: "ipfs_reachable (sample_config ''A'') state_A"
proof (rule ipfs_reachable_step [OF state_A0_reachable do_add])
  show "ipfs_Add (sample_config ''A'') (sample_input 2) sample_name ''v'' state_A0
      = (fst (ipfs_Add (sample_config ''A'') (sample_input 2) sample_name ''v'' state_A0), state_A)"
    by (simp add: state_A_def)
qed

section \<open>Witnesses\<close>

lemma sample_peers: "two_peers sample_env other_key other_key (sample_config ''A'') (sample_config ''B'')"
  using sample_config_signer [of "''A''"] sample_config_signer [of "''B''"] by (simp add: two_peers_def)

theorem resolve_across_network_witness:
  "\<exists>sB. ipfs_Resolve (sample_config ''B'') (sample_input 8) [] sample_name sB = (Ok ''v'', sB)"
proof -
  obtain rec where rec: "getQueryNameRequestFromName sample_env sample_name = Ok rec" "mAddress rec = Addr sample_address"
    by (rule sample_request)
  obtain res where A: "\<And>t. cache_Get t (Addr sample_address) (resourceCache state_A) = Ok (Some res)"
    "res_addr res = sample_address" "managers state_A ! res_evm res = manager_of (sample_config ''A'') ''1'' ''2'' sample_address"
    "\<And>t. memory_Resolve t sample_name (backend state_A) = Ok ''v''"
    using state_A_ready by blast
  show ?thesis
    using resolve_across_network [OF sample_peers, of "\<lambda>xs. xs" "sample_input 3" "sample_input 4" "sample_input 5" "sample_input 6"
        sample_name rec "''v''" state_B "sample_input 8" sample_key sample_address res state_A "''1''" "''2''" "[]"]
      rec A sample_name_utf8 sample_address_signer
    by (auto simp: state_B_empty alive_def)
qed

text \<open>\<open>B\<close> with a resource for the address, and an answer signed with the other key.\<close>

definition state_B1 :: "(string memoryCache, bus) ipfs" where
  "state_B1 = snd (ipfs_Subscribe (sample_config ''B'') (sample_input 1) (Addr sample_address) state_B)"

lemma state_B1_ready:
  "\<exists>res. ipfs_Subscribe (sample_config ''B'') (sample_input 1) (Addr sample_address) state_B = (Ok res, state_B1)
     \<and> managers state_B1 = [manager_of (sample_config ''B'') ''1'' ''2'' \<lparr>Keys = None, Addr = Addr sample_address\<rparr>]
     \<and> resolutionCache state_B1 = resolutionCache state_B \<and> res_evm res = 0 \<and> net state_B1 = []
     \<and> (\<forall>t. cache_Get t (Addr sample_address) (resourceCache state_B1) = Ok (Some res)) \<and> \<not> HasKeys (res_addr res)"
proof -
  let ?a = "\<lparr>Keys = None, Addr = Addr sample_address\<rparr>"
  obtain res rc where sub: "ipfs_subscribe (sample_config ''B'') (sample_input 1) ?a state_B
      = (Ok res, state_B\<lparr>managers := [manager_of (sample_config ''B'') ''1'' ''2'' ?a], resourceCache := rc\<rparr>)"
      "res_addr res = ?a" "res_evm res = 0" "cache_Add 1 (Addr ?a) res (resourceCache state_B) = (Ok (), rc)"
    using subscribe_new [of "sample_config ''B''" "sample_input 1" ?a state_B] state_B_empty
    by (auto simp: sample_input_def)
  have "cache_Get t (Addr sample_address) rc = Ok (Some res)" for t
    using sub(4) memory_cache.get_forever [of 1 "Addr sample_address" res] by (simp add: cache_Add_def state_B_empty)
  then show ?thesis
    using sub by (intro exI [of _ res]) (simp add: state_B1_def ipfs_Subscribe_def state_B_empty HasKeys_def)
qed

lemma state_B1_unmanaged: "mAddress rec = Addr sample_address \<Longrightarrow> \<not> isManaged t rec state_B1"
  using state_B1_ready by (auto simp: isManaged_def)

definition attacker :: "unit manager" where
  "attacker = manager_of (sample_config ''C'') ''3'' ''4'' \<lparr>Keys = None, Addr = Addr sample_address\<rparr>"

theorem any_key_resolves_witness:
  "\<exists>js (answer :: Message) s'. receive (sample_config ''B'') (sample_input 2) (\<lambda>xs. xs) 0 ''C'' js state_B1 = (Ok (), s')
     \<and> ipfs_Resolve (sample_config ''B'') (sample_input 3) [] sample_name s' = (Ok ''forged'', s')
     \<and> mPublicKey answer = PublicKey (keypair_of other_key)
     \<and> MatchesPubKey sample_env (Addr sample_address) (mPublicKey answer) \<noteq> Ok True"
proof -
  obtain rec where rec: "getQueryNameRequestFromName sample_env sample_name = Ok rec" "mAddress rec = Addr sample_address"
    by (rule sample_request)
  obtain res where B: "managers state_B1 = [manager_of (sample_config ''B'') ''1'' ''2'' \<lparr>Keys = None, Addr = Addr sample_address\<rparr>]"
    "resolutionCache state_B1 = resolutionCache state_B"
    using state_B1_ready by blast
  have "signer_ok sample_env other_key (mgr_signer attacker)"
    using sample_config_signer [of "''C''"] by (simp add: attacker_def)
  from any_key_resolves [of "sample_config ''B''" sample_env sample_name rec "''forged''" "sample_input 2" other_key attacker
      "''2024-02-29T23:59:59Z''" "''C''" state_B1 0 "\<lambda>xs. xs" "(''1'', ())" "sample_input 3" "[]" "[]", OF _ rec(1) _ _ this]
    B state_B1_unmanaged [OF rec(2)]
  have "\<exists>(answer :: Message) js s'. receive (sample_config ''B'') (sample_input 2) (\<lambda>xs. xs) 0 ''C'' js state_B1 = (Ok (), s')
      \<and> ipfs_Resolve (sample_config ''B'') (sample_input 3) [] sample_name s' = (Ok ''forged'', s')
      \<and> mPublicKey answer = PublicKey (keypair_of other_key)"
    by (simp add: state_B_empty alive_def) (elim exE conjE, intro exI conjI, assumption+)
  then obtain js and answer :: Message and s' where run: "receive (sample_config ''B'') (sample_input 2) (\<lambda>xs. xs) 0 ''C'' js state_B1 = (Ok (), s')"
      "ipfs_Resolve (sample_config ''B'') (sample_input 3) [] sample_name s' = (Ok ''forged'', s')"
      "mPublicKey answer = PublicKey (keypair_of other_key)"
    by blast
  obtain addr where addr: "NewAddressForKeys sample_env (keypair_of other_key) = Ok addr" "Addr addr \<noteq> Addr sample_address"
    by (rule other_address)
  have "MatchesPubKey sample_env (Addr addr) (PublicKey (keypair_of other_key)) = Ok True"
    by (rule owner_address(4) [OF sample_sizes addr(1)])
  then have "MatchesPubKey sample_env (Addr sample_address) (PublicKey (keypair_of other_key)) \<noteq> Ok True"
    using addr(2) by (auto simp: MatchesPubKey_True)
  with run show ?thesis by metis
qed

lemma state_B1_reachable: "ipfs_reachable (sample_config ''B'') state_B1"
proof -
  obtain r where "ipfs_Subscribe (sample_config ''B'') (sample_input 1) (Addr sample_address) state_B = (r, state_B1)"
    using state_B1_ready by blast
  then show ?thesis by (intro ipfs_reachable_step [OF state_B_reachable do_subscribe])
qed

lemma getFromCache_record: "getFromCache t key rc = Ok m \<Longrightarrow> \<exists>r. cdata rc key = Some r \<and> cvalue r = m"
  by (auto simp: getFromCache_def cache_Get_def split: option.splits if_splits)

theorem cached_resolutions_signed_witness:
  "\<exists>s' key r'. ipfs_step (sample_config ''B'') (sample_input 2) state_B1 s'
     \<and> cdata (resolutionCache s') key = Some r' \<and> Message_VerifySignature sample_env (cvalue r') = Ok ()"
proof -
  obtain rec where rec: "getQueryNameRequestFromName sample_env sample_name = Ok rec" "mAddress rec = Addr sample_address"
    by (rule sample_request)
  obtain res where B: "managers state_B1 = [manager_of (sample_config ''B'') ''1'' ''2'' \<lparr>Keys = None, Addr = Addr sample_address\<rparr>]"
    "resolutionCache state_B1 = resolutionCache state_B"
    using state_B1_ready by blast
  have "signer_ok sample_env other_key (mgr_signer attacker)"
    using sample_config_signer [of "''C''"] by (simp add: attacker_def)
  from forged_resolution [of "sample_config ''B''" sample_env sample_name rec "''forged''" "sample_input 2" other_key attacker
      "''2024-02-29T23:59:59Z''" "''C''" state_B1 0 "\<lambda>xs. xs" "(''1'', ())" "sample_input 3" "[]" "[]", OF _ rec(1) _ _ this]
    B state_B1_unmanaged [OF rec(2)]
  have "\<exists>(answer :: Message) js s'. receive (sample_config ''B'') (sample_input 2) (\<lambda>xs. xs) 0 ''C'' js state_B1 = (Ok (), s')
      \<and> query_wait (GetID sample_env rec) [(3, resolutionCache s')] = Ok answer"
    by (simp add: state_B_empty alive_def del: query_wait.simps) (elim exE conjE, intro exI conjI, assumption+)
  then obtain answer :: Message and js s' where run: "receive (sample_config ''B'') (sample_input 2) (\<lambda>xs. xs) 0 ''C'' js state_B1 = (Ok (), s')"
    and got: "query_wait (GetID sample_env rec) [(3, resolutionCache s')] = Ok answer" by blast
  have "getFromCache 3 (GetID sample_env rec) (resolutionCache s') = Ok answer"
    using got by (simp split: result.splits)
  then obtain r' where r': "cdata (resolutionCache s') (GetID sample_env rec) = Some r'" using getFromCache_record by blast
  have step: "ipfs_step (sample_config ''B'') (sample_input 2) state_B1 s'"
    by (rule do_receive [of 0, OF _ run]) (simp add: B)
  from cached_resolutions_signed [OF state_B1_reachable step r'] step r' show ?thesis by auto
qed

theorem answers_are_managed_witness:
  "\<exists>rec s' answer. handleQuery (sample_config ''A'') (sample_input 4) rec state_A = (Ok (), s')
     \<and> sending s' = sending state_A @ [answer] \<and> qData (ExtractQuery answer) = ''v''"
proof -
  obtain rec where rec: "getQueryNameRequestFromName sample_env sample_name = Ok rec" "mAddress rec = Addr sample_address"
    by (rule sample_request)
  note q = request_of_name(1,2) [OF rec(1)]
  obtain res where A: "\<And>t. cache_Get t (Addr sample_address) (resourceCache state_A) = Ok (Some res)"
    "res_addr res = sample_address" "\<And>t. memory_Resolve t sample_name (backend state_A) = Ok ''v''"
    using state_A_ready by blast
  let ?s = "\<lambda>a. state_A\<lparr>pending := (pending state_A)(GetID sample_env rec := True), sending := sending state_A @ [a]\<rparr>"
  obtain a where "dispatch (sample_config ''A'') (sample_input 4) rec state_A = (Ok (), ?s a)"
    using query_answered [of rec "sample_input 4" state_A res "sample_config ''A''" sample_key "''v''"]
      rec(2) q A sample_address_utf8 sample_address_signer by auto
  then have run: "handleQuery (sample_config ''A'') (sample_input 4) rec state_A = (Ok (), ?s a)"
    using q(1) by (simp add: dispatch_def)
  from answers_are_managed [OF run] obtain v answer where ans: "sending (?s a) = sending state_A @ [answer]"
      "ir_bResolve (sample_config ''A'') (i_now (sample_input 4)) (qData (ExtractQuery rec)) (backend state_A) = Ok v"
      "ExtractQuery answer = \<lparr>qData = v, qReference = GetID (ir_env (sample_config ''A'')) rec\<rparr>"
    by auto
  then have "qData (ExtractQuery answer) = ''v''" using A(3) q(2) by simp
  with run ans(1) show ?thesis by blast
qed

theorem query_answered_once_witness:
  "\<exists>msg s1. handleResolution (sample_config ''B'') (sample_input 2) msg state_B1 = (Ok (), s1)
     \<and> sendResolution (sample_config ''B'') (sample_input 3) msg s1 = (Ok (), s1)"
proof -
  obtain msg where sign: "SignWithKey sample_env [] sample_key Message_zero = (Ok (), msg)"
    by (rule signer_sign [OF sample_address_signer])
  have verify: "Message_VerifySignature sample_env msg = Ok ()"
    using SignWithKey_verifies [OF sample_signs sample_fits sign] by simp
  obtain r s1 where run: "handleResolution (sample_config ''B'') (sample_input 2) msg state_B1 = (r, s1)" by fastforce
  have "r = Ok ()"
    using run verify by (auto simp: handleResolution_def cache_Get_def Let_def split: option.splits if_splits)
  with query_answered_once [of "sample_config ''B''" "sample_input 2" msg state_B1 r s1 msg "sample_input 3"] run verify
  show ?thesis by auto
qed

theorem manage_after_subscribe_witness:
  "ipfs_Manage (sample_config ''B'') (sample_input 2) sample_address state_B1 = (Ok (), state_B1)
   \<and> ipfs_Add (sample_config ''B'') (sample_input 3) sample_name ''v'' state_B1 = (Err ErrUnmanagedAddress, state_B1)"
proof -
  obtain rec where rec: "getQueryNameRequestFromName sample_env sample_name = Ok rec" "mAddress rec = Addr sample_address"
    by (rule sample_request)
  obtain res where sub: "ipfs_Subscribe (sample_config ''B'') (sample_input 1) (Addr sample_address) state_B = (Ok res, state_B1)"
    using state_B1_ready by blast
  show ?thesis
    using manage_after_subscribe [OF sub _ _ _ owner_address(1) [OF sample_sizes sample_address] sample_key_text, of sample_name rec
        "sample_input 2" "sample_input 3" "''v''"] rec
    by (simp add: state_B_empty)
qed

text \<open>A network that refuses to publish.\<close>

definition mute_config :: "(string memoryCache, bus) ipfs_config" where
  "mute_config = sample_config ''B''\<lparr>ir_publish := (\<lambda>t d n. (Err (ErrBackend 0), n))\<rparr>"

theorem lost_query_resolves_empty_witness:
  "\<exists>s'. ipfs_Resolve mute_config (sample_input 1) [] sample_name state_B = (Ok '''', s')"
proof -
  obtain rec where rec: "getQueryNameRequestFromName sample_env sample_name = Ok rec" "mAddress rec = Addr sample_address"
    by (rule sample_request)
  let ?a = "\<lparr>Keys = None, Addr = mAddress rec\<rparr>"
  obtain res rc where sub: "ipfs_subscribe mute_config (sample_input 1) ?a state_B
      = (Ok res, state_B\<lparr>managers := [manager_of mute_config ''1'' ''2'' ?a], resourceCache := rc\<rparr>)" "res_evm res = 0"
    using subscribe_new [of mute_config "sample_input 1" ?a state_B] state_B_empty
    by (auto simp: sample_input_def mute_config_def)
  let ?data = "bytes_of (render (JObj (message_fields rec)))" and ?m = "manager_of mute_config ''1'' ''2'' ?a"
  have "signer_ok sample_env other_key (mgr_signer ?m)"
    using sample_config_signer [of "''B''"] by (simp add: mute_config_def)
  from Emit_publishes [OF this, of "i_ts (sample_input 1)" QueryNameRequest "i_rnd (sample_input 1)" ?data]
  obtain js where "\<And>publish (w :: bus). Emit sample_env publish (i_rnd (sample_input 1)) (i_ts (sample_input 1)) QueryNameRequest ?data ?m w
      = publish (getTopicName ?m) js w" by auto
  then have "Emit (ir_env mute_config) (ir_publish mute_config) (i_rnd (sample_input 1)) (i_ts (sample_input 1)) QueryNameRequest ?data ?m w
      = (Err (ErrBackend 0), w)" for w
    by (simp add: mute_config_def)
  with lost_query_resolves_empty [of mute_config sample_name rec "sample_input 1" state_B res _ "ErrBackend 0" _ "[]"] sub rec(1)
  show ?thesis by (auto simp: mute_config_def state_B_empty ipfs_Subscribe_def)
qed

end
