(* ===== verification/BackendSample.thy ===== *)
theory BackendSample
  imports IpfsBackends IpfsSample
begin

text \<open>
  The properties of the backends that need a valid name, at the name of the sample address.
\<close>

lemma sample_is_name [simp]: "is_name sample_env sample_name"
  using sample_request by (metis is_name_def is_ok.simps(1))

section \<open>The Bolt database\<close>

lemma memory_bolt_New:
  "NewBoltBackend memory_bolt Map.empty = (Ok (), [bytes_of namesBucket \<mapsto> Map.empty])"
  by (simp add: NewBoltBackend_def memory_bolt_def bind_io_def return_io_def)

lemmas memory_bolt_run = name_backend.run.simps [OF bolt_names [OF memory_bolt_laws]]
  name_backend.last_added.simps [OF bolt_names [OF memory_bolt_laws]]

theorem bolt_last_value_witness:
  "\<exists>rs d. name_backend.run (bolt_Add memory_bolt) [(sample_name, ''u''), ('''', ''x''), (sample_name, ''v'')]
      [bytes_of namesBucket \<mapsto> Map.empty] = (rs, d)
    \<and> bolt_Resolve sample_env memory_bolt sample_name d = Ok ''v''"
proof -
  let ?d = "[bytes_of namesBucket \<mapsto> Map.empty]" and ?xs = "[(sample_name, ''u''), ('''', ''x''), (sample_name, ''v'')]"
  obtain rs d where run: "name_backend.run (bolt_Add memory_bolt) ?xs ?d = (rs, d)" by fastforce
  have "sample_name \<noteq> ''''" by (simp add: sample_name_def)
  then have "name_backend.last_added sample_name rs = Some ''v''"
    using run by (auto simp: memory_bolt_run memory_bolt_Add)
  with bolt_last_value [OF memory_bolt_laws memory_bolt_New run sample_is_name] run show ?thesis by auto
qed

theorem bolt_without_bucket_witness:
  "\<exists>r d. bolt_Add memory_bolt sample_name ''v'' Map.empty = (r, d) \<and> r = Ok ()
    \<and> bolt_Resolve sample_env memory_bolt sample_name d = Ok ''''"
proof -
  have add: "bolt_Add memory_bolt sample_name ''v'' Map.empty = (Ok (), Map.empty)" by (simp add: memory_bolt_Add)
  have "\<not> bolt_ready memory_bolt (\<lambda>d. d) Map.empty" by (simp add: bolt_ready_def memory_bolt_def)
  from bolt_without_bucket [OF memory_bolt_laws this add sample_is_name] add show ?thesis by blast
qed

section \<open>The IPFS node\<close>

lemma sample_elements:
  "elements sample_name = [Addr sample_address, ''x'']" "elements (CHR ''/'' # Addr sample_address @ ''/'') = [Addr sample_address]"
  "path_Split sample_name = (CHR ''/'' # Addr sample_address @ ''/'', ''x'')"
proof -
  note slash = owner_address(2) [OF sample_sizes sample_address]
  have "IsValid sample_env '''' \<noteq> Ok (True, None)" by (simp add: IsValid_def)
  then have "Addr sample_address \<noteq> ''''"
    using owner_address(3) [OF sample_sizes sample_address] by auto
  then show "elements sample_name = [Addr sample_address, ''x'']"
      "elements (CHR ''/'' # Addr sample_address @ ''/'') = [Addr sample_address]"
    using parts_of_name [OF slash, of "''x''"] parts_of_name [OF slash, of "''''"]
    by (simp_all add: elements_def sample_name_def)
  show "path_Split sample_name = (CHR ''/'' # Addr sample_address @ ''/'', ''x'')"
    by (simp add: path_Split_def sample_name_def)
qed

text \<open>A file system in which the name has the value \<open>v\<close>, and room for \<open>n\<close> more files.\<close>

definition sample_fs :: "nat \<Rightarrow> memory_fs" where
  "sample_fs n = \<lparr>tree = [[Addr sample_address] \<mapsto> None, [Addr sample_address, ''x''] \<mapsto> Some ''v''],
     blocks = [''w'' \<mapsto> bytes_of ''w''], room = n\<rparr>"

lemma sample_fs_clear:
  "clear_name memory_node sample_name ''w'' (sample_fs n) = (Ok ''w'', (sample_fs n)\<lparr>tree := [[Addr sample_address] \<mapsto> None]\<rparr>)"
  by (auto simp: clear_name_def unlink_existing_def memory_node_def sample_elements sample_fs_def entry_at_def
      bind_io_def read_io_def return_io_def attempt_def map_error_io_def)

theorem ipfs_add_loses_name_witness:
  "\<exists>s s' t t' er. ipfs_backend_Resolve sample_env memory_node sample_name s = (Ok ''v'', t)
    \<and> ipfs_backend_Add memory_node sample_name ''w'' s = (Ok (), s')
    \<and> ipfs_backend_Resolve sample_env memory_node sample_name s' = (Err er, t')"
proof -
  let ?s = "sample_fs 0" and ?s1 = "(sample_fs 0)\<lparr>tree := [[Addr sample_address] \<mapsto> None]\<rparr>"
  have holds: "mfs_holds memory_node sample_name ''v'' ?s"
    by (simp add: mfs_holds_def memory_node_def sample_elements sample_fs_def entry_at_def)
  have put: "mfs_PutNode memory_node sample_name ''w'' ?s1 = (Err (ErrText ''no space''), ?s1)"
    by (simp add: memory_node_def sample_elements sample_fs_def entry_at_def)
  have base: "snd (path_Split sample_name) \<noteq> ''''" by (simp add: sample_elements)
  have "cid_String memory_node (node_Cid memory_node ''v'') = ''v''" by (simp add: memory_node_def)
  with ipfs_add_loses_name [OF memory_unlink_laws sample_is_name base holds sample_fs_clear put] show ?thesis by metis
qed

theorem ipfs_add_stores_witness:
  "\<exists>s s2. ipfs_backend_Add memory_node sample_name ''w'' (sample_fs 1) = (Ok (), s)
    \<and> ipfs_backend_Resolve sample_env memory_node sample_name s = (Ok ''w'', s2)"
proof -
  let ?s1 = "(sample_fs 1)\<lparr>tree := [[Addr sample_address] \<mapsto> None]\<rparr>"
  let ?s2 = "(sample_fs 1)\<lparr>tree := [[Addr sample_address] \<mapsto> None, [Addr sample_address, ''x''] \<mapsto> Some ''w''], room := 0\<rparr>"
  have parse: "cid_Parse memory_node ''w'' = Ok ''w''" "cid_String memory_node ''w'' = ''w''" by (simp_all add: memory_node_def)
  have clear: "clear_name memory_node sample_name ''w'' (sample_fs 1) = (Ok ''w'', ?s1)"
    using sample_fs_clear [of 1] by simp
  have put: "mfs_PutNode memory_node sample_name ''w'' ?s1 = (Ok (), ?s2)"
    by (simp add: memory_node_def sample_elements sample_fs_def entry_at_def)
  from ipfs_add_stores [OF memory_mfs_laws sample_is_name parse(1) clear put] show ?thesis
    by (auto simp: parse(2))
qed

end
