(* ===== verification/ManagedNames.thy ===== *)
theory ManagedNames
  imports IpfsSample NameBackends
begin

text \<open>
  The resolver of \<^verbatim>\<open>resolver/ipfs_resolver.go\<close> on a backend with the laws of \<open>name_backend\<close>: the names of an
  address it manages are its own, whatever the network sends.
\<close>

section \<open>Who changes the backend\<close>

lemma handleResolution_backend: "handleResolution c i msg s = (r, s') \<Longrightarrow> backend s' = backend s"
  by (auto simp: handleResolution_def removePendingQuery_def putInCache_def Let_def
      split: result.splits option.splits if_splits prod.splits)

lemma handleEvent_keeps: "keeps (\<lambda>s. backend s = b) (handleEvent c i ev)"
  unfolding keeps_def
  by (auto simp: handleEvent_def dispatch_def return_io_def split: result.splits if_splits
      dest: handleQuery_frame handleResolution_backend)

lemma receive_backend: "receive c i ord k from data s = (r, s') \<Longrightarrow> backend s' = backend s"
  by (rule receive_keeps [OF handleEvent_keeps]) auto

text \<open>Every step but \<open>Add\<close> leaves the backend alone.\<close>

lemma step_backend:
  assumes "ipfs_step c i s s'"
  shows "backend s' = backend s \<or> (\<exists>name v r. ipfs_Add c i name v s = (r, s'))"
  using assms
proof (induction rule: ipfs_step.induct)
  case (do_subscribe a s r s')
  then show ?case using ipfs_subscribe_frame(4) by (fastforce simp: ipfs_Subscribe_def)
next
  case (do_send s xs msg ys r s')
  then show ?case using sendResolution_frame(3) [OF do_send(2)] by simp
qed (auto simp: ipfs_Resolve_frame ipfs_Manage_frame ipfs_Remove_frame receive_backend)

lemma ipfs_Add_backend:
  assumes "ipfs_Add c i name v s = (r, s')" and "backend s' \<noteq> backend s"
  shows "ir_bAdd c (i_now i) name v (backend s) = (r, backend s')"
  using assms by (auto simp: ipfs_Add_def split: result.splits if_splits prod.splits)

section \<open>Who changes the resources\<close>

text \<open>A resource that does not expire stays, whatever the resolver does, until it is removed.\<close>

definition held :: "string \<Rightarrow> Resource cacheRecord \<Rightarrow> ('b, 'n) ipfs \<Rightarrow> bool" where
  "held a r s \<longleftrightarrow> cdata (resourceCache s) a = Some r \<and> (\<forall>t. \<not> IsExpired t r)"

lemma held_Get: "held a r s \<Longrightarrow> cache_Get t a (resourceCache s) = Ok (Some (cvalue r))"
  by (simp add: held_def cache_Get_def)

lemma held_same: "resourceCache s' = resourceCache s \<Longrightarrow> held a r s' = held a r s"
  by (simp add: held_def)

lemma subscribe_held:
  assumes "ipfs_subscribe c i addr s = (x, s')" and "held a r s"
  shows "held a r s'"
proof (cases "Addr addr = a")
  case True
  then have "s' = s" using assms(1) held_Get [OF assms(2)] by (simp add: ipfs_subscribe_def)
  with assms(2) show ?thesis by simp
next
  case False
  with assms show ?thesis
    by (auto simp: ipfs_subscribe_def held_def Let_def cache_Add_def AddWithTTL_def split: result.splits option.splits prod.splits)
qed

lemma Subscribe_held: "ipfs_Subscribe c i b s = (x, s') \<Longrightarrow> held a r s \<Longrightarrow> held a r s'"
  unfolding ipfs_Subscribe_def by (rule subscribe_held)

lemma query_send_held:
  assumes "query_send c i rec s = (x, s')" and "held a r s"
  shows "held a r s'"
  using assms
  by (auto simp: query_send_def bind_io_def read_io_def held_same [OF evm_Emit_frame(5)] split: result.splits prod.splits
      dest: Subscribe_held)

lemma Resolve_held:
  assumes "ipfs_Resolve c i polls name s = (x, s')" and "held a r s"
  shows "held a r s'"
  using assms
  by (auto simp: ipfs_Resolve_def query_def bind_io_def read_io_def return_io_def
      split: result.splits prod.splits if_splits option.splits dest: query_send_held)

lemma Manage_held:
  assumes "ipfs_Manage c i addr s = (x, s')" and "held a r s"
  shows "held a r s'"
  using assms
  by (auto simp: ipfs_Manage_def bind_io_def return_io_def split: result.splits prod.splits if_splits option.splits
      dest: subscribe_held)

lemma handleQuery_held:
  assumes "handleQuery c i msg s = (x, s')" and "held a r s"
  shows "held a r s'"
proof -
  have "held a r (s\<lparr>pending := p\<rparr>)" "held a r (t\<lparr>sending := q\<rparr>) = held a r t" for p q and t :: "('a, 'b) ipfs"
    using assms(2) by (simp_all add: held_def)
  then show ?thesis
    using assms(1)
    by (auto simp: handleQuery_def addPendingQuery_def Let_def split: result.splits prod.splits if_splits option.splits
        dest: Subscribe_held)
qed

lemma handleEvent_held: "keeps (held a r) (handleEvent c i ev)"
proof -
  have "held a r s' = held a r s" if "handleResolution c i msg s = (x, s')" for msg s x s'
    using that by (auto simp: handleResolution_def removePendingQuery_def putInCache_def held_def Let_def
        split: result.splits option.splits if_splits prod.splits)
  then show ?thesis
    unfolding keeps_def
    by (auto simp: handleEvent_def dispatch_def return_io_def split: result.splits if_splits dest: handleQuery_held)
qed

lemma sendResolution_held:
  assumes "sendResolution c i msg s = (x, s')" and "held a r s"
  shows "held a r s'"
proof -
  have "held a r (s\<lparr>pending := p\<rparr>)" for p using assms(2) by (simp add: held_def)
  with assms show ?thesis
    by (auto simp: sendResolution_def canSendResolution_def Let_def held_same [OF evm_Emit_frame(5)]
        split: prod.splits if_splits bool.splits result.splits dest: Subscribe_held)
qed

lemma step_held:
  assumes "ipfs_step c i s s'" and "held a r s"
  shows "held a r s' \<or> (\<exists>x. ipfs_Remove i a s = (x, s'))"
  using assms
proof (induction rule: ipfs_step.induct)
  case (do_add name v s x s')
  then show ?case using held_same [OF ipfs_Add_frame(4) [OF do_add(1)]] by blast
next
  case (do_remove b s x s')
  show ?case
  proof (cases "b = a")
    case False
    with do_remove have "held a r s'"
      by (auto simp: ipfs_Remove_def held_def cache_Delete_def Let_def split: result.splits option.splits)
    then show ?thesis ..
  qed (use do_remove in blast)
next
  case (do_receive k s ord "from" data x s')
  then show ?case using receive_keeps [OF handleEvent_held] by blast
next
  case (do_send s xs msg ys x s')
  then have "held a r (s\<lparr>sending := xs @ ys\<rparr>)" by (simp add: held_def)
  with do_send(2) show ?case using sendResolution_held by blast
qed (auto dest: Resolve_held Manage_held Subscribe_held)

section \<open>The steps of the others\<close>

text \<open>The steps in which neither \<open>Add\<close> changes the name nor \<open>Remove\<close> takes the resource of the address away.\<close>

definition other_step :: "('b, 'n) ipfs_config \<Rightarrow> string \<Rightarrow> string \<Rightarrow> ('b, 'n) ipfs \<Rightarrow> ('b, 'n) ipfs \<Rightarrow> bool" where
  "other_step c name a s s' \<longleftrightarrow> (\<exists>i. ipfs_step c i s s'
     \<and> (\<forall>v. ipfs_Add c i name v s = (Ok (), s') \<longrightarrow> backend s' = backend s)
     \<and> (\<forall>x. ipfs_Remove i a s = (x, s') \<longrightarrow> resourceCache s' = resourceCache s))"

lemma other_step_resolves:
  assumes "\<And>t t'. name_backend (ir_bAdd c t) (ir_bResolve c t') named ready"
    and "other_step c name a s s'" and "ready (backend s)"
  shows "ready (backend s') \<and> ir_bResolve c t name (backend s') = ir_bResolve c t name (backend s)"
proof (cases "backend s' = backend s")
  case False
  obtain i where step: "ipfs_step c i s s'" and other: "\<And>v. ipfs_Add c i name v s \<noteq> (Ok (), s')"
    using assms(2) False unfolding other_step_def by blast
  obtain n v r where add: "ipfs_Add c i n v s = (r, s')" using step_backend [OF step] False by blast
  note b = ipfs_Add_backend [OF add False]
  show ?thesis
    using name_backend.ready_add [OF assms(1) assms(3) b] name_backend.resolve_other [OF assms(1) assms(3) b]
      name_backend.resolve_failed [OF assms(1) assms(3) b] add other
    by (cases "n = name"; cases r) auto
qed (use assms(3) in simp)

lemma other_step_held: "other_step c name a s s' \<Longrightarrow> held a r s \<Longrightarrow> held a r s'"
  unfolding other_step_def by (metis held_same step_held)

section \<open>Properties\<close>

text \<open>
  C13: a managed name is its owner's.  After \<open>Add\<close> of a name has succeeded, while the resource of its address does not expire,
  the name stays managed and resolves to the value, whatever steps follow: messages from any peer, forged answers to
  a query for this very name among them, queries, names that other calls add, subscriptions and answers.  Only
  adding the name again changes it, and only removing the address ends it.  The backend is any with the laws of
  \<open>name_backend\<close>.
\<close>

theorem managed_name_kept:
  assumes "\<And>t t'. name_backend (ir_bAdd c t) (ir_bResolve c t') named ready"
    and "ipfs_Add c i name v s = (Ok (), s1)" and "ready (backend s)" and "named name"
    and "getQueryNameRequestFromName (ir_env c) name = Ok rec"
    and "\<And>t r. cdata (resourceCache s) (mAddress rec) = Some r \<Longrightarrow> \<not> IsExpired t r"
    and "(other_step c name (mAddress rec))\<^sup>*\<^sup>* s1 s2"
  shows "isManaged (i_now i2) rec s2 \<and> ipfs_Resolve c i2 polls name s2 = (Ok v, s2)"
proof -
  have add: "ir_bAdd c (i_now i) name v (backend s) = (Ok (), backend s1)" and managed: "isManaged (i_now i) rec s"
    using assms(2,5) by (auto simp: ipfs_Add_def split: result.splits if_splits prod.splits)
  obtain r where r: "cdata (resourceCache s) (mAddress rec) = Some r" "HasKeys (res_addr (cvalue r))"
    using managed by (auto simp: isManaged_def cache_Get_def split: option.splits if_splits)
  then have "held (mAddress rec) r s1"
    using assms(6) ipfs_Add_frame(4) [OF assms(2)] by (simp add: held_def)
  moreover have "ready (backend s1) \<and> ir_bResolve c t name (backend s1) = Ok v" for t
    using name_backend.ready_add [OF assms(1) assms(3) add] name_backend.resolve_add [OF assms(1) assms(3,4) add] by simp
  ultimately have "held (mAddress rec) r s1 \<and> ready (backend s1) \<and> ir_bResolve c (i_now i2) name (backend s1) = Ok v" by blast
  with assms(7) have "held (mAddress rec) r s2 \<and> ready (backend s2) \<and> ir_bResolve c (i_now i2) name (backend s2) = Ok v"
  proof (induction rule: rtranclp_induct)
    case (step s s')
    then show ?case using other_step_resolves [OF assms(1) step.hyps(2)] other_step_held [OF step.hyps(2)] by simp
  qed
  moreover from this have "isManaged (i_now i2) rec s2" using held_Get [of "mAddress rec" r s2 "i_now i2"] r(2) by (simp add: isManaged_def)
  ultimately show ?thesis using assms(5) by (simp add: ipfs_Resolve_def)
qed

text \<open>
  The resolver \<open>A\<close> takes a forged answer to the query for its name: it is in the cache of the resolutions then, and the name still
  resolves to what \<open>A\<close> has added.
\<close>

theorem managed_name_kept_witness:
  "\<exists>rec s2 forged. (other_step (sample_config ''A'') sample_name (Addr sample_address))\<^sup>+\<^sup>+ state_A s2
    \<and> getQueryNameRequestFromName sample_env sample_name = Ok rec
    \<and> getFromCache 9 (GetID sample_env rec) (resolutionCache s2) = Ok forged \<and> qData (ExtractQuery forged) = ''forged''
    \<and> ipfs_Resolve (sample_config ''A'') (sample_input 9) [] sample_name s2 = (Ok ''v'', s2)"
proof -
  let ?c = "sample_config ''A''" and ?i = "sample_input 3"
  have backend: "name_backend (ir_bAdd ?c t) (ir_bResolve ?c t') (\<lambda>_. True) (\<lambda>b. defaultTTL b = 0)" for t t'
    using memory_names.name_backend_axioms by simp
  obtain rec where rec: "getQueryNameRequestFromName sample_env sample_name = Ok rec" "mAddress rec = Addr sample_address"
    by (rule sample_request)
  obtain res where A0: "\<And>t. cache_Get t (Addr sample_address) (resourceCache state_A0) = Ok (Some res)"
      "res_addr res = sample_address" "backend state_A0 = NewMemoryBackend"
      "managers state_A0 = [manager_of ?c ''1'' ''2'' sample_address]"
    using state_A0_manages by blast
  have "HasKeys sample_address"
    using HasKeys_pair [of sample_address sample_key] sample_address_signer by (simp add: signer_ok_def)
  then have managed: "isManaged t rec state_A0" for t using A0(1,2) rec(2) by (simp add: isManaged_def)
  then have add: "ipfs_Add ?c (sample_input 2) sample_name ''v'' state_A0 = (Ok (), state_A)"
    using rec(1) by (simp add: state_A_def ipfs_Add_def memory_Add_def cache_Add_def AddWithTTL_def)
  note frame = ipfs_Add_frame [OF add]
  have live: "\<not> IsExpired t r" if "cdata (resourceCache state_A0) (mAddress rec) = Some r" for t r
    using A0(1) [of t] that rec(2) by (auto simp: cache_Get_def split: if_splits)
  have mgr: "managers state_A ! 0 = manager_of ?c ''1'' ''2'' sample_address" using A0(4) frame(5) by simp
  have signer: "signer_ok sample_env other_key (mgr_signer attacker)"
    using sample_config_signer [of "''C''"] by (simp add: attacker_def)
  obtain answer js where rcv: "receive ?c ?i (\<lambda>xs. xs) 0 ''C'' js state_A = bind_io (dispatch ?c ?i answer) (\<lambda>_. return_io ()) state_A"
    and answer: "Message_VerifySignature sample_env answer = Ok ()" "mType answer = QueryNameResponse"
      "ExtractQuery answer = \<lparr>qData = ''forged'', qReference = GetID sample_env rec\<rparr>"
    using forged_message [of ?c sample_env "''forged''" other_key attacker "''2024-02-29T23:59:59Z''" "''C''" state_A 0 "\<lambda>xs. xs"
        "(''1'', ())" "[]" rec ?i, OF _ _ signer] mgr by auto
  have cold: "resolutionCache state_A = resolutionCache state_B"
    using frame(1) ipfs_Manage_frame(1) [of ?c "sample_input 1" sample_address state_B _ state_A0] by (simp add: state_A0_def prod_eq_iff)
  obtain s2 where s2: "dispatch ?c ?i answer state_A = (Ok (), s2)" "resourceCache s2 = resourceCache state_A"
      "getFromCache (i_now (sample_input 9)) (GetID sample_env rec) (resolutionCache s2) = Ok answer"
    using resolution_taken [of ?c answer "GetID sample_env rec" ?i state_A "sample_input 9"] answer
    by (auto simp: cold state_B_empty alive_def)
  have run: "receive ?c ?i (\<lambda>xs. xs) 0 ''C'' js state_A = (Ok (), s2)" using rcv s2(1) by (simp add: bind_io_def return_io_def)
  then have "ipfs_step ?c ?i state_A s2" using A0(4) frame(5) by (intro do_receive [where k = 0]) simp_all
  moreover have "backend s2 = backend state_A" by (rule receive_backend [OF run])
  ultimately have other: "other_step ?c sample_name (mAddress rec) state_A s2" using s2(2) unfolding other_step_def by blast
  have "ipfs_Resolve ?c (sample_input 9) [] sample_name s2 = (Ok ''v'', s2)"
    using managed_name_kept [OF backend add _ _ _ live r_into_rtranclp [of "other_step ?c sample_name (mAddress rec)", OF other], of "sample_input 9" "[]"]
      rec(1) A0(3) by (simp add: NewMemoryBackend_def NewMemoryCache_def)
  with other s2(3) answer(3) rec show ?thesis by (intro exI [of _ rec] exI [of _ s2] exI [of _ answer]) auto
qed

end
