(* ===== verification/Util.thy ===== *)
theory Util
  imports Prelude
begin

unbundle bit_operations_syntax

text \<open>
  \<^verbatim>\<open>internal/util/rand.go\<close>: random strings; and \<^verbatim>\<open>internal/multihash/id.go\<close>: identifiers of data,
  over the operations of the libraries \<^verbatim>\<open>go-cid\<close> and \<^verbatim>\<open>go-multihash\<close>, which are parameters.
\<close>

section \<open>Random strings\<close>

definition letterBytes :: string where
  "letterBytes = ''abcdefghijklmnopqrstuvwxyzABCDEFGHIJKLMNOPQRSTUVWXYZ''"

definition letterIdxBits :: nat where
  "letterIdxBits = 6"

definition letterIdxMask :: "64 word" where
  "letterIdxMask = push_bit letterIdxBits 1 - 1"

definition letterIdxMax :: nat where
  "letterIdxMax = 63 div letterIdxBits"

text \<open>
  The loop, over a source \<open>int63\<close> of 63-bit numbers with a state of its own.  Six bits that are no index of a
  letter are skipped, so it ends only when the source gives enough letters: \<open>None\<close> is a loop without end.
\<close>

partial_function (option) rand_loop ::
    "('g \<Rightarrow> 64 word \<times> 'g) \<Rightarrow> int \<Rightarrow> 64 word \<Rightarrow> nat \<Rightarrow> 'g \<Rightarrow> string \<Rightarrow> string option" where
  "rand_loop int63 i cache remain g sb =
     (if i < 0 then Some sb
      else
        let (cache1, remain1, g1) = (if remain = 0 then (fst (int63 g), letterIdxMax, snd (int63 g)) else (cache, remain, g));
            idx = unat (cache1 AND letterIdxMask)
        in if idx < length letterBytes
           then rand_loop int63 (i - 1) (drop_bit letterIdxBits cache1) (remain1 - 1) g1 (sb @ [letterBytes ! idx])
           else rand_loop int63 i (drop_bit letterIdxBits cache1) (remain1 - 1) g1 sb)"

text \<open>\<open>Grow\<close> panics on a negative length.\<close>

definition RandString :: "('g \<Rightarrow> 64 word \<times> 'g) \<Rightarrow> 'g \<Rightarrow> int \<Rightarrow> string result option" where
  "RandString int63 src n =
     (if n < 0 then Some Panic
      else map_option Ok (rand_loop int63 (n - 1) (fst (int63 src)) letterIdxMax (snd (int63 src)) []))"

text \<open>A number in which one of the next \<open>remain\<close> groups of six bits is the index of a letter.\<close>

definition useful :: "64 word \<Rightarrow> nat \<Rightarrow> bool" where
  "useful c remain \<longleftrightarrow> (\<exists>k < remain. unat (drop_bit (letterIdxBits * k) c AND letterIdxMask) < length letterBytes)"

lemma useful_Suc:
  "useful c (Suc n) \<longleftrightarrow> unat (c AND letterIdxMask) < length letterBytes \<or> useful (drop_bit letterIdxBits c) n"
proof -
  have "unat (drop_bit (letterIdxBits * Suc k) c AND letterIdxMask) = unat (drop_bit (letterIdxBits * k) (drop_bit letterIdxBits c) AND letterIdxMask)"
    for k by (simp add: algebra_simps)
  then show ?thesis unfolding useful_def by (auto simp: less_Suc_eq_0_disj)
qed

lemma not_useful_0 [simp]: "\<not> useful c 0"
  by (simp add: useful_def)

text \<open>The states of the source after \<open>m\<close> numbers.\<close>

definition after :: "('g \<Rightarrow> 64 word \<times> 'g) \<Rightarrow> nat \<Rightarrow> 'g \<Rightarrow> 'g" where
  "after int63 m g = ((\<lambda>g. snd (int63 g)) ^^ m) g"

lemma after_simps [simp]: "after int63 0 g = g" "after int63 (Suc m) g = after int63 m (snd (int63 g))"
  by (simp_all add: after_def funpow_Suc_right del: funpow.simps)

definition finishes :: "('g \<Rightarrow> 64 word \<times> 'g) \<Rightarrow> int \<Rightarrow> 64 word \<Rightarrow> nat \<Rightarrow> 'g \<Rightarrow> bool" where
  "finishes int63 i cache remain g \<longleftrightarrow> (\<forall>sb. \<exists>s. rand_loop int63 i cache remain g sb = Some (sb @ s)
     \<and> int (length s) = max 0 (i + 1) \<and> set s \<subseteq> set letterBytes)"

lemma finishes_neg: "i < 0 \<Longrightarrow> finishes int63 i cache remain g"
  unfolding finishes_def by (subst rand_loop.simps) simp

lemma finishes_letter:
  assumes "unat (cache AND letterIdxMask) < length letterBytes" and "0 \<le> i"
    and "finishes int63 (i - 1) (drop_bit letterIdxBits cache) n g"
  shows "finishes int63 i cache (Suc n) g"
proof (unfold finishes_def, intro allI)
  fix sb
  let ?l = "letterBytes ! unat (cache AND letterIdxMask)"
  obtain s where s: "rand_loop int63 (i - 1) (drop_bit letterIdxBits cache) n g (sb @ [?l]) = Some ((sb @ [?l]) @ s)"
      "int (length s) = max 0 i" "set s \<subseteq> set letterBytes"
    using assms(3) [unfolded finishes_def, rule_format, of "sb @ [?l]"] by auto
  have "rand_loop int63 i cache (Suc n) g sb = Some (sb @ ?l # s)"
    using assms(1,2) s(1) by (subst rand_loop.simps) simp
  moreover have "?l \<in> set letterBytes" using assms(1) by simp
  ultimately show "\<exists>s. rand_loop int63 i cache (Suc n) g sb = Some (sb @ s) \<and> int (length s) = max 0 (i + 1) \<and> set s \<subseteq> set letterBytes"
    using s(2,3) assms(2) by (intro exI [of _ "?l # s"]) simp
qed

lemma finishes_skip:
  assumes "\<not> unat (cache AND letterIdxMask) < length letterBytes" and "0 \<le> i"
    and "finishes int63 i (drop_bit letterIdxBits cache) n g"
  shows "finishes int63 i cache (Suc n) g"
  using assms unfolding finishes_def by (subst rand_loop.simps) simp

lemma finishes_draw:
  assumes "finishes int63 i (fst (int63 g)) letterIdxMax (snd (int63 g))" and "0 \<le> i"
  shows "finishes int63 i cache 0 g"
proof -
  have "rand_loop int63 i cache 0 g sb = rand_loop int63 i (fst (int63 g)) letterIdxMax (snd (int63 g)) sb" for sb
    using assms(2)
    by (subst rand_loop.simps, subst (3) rand_loop.simps) (simp add: letterIdxMax_def letterIdxBits_def)
  with assms(1) show ?thesis unfolding finishes_def by simp
qed

lemma finishes_useful:
  assumes "\<And>c n. finishes int63 (i - 1) c n g" and "0 \<le> i"
  shows "useful c n \<Longrightarrow> finishes int63 i c n g"
proof (induction n arbitrary: c)
  case (Suc n)
  show ?case
  proof (cases "unat (c AND letterIdxMask) < length letterBytes")
    case True
    then show ?thesis by (rule finishes_letter) (rule assms)+
  next
    case False
    with Suc have "finishes int63 i (drop_bit letterIdxBits c) n g" by (simp add: useful_Suc)
    with False show ?thesis by (intro finishes_skip assms(2))
  qed
qed simp

lemma finishes_slots:
  assumes "\<And>c n. finishes int63 (i - 1) c n g" and "0 \<le> i" and "\<And>c. finishes int63 i c 0 g"
  shows "finishes int63 i c n g"
proof (induction n arbitrary: c)
  case (Suc n)
  show ?case
  proof (cases "unat (c AND letterIdxMask) < length letterBytes")
    case True
    then show ?thesis by (rule finishes_letter) (rule assms(1,2))+
  next
    case False
    then show ?thesis by (rule finishes_skip) (rule assms(2) Suc)+
  qed
qed (rule assms(3))

lemma finishes_from:
  assumes "\<And>c n g. finishes int63 (i - 1) c n g" and "0 \<le> i"
  shows "useful (fst (int63 (after int63 m g))) letterIdxMax \<Longrightarrow> finishes int63 i c 0 g"
proof (induction m arbitrary: c g)
  case 0
  then have "finishes int63 i (fst (int63 g)) letterIdxMax (snd (int63 g))"
    using finishes_useful [OF assms] by simp
  then show ?case by (rule finishes_draw) (rule assms(2))
next
  case (Suc m)
  then have "finishes int63 i c 0 (snd (int63 g))" for c by simp
  then have "finishes int63 i (fst (int63 g)) letterIdxMax (snd (int63 g))"
    using finishes_slots [OF assms] by simp
  then show ?case by (rule finishes_draw) (rule assms(2))
qed

lemma finishes_all:
  assumes "\<forall>g. \<exists>m. useful (fst (int63 (after int63 m g))) letterIdxMax"
  shows "finishes int63 i c n g"
proof (induction "nat (i + 1)" arbitrary: i c n g)
  case 0
  then show ?case by (simp add: finishes_neg)
next
  case (Suc k i c n g)
  then have prev: "finishes int63 (i - 1) c n g" for c n g by simp
  have "0 \<le> i" using Suc.hyps(2) by simp
  obtain m where "useful (fst (int63 (after int63 m g))) letterIdxMax" using assms by blast
  then have "finishes int63 i c 0 g" for c by (rule finishes_from [OF prev \<open>0 \<le> i\<close>])
  then show ?case by (rule finishes_slots [OF prev \<open>0 \<le> i\<close>])
qed

text \<open>
  Random strings.  When the source gives, from every state on, at some time a number with the index of a
  letter in its ten groups of six bits, \<open>RandString\<close> returns for every length that is not negative, and
  its result has that length and letters only; a negative length panics.
\<close>

theorem rand_string_returns:
  assumes "\<forall>g. \<exists>m. useful (fst (int63 (after int63 m g))) letterIdxMax"
  shows "if n < 0 then RandString int63 src n = Some Panic
    else \<exists>s. RandString int63 src n = Some (Ok s) \<and> int (length s) = n \<and> set s \<subseteq> set letterBytes"
proof (cases "n < 0")
  case False
  have "finishes int63 (n - 1) (fst (int63 src)) letterIdxMax (snd (int63 src))"
    by (rule finishes_all [OF assms])
  then obtain s where "rand_loop int63 (n - 1) (fst (int63 src)) letterIdxMax (snd (int63 src)) [] = Some s"
      "int (length s) = n" "set s \<subseteq> set letterBytes"
    using False unfolding finishes_def by force
  with False show ?thesis by (auto simp: RandString_def)
qed (simp add: RandString_def)

theorem rand_string_returns_witness:
  "(\<exists>s. RandString (\<lambda>g :: nat. (if even g then -1 else 0, Suc g)) 0 300 = Some (Ok s) \<and> length s = 300)
   \<and> RandString (\<lambda>g :: nat. (if even g then -1 else 0, Suc g)) 0 (-1) = Some Panic"
proof -
  let ?int63 = "\<lambda>g :: nat. (if even g then -1 else 0 :: 64 word, Suc g)"
  have "useful 0 letterIdxMax" unfolding useful_def
    by (intro exI [of _ 0]) (simp add: letterIdxMax_def letterIdxBits_def letterBytes_def)
  then have "useful (fst (?int63 (after ?int63 (if even g then 1 else 0) g))) letterIdxMax" for g by simp
  then have "\<forall>g. \<exists>m. useful (fst (?int63 (after ?int63 m g))) letterIdxMax" by blast
  from rand_string_returns [OF this, of 300 0] rand_string_returns [OF this, of "-1" 0] show ?thesis by auto
qed

section \<open>Identifiers of data\<close>

text \<open>\<open>mh_Decode\<close> gives the digest in a multihash; \<open>cid_Undef\<close> is the identifier of nothing.\<close>

record cid_prefix =
  pVersion :: "64 word"
  pCodec :: "64 word"
  pMhType :: "64 word"
  pMhLength :: int

record 'c cid_lib =
  cid_Undef :: 'c
  cid_Decode :: "string \<Rightarrow> 'c result"
  cid_Defined :: "'c \<Rightarrow> bool"
  cid_Prefix :: "'c \<Rightarrow> cid_prefix"
  cid_text :: "'c \<Rightarrow> string"
  cid_Hash :: "'c \<Rightarrow> bytes"
  prefix_Sum :: "cid_prefix \<Rightarrow> bytes \<Rightarrow> 'c result"
  mh_Decode :: "bytes \<Rightarrow> bytes result"
  mc_Cidv2 :: "64 word"
  mh_SHA2_256 :: "64 word"

record 'c mid =
  pref :: cid_prefix
  mcid :: 'c

definition NewId :: "'c cid_lib \<Rightarrow> 'c mid" where
  "NewId L = \<lparr>pref = \<lparr>pVersion = 0, pCodec = mc_Cidv2 L, pMhType = mh_SHA2_256 L, pMhLength = 32\<rparr>, mcid = cid_Undef L\<rparr>"

definition NewIdFromString :: "'c cid_lib \<Rightarrow> string \<Rightarrow> 'c mid result" where
  "NewIdFromString L v = bind_result (cid_Decode L v) (\<lambda>c. Ok \<lparr>pref = cid_Prefix L c, mcid = c\<rparr>)"

definition SetData :: "'c cid_lib \<Rightarrow> bytes \<Rightarrow> (unit, 'c mid) io" where
  "SetData L data i = (case prefix_Sum L (pref i) data of
     Panic \<Rightarrow> (Panic, i) | Err er \<Rightarrow> (Err er, i) | Ok c \<Rightarrow> (Ok (), i\<lparr>mcid := c\<rparr>))"

definition id_String :: "'c cid_lib \<Rightarrow> 'c mid \<Rightarrow> string" where
  "id_String L i = (if \<not> cid_Defined L (mcid i) then '''' else cid_text L (mcid i))"

definition Digest :: "'c cid_lib \<Rightarrow> 'c mid \<Rightarrow> bytes result" where
  "Digest L i = (if \<not> cid_Defined L (mcid i) then Ok [] else mh_Decode L (cid_Hash L (mcid i)))"

definition Cid :: "'c mid \<Rightarrow> 'c" where
  "Cid i = mcid i"

text \<open>
  The documented contract: an identifier is read back from its text; a sum is defined, has the prefix it was made
  with, and its hash holds the digest \<open>H\<close> of the data; \<open>cid_Undef\<close> is not defined.
\<close>

definition cid_laws :: "'c cid_lib \<Rightarrow> (bytes \<Rightarrow> bytes) \<Rightarrow> bool" where
  "cid_laws L H \<longleftrightarrow>
     \<not> cid_Defined L (cid_Undef L)
   \<and> (\<forall>c. cid_Defined L c \<longrightarrow> cid_Decode L (cid_text L c) = Ok c)
   \<and> (\<forall>p b c. prefix_Sum L p b = Ok c \<longrightarrow> cid_Defined L c \<and> mh_Decode L (cid_Hash L c) = Ok (H b))"

text \<open>
  The identifier of data.  After \<open>SetData\<close> the text of an identifier is read back as the same identifier, with
  the digest of the data; before it, the text and the digest are empty.
\<close>

theorem identifier_roundtrip:
  assumes "cid_laws L H" and "SetData L data (NewId L) = (Ok (), i)"
  shows "id_String L (NewId L) = '''' \<and> Digest L (NewId L) = Ok []
    \<and> (\<exists>j. NewIdFromString L (id_String L i) = Ok j \<and> Cid j = Cid i \<and> Digest L j = Ok (H data) \<and> id_String L j = id_String L i)"
  using assms
  by (auto simp: cid_laws_def SetData_def NewId_def id_String_def Digest_def NewIdFromString_def Cid_def split: result.splits)

theorem identifier_roundtrip_witness:
  "\<exists>L i j. SetData (L :: bytes option cid_lib) [1, 2] (NewId L) = (Ok (), i) \<and> NewIdFromString L (id_String L i) = Ok j
     \<and> Digest L j = Ok [1, 2]"
proof -
  define L :: "bytes option cid_lib" where "L = \<lparr>cid_Undef = None,
     cid_Decode = (\<lambda>s. if s = '''' then Err (ErrBackend 0) else Ok (Some (bytes_of (tl s)))),
     cid_Defined = (\<lambda>c. c \<noteq> None), cid_Prefix = (\<lambda>c. \<lparr>pVersion = 0, pCodec = 112, pMhType = 18, pMhLength = 32\<rparr>),
     cid_text = (\<lambda>c. CHR ''Q'' # string_of (the c)), cid_Hash = the, prefix_Sum = (\<lambda>p b. Ok (Some b)),
     mh_Decode = Ok, mc_Cidv2 = 2, mh_SHA2_256 = 18\<rparr>"
  have laws: "cid_laws L (\<lambda>b. b)" by (auto simp: cid_laws_def L_def)
  obtain i where i: "SetData L [1, 2] (NewId L) = (Ok (), i)" by (simp add: SetData_def L_def)
  from identifier_roundtrip [OF laws i] i show ?thesis by blast
qed

end
