(* ===== verification/IpfsTypes.thy ===== *)
theory IpfsTypes
  imports IpfsSample
begin

text \<open>
  The typing of the state of the resolver over the network: a resource refers to its event manager by an index, and keeps
  the subscriptions to cancel; the invariant says that these references are never stale.  With it the messages that
  the network delivers can be shown not to panic, up to what the backend does.
\<close>

section \<open>References\<close>

text \<open>The manager of a resource is the one that was made for its address and still has the two callbacks.\<close>

definition resource_ok :: "('b, 'n) ipfs_config \<Rightarrow> unit manager list \<Rightarrow> string \<Rightarrow> Resource \<Rightarrow> bool" where
  "resource_ok c ms a res \<longleftrightarrow> Addr (res_addr res) = a \<and> res_evm res < length ms
     \<and> ms ! res_evm res = manager_of c (sub_id (res_response res)) (sub_id (res_request res)) (res_addr res)
     \<and> sub_eventName (res_response res) = QueryNameResponse \<and> sub_eventName (res_request res) = QueryNameRequest
     \<and> sub_parent (res_response res) \<and> sub_parent (res_request res)"

definition resources_ok :: "('b, 'n) ipfs_config \<Rightarrow> unit manager list \<Rightarrow> Resource memoryCache \<Rightarrow> bool" where
  "resources_ok c ms rc \<longleftrightarrow> (\<forall>a r. cdata rc a = Some r \<longrightarrow> resource_ok c ms a (cvalue r))"

definition manager_ok :: "('b, 'n) ipfs_config \<Rightarrow> unit manager \<Rightarrow> bool" where
  "manager_ok c m \<longleftrightarrow> mgr_id m = ir_peer c \<and> mgr_nameSpace m = ir_nameSpace c \<and> mgr_signer m = ir_signerAddr c"

text \<open>What waits to be sent is an answer with a valid signature.\<close>

definition answer_ok :: "('b, 'n) ipfs_config \<Rightarrow> Message \<Rightarrow> bool" where
  "answer_ok c m \<longleftrightarrow> mType m = QueryNameResponse \<and> Message_VerifySignature (ir_env c) m = Ok ()
     \<and> (\<exists>q. mPayload m = Some (QueryPayload q))"

definition ipfs_typed :: "('b, 'n) ipfs_config \<Rightarrow> ('b, 'n) ipfs \<Rightarrow> bool" where
  "ipfs_typed c s \<longleftrightarrow> resources_ok c (managers s) (resourceCache s)
     \<and> (\<forall>m \<in> set (managers s). manager_ok c m) \<and> (\<forall>m \<in> set (sending s). answer_ok c m)"

lemma resource_ok_append: "resource_ok c ms a res \<Longrightarrow> resource_ok c (ms @ ms') a res"
  by (simp add: resource_ok_def nth_append)

lemma manager_of_ok [simp]: "manager_ok c (manager_of c u1 u2 addr)"
  by (simp add: manager_ok_def manager_of_def)

lemma manager_of_managed [simp]: "mgr_managed (manager_of c u1 u2 addr) = addr"
  by (simp add: manager_of_def)

text \<open>Resources of different addresses have different managers.\<close>

lemma resource_ok_apart:
  assumes "resource_ok c ms a res" and "resource_ok c ms a' res'" and "res_evm res = res_evm res'"
  shows "a = a'"
  using assms by (metis manager_of_managed resource_ok_def)

section \<open>Every operation keeps the references\<close>

lemma subscribe_new_resource:
  assumes "manager_On u1 QueryNameResponse () m0 = (response, m1)" and "manager_On u2 QueryNameRequest () m1 = (request, m2)"
    and "NewManager subscribe peer ns a addr n = (Ok m0, n')"
    and "peer = ir_peer c" and "ns = ir_nameSpace c" and "a = ir_signerAddr c"
  shows "m2 = manager_of c u1 u2 addr"
    and "resource_ok c (ms @ [m2]) (Addr addr)
      \<lparr>res_addr = addr, res_evm = length ms, res_request = request, res_response = response\<rparr>"
proof -
  have m0: "m0 = \<lparr>mgr_id = peer, mgr_subs = newSubscriptions, mgr_nameSpace = ns, mgr_signer = a, mgr_managed = addr\<rparr>"
    using assms(3) by (auto simp: NewManager_def Let_def bind_io_def return_io_def split: prod.splits result.splits)
  show m2: "m2 = manager_of c u1 u2 addr"
    using manager_On_twice [OF assms(1) [unfolded m0] assms(2)] assms(4-6) by (simp add: manager_of_def)
  have "sub_id response = u1" "sub_eventName response = QueryNameResponse" "sub_parent response"
    "sub_id request = u2" "sub_eventName request = QueryNameRequest" "sub_parent request"
    using assms(1,2) by (auto simp: manager_On_def subs_Subscribe_def split: prod.splits)
  with m2 show "resource_ok c (ms @ [m2]) (Addr addr)
      \<lparr>res_addr = addr, res_evm = length ms, res_request = request, res_response = response\<rparr>"
    by (simp add: resource_ok_def)
qed

lemma cache_Add_data: "cache_Add now a v rc = (r, rc') \<Longrightarrow> \<exists>q. cdata rc' a = Some q \<and> cvalue q = v"
  by (auto simp: cache_Add_def AddWithTTL_def)

lemma resources_ok_add:
  assumes "resources_ok c ms rc" and "resource_ok c (ms @ ms') a res" and "cache_Add now a res rc = (r, rc')"
  shows "resources_ok c (ms @ ms') rc'"
  using assms by (auto simp: resources_ok_def cache_Add_def AddWithTTL_def resource_ok_append split: if_splits)

lemma ipfs_subscribe_typed:
  assumes "ipfs_subscribe c i addr s = (r, s')" and "ipfs_typed c s"
  shows "ipfs_typed c s'"
proof (cases "resourceCache s' = resourceCache s \<and> managers s' = managers s")
  case True
  then show ?thesis using assms(2) ipfs_subscribe_frame(3) [OF assms(1)] by (simp add: ipfs_typed_def)
next
  case False
  obtain m0 :: "unit manager" and n where new: "NewManager (ir_topic c) (ir_peer c) (ir_nameSpace c) (ir_signerAddr c) addr (net s) = (Ok m0, n)"
    using assms(1) False by (auto simp: ipfs_subscribe_def split: result.splits option.splits prod.splits)
  obtain response m1 where on1: "manager_On (i_uuid1 i) QueryNameResponse () m0 = (response, m1)" by fastforce
  obtain request m2 where on2: "manager_On (i_uuid2 i) QueryNameRequest () m1 = (request, m2)" by fastforce
  note res = subscribe_new_resource [OF on1 on2 new refl refl refl]
  let ?res = "\<lparr>res_addr = addr, res_evm = length (managers s), res_request = request, res_response = response\<rparr>"
  obtain q rc where add: "cache_Add (i_now i) (Addr addr) ?res (resourceCache s) = (q, rc)" by fastforce
  have s': "managers s' = managers s @ [m2]" "resourceCache s' = rc"
    using assms(1) False new on1 on2 add
    by (auto simp: ipfs_subscribe_def Let_def split: result.splits option.splits prod.splits)
  have "resources_ok c (managers s') (resourceCache s')"
    unfolding s' using resources_ok_add [OF _ res(2) add] assms(2) by (simp add: ipfs_typed_def)
  then show ?thesis
    using assms(2) s'(1) res(1) ipfs_subscribe_frame(3) [OF assms(1)] by (simp add: ipfs_typed_def)
qed

lemma evm_Emit_typed: "evm_Emit c i n data res s = (r, s') \<Longrightarrow> ipfs_typed c s \<Longrightarrow> ipfs_typed c s'"
  by (simp add: ipfs_typed_def evm_Emit_frame)

lemma ipfs_Subscribe_typed: "ipfs_Subscribe c i a s = (r, s') \<Longrightarrow> ipfs_typed c s \<Longrightarrow> ipfs_typed c s'"
  unfolding ipfs_Subscribe_def by (rule ipfs_subscribe_typed)

lemma ipfs_Manage_typed:
  assumes "ipfs_Manage c i addr s = (r, s')" and "ipfs_typed c s"
  shows "ipfs_typed c s'"
  using assms
  by (auto simp: ipfs_Manage_def bind_io_def return_io_def split: result.splits prod.splits if_splits option.splits
      dest: ipfs_subscribe_typed)

lemma ipfs_Remove_typed:
  assumes "ipfs_Remove i a s = (r, s')" and "ipfs_typed c s"
  shows "ipfs_typed c s'"
proof (cases "cache_Get (i_now i) a (resourceCache s)")
  case (Ok found)
  show ?thesis
  proof (cases found)
    case (Some res)
    then have res: "resource_ok c (managers s) a res"
      using Ok assms(2) by (auto simp: cache_Get_def ipfs_typed_def resources_ok_def split: option.splits if_splits)
    define ms where "ms = managers s"
    obtain subs where s': "managers s' = ms[res_evm res := (ms ! res_evm res)\<lparr>mgr_subs := subs\<rparr>]"
        "cdata (resourceCache s') = (cdata (resourceCache s))(a := None)"
      using assms(1) Ok Some by (auto simp: ipfs_Remove_def Let_def cache_Delete_def ms_def split: prod.splits)
    have "resource_ok c (managers s') a' (cvalue r')" if "cdata (resourceCache s') a' = Some r'" for a' r'
    proof -
      have a': "a' \<noteq> a" "cdata (resourceCache s) a' = Some r'" using that s'(2) by (auto split: if_splits)
      then have r': "resource_ok c (managers s) a' (cvalue r')"
        using assms(2) by (simp add: ipfs_typed_def resources_ok_def)
      then have "res_evm (cvalue r') \<noteq> res_evm res" using resource_ok_apart [OF res r'] a'(1) by auto
      with r' show ?thesis unfolding s'(1) by (simp add: resource_ok_def ms_def)
    qed
    moreover have "manager_ok c m" if "m \<in> set (managers s')" for m
    proof -
      have "manager_ok c (ms ! res_evm res)"
        using assms(2) res by (auto simp: ipfs_typed_def resource_ok_def ms_def)
      then show ?thesis
        using that assms(2) set_update_subset_insert [of ms] unfolding s'(1)
        by (fastforce simp: ipfs_typed_def manager_ok_def ms_def)
    qed
    ultimately show ?thesis
      using assms(2) ipfs_Remove_frame(2) [OF assms(1)] by (simp add: ipfs_typed_def resources_ok_def)
  qed (use assms Ok in \<open>simp add: ipfs_Remove_def\<close>)
qed (use assms in \<open>simp_all add: ipfs_Remove_def\<close>)

lemma ipfs_typed_frame:
  "managers s' = managers s \<Longrightarrow> resourceCache s' = resourceCache s \<Longrightarrow> sending s' = sending s \<Longrightarrow>
     ipfs_typed c s' = ipfs_typed c s"
  by (simp add: ipfs_typed_def)

lemma ipfs_Add_typed: "ipfs_Add c i name v s = (r, s') \<Longrightarrow> ipfs_typed c s \<Longrightarrow> ipfs_typed c s'"
  by (simp add: ipfs_typed_def ipfs_Add_frame)

lemma query_send_typed:
  assumes "query_send c i rec s = (r, s')" and "ipfs_typed c s"
  shows "ipfs_typed c s'"
  using assms
  by (auto simp: query_send_def bind_io_def read_io_def split: result.splits prod.splits
      dest: ipfs_Subscribe_typed evm_Emit_typed)

lemma ipfs_Resolve_typed:
  assumes "ipfs_Resolve c i polls name s = (r, s')" and "ipfs_typed c s"
  shows "ipfs_typed c s'"
  using assms
  by (auto simp: ipfs_Resolve_def query_def bind_io_def read_io_def return_io_def
      split: result.splits prod.splits if_splits option.splits dest: query_send_typed)

lemma pending_typed [simp]: "ipfs_typed c (s\<lparr>pending := p\<rparr>) = ipfs_typed c s"
  by (simp add: ipfs_typed_def)

lemma resolutionCache_typed [simp]: "ipfs_typed c (s\<lparr>resolutionCache := rc\<rparr>) = ipfs_typed c s"
  by (simp add: ipfs_typed_def)

lemma resolution_answer_ok:
  assumes "SignWithKey (ir_env c) rnd k (resolution_message E i msg v) = (Ok (), rec)"
    and "Message_VerifySignature (ir_env c) rec = Ok ()"
  shows "answer_ok c rec"
  using assms by (auto simp: answer_ok_def SignWithKey_Ok Let_def resolution_message_def)

lemma handleQuery_typed:
  assumes "handleQuery c i msg s = (r, s')" and "ipfs_typed c s"
  shows "ipfs_typed c s'"
proof -
  obtain r2 s2 where sub: "ipfs_Subscribe c i (mAddress msg) (addPendingQuery c msg s) = (r2, s2)" by fastforce
  have s2: "ipfs_typed c s2"
    by (rule ipfs_Subscribe_typed [OF sub]) (use assms(2) in \<open>simp add: addPendingQuery_def\<close>)
  consider "s' = addPendingQuery c msg s" | "s' = s2"
    | k v rec where "SignWithKey (ir_env c) (i_rnd i) k (resolution_message (ir_env c) i msg v) = (Ok (), rec)"
        "Message_VerifySignature (ir_env c) rec = Ok ()" "s' = s2\<lparr>sending := sending s2 @ [rec]\<rparr>"
    using assms(1) sub by (auto simp: handleQuery_def Let_def split: result.splits prod.splits if_splits option.splits)
  then show ?thesis
  proof cases
    case (3 k v rec)
    then have "answer_ok c rec" by (intro resolution_answer_ok)
    then show ?thesis using s2 3(3) by (auto simp: ipfs_typed_def)
  qed (use s2 assms(2) in \<open>simp_all add: addPendingQuery_def\<close>)
qed

lemma handleResolution_typed:
  assumes "handleResolution c i msg s = (r, s')" and "ipfs_typed c s"
  shows "ipfs_typed c s'"
  using assms
  by (auto simp: handleResolution_def putInCache_def removePendingQuery_def Let_def
      split: result.splits option.splits prod.splits if_splits)

lemma handleEvent_typed: "handleEvent c i ev s = (r, s') \<Longrightarrow> ipfs_typed c s \<Longrightarrow> ipfs_typed c s'"
  by (auto simp: handleEvent_def dispatch_def return_io_def split: result.splits if_splits
      dest: handleQuery_typed handleResolution_typed)

lemma receive_typed:
  assumes "receive c i ord k from data s = (r, s')" and "ipfs_typed c s"
  shows "ipfs_typed c s'"
  using handleEvent_typed by (intro receive_keeps [of "ipfs_typed c", OF _ assms]) (auto simp: keeps_def)

lemma sendResolution_typed:
  assumes "sendResolution c i msg s = (r, s')" and "ipfs_typed c s"
  shows "ipfs_typed c s'"
  using assms
  by (auto simp: sendResolution_def canSendResolution_def Let_def
      split: result.splits prod.splits if_splits bool.splits dest!: evm_Emit_typed ipfs_Subscribe_typed)

lemma step_typed: "ipfs_step c i s s' \<Longrightarrow> ipfs_typed c s \<Longrightarrow> ipfs_typed c s'"
proof (induction rule: ipfs_step.induct)
  case (do_send s xs msg ys r s')
  have "ipfs_typed c (s\<lparr>sending := xs @ ys\<rparr>)" using do_send(1,3) by (auto simp: ipfs_typed_def)
  then show ?case by (rule sendResolution_typed [OF do_send(2)])
qed (auto dest: ipfs_Add_typed ipfs_Resolve_typed ipfs_Manage_typed ipfs_Subscribe_typed ipfs_Remove_typed receive_typed)

lemma reachable_typed: "ipfs_reachable c s \<Longrightarrow> ipfs_typed c s"
proof -
  assume "ipfs_reachable c s"
  then obtain b n where "(\<lambda>s s'. \<exists>i. ipfs_step c i s s')\<^sup>*\<^sup>* (ipfs_init b n) s"
    by (auto simp: ipfs_reachable_def)
  then show ?thesis
  proof (induction rule: rtranclp_induct)
    case base
    show ?case by (simp add: ipfs_typed_def resources_ok_def ipfs_init_def NewMemoryCache_def)
  next
    case (step s s')
    then show ?case using step_typed by blast
  qed
qed

lemma resource_valid:
  "ipfs_reachable c s \<Longrightarrow> cdata (resourceCache s) a = Some r \<Longrightarrow> resource_ok c (managers s) a (cvalue r)"
  using reachable_typed unfolding ipfs_typed_def resources_ok_def by blast

text \<open>Subscribing on a network that takes every subscription gives a resource.\<close>

lemma ipfs_Subscribe_resource:
  assumes "ipfs_typed c s" and "ir_topic c = (\<lambda>t n. (Ok (), n))"
  shows "\<exists>res t. ipfs_Subscribe c i a s = (Ok res, t) \<and> net t = net s \<and> resource_ok c (managers t) a res"
proof (cases "cdata (resourceCache s) a = None \<or> IsExpired (i_now i) (the (cdata (resourceCache s) a))")
  case True
  let ?a = "\<lparr>Keys = None, Addr = a\<rparr>"
  have "cache_Get (i_now i) (Addr ?a) (resourceCache s) = Ok None"
    using True by (auto simp: cache_Get_def split: option.split)
  from subscribe_new [OF assms(2) this] obtain res t where sub: "ipfs_subscribe c i ?a s = (Ok res, t)"
    and t: "net t = net s" "cache_Add (i_now i) a res (resourceCache s) = (Ok (), resourceCache t)" by auto
  obtain r where "cdata (resourceCache t) a = Some r" "cvalue r = res"
    using cache_Add_data [OF t(2)] by blast
  moreover have "resources_ok c (managers t) (resourceCache t)"
    using ipfs_subscribe_typed [OF sub assms(1)] by (simp add: ipfs_typed_def)
  ultimately show ?thesis using sub t(1) unfolding ipfs_Subscribe_def resources_ok_def by blast
next
  case False
  then obtain r where r: "cdata (resourceCache s) a = Some r" "\<not> IsExpired (i_now i) r" by auto
  then have "ipfs_Subscribe c i a s = (Ok (cvalue r), s)"
    unfolding ipfs_Subscribe_def by (intro subscribe_cached) (simp add: cache_Get_def)
  with r(1) assms(1) show ?thesis unfolding ipfs_typed_def resources_ok_def by blast
qed

section \<open>No message panics\<close>

text \<open>Parameters that return, with a value or with an error.\<close>

definition calm :: "('b, 'n) ipfs_config \<Rightarrow> bool" where
  "calm c \<longleftrightarrow> (\<forall>now name b. ir_bResolve c now name b \<noteq> Panic) \<and> (\<forall>t n. fst (ir_topic c t n) \<noteq> Panic)
     \<and> (\<forall>t d n. fst (ir_publish c t d n) \<noteq> Panic) \<and> (\<forall>rnd k d. ecdsa_sign (ir_env c) rnd k d \<noteq> Panic)"

lemma cache_Get_not_Panic [simp]: "cache_Get now key m \<noteq> Panic"
  by (simp add: cache_Get_def split: option.split)

lemma cache_Add_Ok: "cache_Add now key v m = (r, m') \<Longrightarrow> r = Ok ()"
  by (simp add: cache_Add_def AddWithTTL_def)

lemma SignWithKey_not_Panic:
  assumes "calm c"
  shows "fst (SignWithKey (ir_env c) rnd k m) \<noteq> Panic"
  using assms by (auto simp: SignWithKey_def Sign_def calm_def Let_def bind_result_eq_Panic split: result.split prod.split)

lemma ipfs_subscribe_not_Panic:
  assumes "calm c"
  shows "fst (ipfs_subscribe c i addr s) \<noteq> Panic"
proof -
  have "ir_topic c t n \<noteq> (Panic, n')" for t n n' using assms unfolding calm_def by (metis fst_conv)
  then show ?thesis
    unfolding ipfs_subscribe_def NewManager_def Let_def bind_io_def return_io_def
    by (auto split: result.splits option.splits prod.splits dest: cache_Add_Ok)
qed

lemma handleQuery_not_Panic:
  assumes "calm c"
  shows "fst (handleQuery c i msg s) \<noteq> Panic"
proof -
  have sub: "ipfs_Subscribe c i a s1 \<noteq> (Panic, s2)" for a s1 s2
    using ipfs_subscribe_not_Panic [OF assms] by (metis fst_conv ipfs_Subscribe_def)
  have sign: "SignWithKey (ir_env c) rnd k m \<noteq> (Panic, m')" for rnd k m m'
    using SignWithKey_not_Panic [OF assms] by (metis fst_conv)
  have "ir_bResolve c now name b \<noteq> Panic" for now name b using assms by (simp add: calm_def)
  then show ?thesis
    using sub sign by (auto simp: handleQuery_def Let_def HasKeys_def split: result.splits prod.splits option.splits)
qed

lemma handleResolution_not_Panic: "fst (handleResolution c i msg s) \<noteq> Panic"
  by (auto simp: handleResolution_def Let_def split: result.splits option.splits)

lemma handleEvent_not_Panic: "calm c \<Longrightarrow> fst (handleEvent c i ev s) \<noteq> Panic"
  by (simp add: handleEvent_def dispatch_def return_io_def handleQuery_not_Panic handleResolution_not_Panic
      split: result.split)

lemma call_all_not_Panic:
  assumes "\<And>x s. fst (run x ev s) \<noteq> Panic"
  shows "fst (call_all run ev xs s) \<noteq> Panic"
proof (induction xs arbitrary: s)
  case (Cons x xs)
  have "run x ev s \<noteq> (Panic, s')" for s' using assms by (metis fst_conv)
  with Cons show ?case by (auto simp: bind_io_def split: prod.split result.split)
qed (simp add: return_io_def)

lemma evm_Emit_not_Panic:
  assumes "calm c"
  shows "fst (evm_Emit c i n data res s) \<noteq> Panic"
proof -
  have sign: "SignWithKey (ir_env c) rnd k m \<noteq> (Panic, m')" for rnd k m m'
    using SignWithKey_not_Panic [OF assms] by (metis fst_conv)
  have "ir_publish c t d w \<noteq> (Panic, w')" for t d w w' using assms unfolding calm_def by (metis fst_conv)
  with sign show ?thesis
    by (auto simp: evm_Emit_def Emit_def HasKeys_def fail_io_def bind_io_def read_io_def Message_ToJson_def Let_def
        split: prod.split result.split option.split)
qed

section \<open>Properties\<close>

text \<open>
  C14: the references of the state are valid.  In every reachable state of the resolver a cached resource is under its
  own address, and its index is the one of the event manager that was made for that address, with exactly the
  two callbacks that the subscriptions of the resource cancel; no two addresses share a manager; and the
  messages that wait to be sent are answers with valid signatures.
\<close>

theorem references_valid:
  assumes "ipfs_reachable c s" and "cdata (resourceCache s) a = Some r" and "res = cvalue r"
  shows "Addr (res_addr res) = a \<and> res_evm res < length (managers s)
    \<and> managers s ! res_evm res = manager_of c (sub_id (res_response res)) (sub_id (res_request res)) (res_addr res)
    \<and> (\<forall>a' r'. cdata (resourceCache s) a' = Some r' \<and> res_evm (cvalue r') = res_evm res \<longrightarrow> a' = a)
    \<and> (\<forall>m \<in> set (sending s). mType m = QueryNameResponse \<and> Message_VerifySignature (ir_env c) m = Ok ()
         \<and> (\<exists>q. mPayload m = Some (QueryPayload q)))"
proof -
  have ok: "resources_ok c (managers s) (resourceCache s)" and sent: "\<forall>m \<in> set (sending s). answer_ok c m"
    using reachable_typed [OF assms(1)] by (simp_all add: ipfs_typed_def)
  have res: "resource_ok c (managers s) a res" using ok assms(2,3) by (simp add: resources_ok_def)
  have "a' = a" if "cdata (resourceCache s) a' = Some r'" "res_evm (cvalue r') = res_evm res" for a' r'
    using resource_ok_apart [OF _ res that(2)] ok that(1) unfolding resources_ok_def by blast
  with res sent show ?thesis by (auto simp: resource_ok_def answer_ok_def)
qed

theorem references_valid_witness:
  "\<exists>r. cdata (resourceCache state_B1) (Addr sample_address) = Some r
    \<and> managers state_B1 ! res_evm (cvalue r)
        = manager_of (sample_config ''B'') (sub_id (res_response (cvalue r))) (sub_id (res_request (cvalue r))) (res_addr (cvalue r))"
proof -
  obtain res where "cache_Get 1 (Addr sample_address) (resourceCache state_B1) = Ok (Some res)"
    using state_B1_ready by blast
  then obtain r where "cdata (resourceCache state_B1) (Addr sample_address) = Some r"
    by (auto simp: cache_Get_def split: option.splits)
  with references_valid [OF state_B1_reachable this refl] show ?thesis by blast
qed

text \<open>
  C23: no message stops the program.  When the backend, the network and the signing return, with whatever errors,
  then handling any message that any peer publishes, and sending any answer, returns: neither panics.
\<close>

theorem network_message_safe:
  assumes "calm c"
  shows "fst (receive c i ord k from data s) \<noteq> Panic \<and> fst (sendResolution c i msg s) \<noteq> Panic"
proof
  have "fst (call_all (\<lambda>_. handleEvent c i) ev xs s) \<noteq> Panic" for ev and xs :: "unit list"
    by (rule call_all_not_Panic) (rule handleEvent_not_Panic [OF assms])
  then show "fst (receive c i ord k from data s) \<noteq> Panic"
    by (auto simp: receive_def loopOperation_def return_io_def Let_def split: result.split)
  have sub: "ipfs_Subscribe c i a s1 \<noteq> (Panic, s2)" for a s1 s2
    using ipfs_subscribe_not_Panic [OF assms] by (metis fst_conv ipfs_Subscribe_def)
  have "evm_Emit c i n data res s1 \<noteq> (Panic, s2)" for n data res s1 s2
    using evm_Emit_not_Panic [OF assms] by (metis fst_conv)
  with sub show "fst (sendResolution c i msg s) \<noteq> Panic"
    by (auto simp: sendResolution_def Message_ToJson_def split: prod.split result.split bool.split)
qed

theorem network_message_safe_witness:
  "fst (receive (sample_config ''B'') (sample_input 2) (\<lambda>xs. xs) 0 ''C'' [1, 2, 3] state_B1) \<noteq> Panic"
proof -
  have "memory_Resolve now name b \<noteq> Panic" for now name b
    by (auto simp: memory_Resolve_def split: result.splits option.splits)
  moreover have "ecdsa_sign sample_env rnd k d \<noteq> Panic" for rnd k d by (simp add: sample_env_def)
  ultimately have "calm (sample_config ''B'')" unfolding calm_def by (simp add: sample_config_def)
  from network_message_safe [OF this] show ?thesis by blast
qed

end
