(* ===== verification/DagPeer.thy ===== *)
theory DagPeer
  imports IpfsTypes NameBackends
begin

text \<open>
  A \<open>Dag\<close> on the resolver over the network: what the owner of an address writes at one peer, and what another
  peer reads of it after it has asked the network for the names.
\<close>

section \<open>The structure\<close>

text \<open>
  \<open>NewDag(nameSpace, store, ipfsResolver)\<close>: any content-addressed store, with the resolver; an operation of the \<open>Dag\<close>
  reads the clock once, and \<open>polls\<close> are what the loop of a query sees.  What a query leaves behind in the resolver
  is not kept within the operation; \<open>DagIo\<close> has the operations that keep it and shows that it makes no difference.
\<close>

definition peer_dag :: "string \<Rightarrow> (bytes \<Rightarrow> (string \<Rightarrow> string) option \<Rightarrow> (string \<times> string, 'd) io) \<Rightarrow>
    (string \<Rightarrow> 'd \<Rightarrow> reader result) \<Rightarrow> ('b, 'n) ipfs_config \<Rightarrow> input \<Rightarrow> (time \<times> Message memoryCache) list \<Rightarrow>
    ('d \<times> ('b, 'n) ipfs) dag" where
  "peer_dag ns put get c i polls = \<lparr>nameSpace = ns, dag_env = ir_env c,
     dt_Put = (\<lambda>b pf (d, s). case put b pf d of (r, d') \<Rightarrow> (r, (d', s))),
     dt_Get = (\<lambda>k (d, s). get k d),
     rs_Resolve = (\<lambda>n (d, s). fst (ipfs_Resolve c i polls n s)),
     rs_Add = (\<lambda>n v (d, s). case ipfs_Add c i n v s of (r, s') \<Rightarrow> (r, (d, s'))),
     rs_Manage = (\<lambda>a (d, s). case ipfs_Manage c i a s of (r, s') \<Rightarrow> (r, (d, s')))\<rparr>"

lemma peer_dag_sel:
  "nameSpace (peer_dag ns put get c i polls) = ns" "dag_env (peer_dag ns put get c i polls) = ir_env c"
  "dt_Put (peer_dag ns put get c i polls) b pf (d, s) = (case put b pf d of (r, d') \<Rightarrow> (r, (d', s)))"
  "dt_Get (peer_dag ns put get c i polls) k (d, s) = get k d"
  "rs_Resolve (peer_dag ns put get c i polls) n (d, s) = fst (ipfs_Resolve c i polls n s)"
  "rs_Add (peer_dag ns put get c i polls) n v (d, s) = (case ipfs_Add c i n v s of (r, s') \<Rightarrow> (r, (d, s')))"
  by (simp_all add: peer_dag_def)

text \<open>So the operations are those of the code where they ask for managed and cached names only.\<close>

lemma resolve_without_query:
  assumes "getQueryNameRequestFromName (ir_env c) n = Ok rec"
    and "isManaged (i_now i) rec s \<or> getFromCache (i_now i) (GetID (ir_env c) rec) (resolutionCache s) = Ok m"
  shows "snd (ipfs_Resolve c i polls n s) = s"
  using assms by (auto simp: ipfs_Resolve_def bind_io_def return_io_def)

section \<open>Names at one moment\<close>

text \<open>Subscribing, emitting and asking do not look at the backend.\<close>

lemma ipfs_subscribe_backend:
  "ipfs_subscribe c i a (s\<lparr>backend := b\<rparr>) = (case ipfs_subscribe c i a s of (r, s') \<Rightarrow> (r, s'\<lparr>backend := b\<rparr>))"
  by (simp add: ipfs_subscribe_def Let_def split: result.split option.split prod.split)

lemma evm_Emit_backend:
  "evm_Emit c i n data res (s\<lparr>backend := b\<rparr>) = (case evm_Emit c i n data res s of (r, s') \<Rightarrow> (r, s'\<lparr>backend := b\<rparr>))"
  by (simp add: evm_Emit_def split: prod.split)

lemma query_send_backend:
  "query_send c i rec (s\<lparr>backend := b\<rparr>) = (case query_send c i rec s of (r, s') \<Rightarrow> (r, s'\<lparr>backend := b\<rparr>))"
  by (simp add: query_send_def ipfs_Subscribe_def bind_io_def read_io_def ipfs_subscribe_backend evm_Emit_backend
      split: prod.split result.split)

lemma ipfs_Resolve_backend:
  assumes "getQueryNameRequestFromName (ir_env c) n = Ok rec"
  shows "fst (ipfs_Resolve c i polls n (s\<lparr>backend := b\<rparr>)) =
    (if isManaged (i_now i) rec s then ir_bResolve c (i_now i) n b else fst (ipfs_Resolve c i polls n s))"
  using assms
  by (auto simp: ipfs_Resolve_def isManaged_def query_def bind_io_def return_io_def read_io_def query_send_backend
      split: prod.split result.split option.split)

text \<open>On a backend that is a table of names, so is the resolver.\<close>

lemma ipfs_Add_eq:
  assumes "ipfs_Add c i n v s = (r, s')"
  shows "(s' = s \<and> \<not> is_ok r) \<or>
    (\<exists>rec b. getQueryNameRequestFromName (ir_env c) n = Ok rec \<and> isManaged (i_now i) rec s
       \<and> ir_bAdd c (i_now i) n v (backend s) = (r, b) \<and> s' = s\<lparr>backend := b\<rparr>)"
proof (cases "\<exists>rec. getQueryNameRequestFromName (ir_env c) n = Ok rec \<and> isManaged (i_now i) rec s")
  case True
  then obtain rec where rec: "getQueryNameRequestFromName (ir_env c) n = Ok rec" "isManaged (i_now i) rec s" by blast
  obtain q b where q: "ir_bAdd c (i_now i) n v (backend s) = (q, b)" by fastforce
  with rec assms have "r = q" "s' = s\<lparr>backend := b\<rparr>" by (simp_all add: ipfs_Add_def)
  with rec q show ?thesis by blast
next
  case False
  then show ?thesis using assms by (cases "getQueryNameRequestFromName (ir_env c) n") (auto simp: ipfs_Add_def)
qed

lemma ipfs_names:
  assumes "name_table (ir_bResolve c (i_now i)) (ir_bAdd c (i_now i))"
  shows "name_table (\<lambda>n s. fst (ipfs_Resolve c i polls n s)) (ipfs_Add c i)"
proof -
  note table = name_table.resolve_add_cases [OF assms]
  have eq: "fst (ipfs_Resolve c i polls n' s') = (if n' = n \<and> is_ok r then Ok v else fst (ipfs_Resolve c i polls n' s))"
    if add: "ipfs_Add c i n v s = (r, s')" for n v s r s' n'
    using ipfs_Add_eq [OF add]
  proof (elim disjE exE conjE)
    fix rec b
    assume 2: "getQueryNameRequestFromName (ir_env c) n = Ok rec" "isManaged (i_now i) rec s"
      "ir_bAdd c (i_now i) n v (backend s) = (r, b)" "s' = s\<lparr>backend := b\<rparr>"
    show ?thesis
    proof (cases "getQueryNameRequestFromName (ir_env c) n'")
      case (Ok rec')
      have "fst (ipfs_Resolve c i polls n' s) = ir_bResolve c (i_now i) n' (backend s)" if "isManaged (i_now i) rec' s"
        using Ok that by (simp add: ipfs_Resolve_def)
      then show ?thesis
        using 2(1,2) table [OF 2(3), of n'] Ok unfolding 2(4) ipfs_Resolve_backend [OF Ok] by auto
    qed (use 2(1) in \<open>auto simp: ipfs_Resolve_def\<close>)
  qed simp
  show ?thesis by unfold_locales (auto simp: eq)
qed

text \<open>The parts of such a \<open>Dag\<close>: a content-addressed store and a backend of names.\<close>

locale dag_peer =
  store: data_store put get cid + table: name_table "ir_bResolve c (i_now i)" "ir_bAdd c (i_now i)"
  for put :: "bytes \<Rightarrow> (string \<Rightarrow> string) option \<Rightarrow> (string \<times> string, 'd) io"
    and get :: "string \<Rightarrow> 'd \<Rightarrow> reader result" and cid :: "bytes \<Rightarrow> string"
    and c :: "('b, 'n) ipfs_config" and i :: input +
  assumes cid_text: "CHR ''/'' \<notin> set (cid b)"

sublocale dag_peer \<subseteq> net: name_table "\<lambda>n s. fst (ipfs_Resolve c i polls n s)" "ipfs_Add c i" for polls
  by (rule ipfs_names) unfold_locales

sublocale dag_peer \<subseteq> on_peer: dag_writer "peer_dag ns put get c i polls" cid for ns polls
proof
  let ?da = "peer_dag ns put get c i polls"
  note sel = peer_dag_sel
  fix w w' :: "'d \<times> ('b, 'n) ipfs" and r :: "unit result" and rp :: "(string \<times> string) result"
    and b k p k' n v n' pf
  obtain d s d' s' where w: "w = (d, s)" "w' = (d', s')" by fastforce
  show "dt_Put ?da b pf w = (Ok (k, p), w') \<Longrightarrow> k = cid b"
    using store.put_key by (auto simp: sel w split: prod.splits)
  show "dt_Put ?da b pf w = (Ok (k, p), w') \<Longrightarrow> dt_Get ?da k w' = Ok (Reader b None)"
    using store.get_put by (auto simp: sel w split: prod.splits)
  show "dt_Put ?da b pf w = (rp, w') \<Longrightarrow> k' \<noteq> cid b \<Longrightarrow> dt_Get ?da k' w' = dt_Get ?da k' w"
    using store.get_put_other by (auto simp: sel w split: prod.splits)
  show "dt_Put ?da b pf w = (rp, w') \<Longrightarrow> \<not> is_ok rp \<Longrightarrow> dt_Get ?da k' w' = dt_Get ?da k' w"
    using store.get_put_failed by (auto simp: sel w split: prod.splits)
  show "rs_Add ?da n v w = (Ok (), w') \<Longrightarrow> rs_Resolve ?da n w' = Ok v"
    using net.resolve_add by (auto simp: sel w split: prod.splits)
  show "rs_Add ?da n v w = (r, w') \<Longrightarrow> n' \<noteq> n \<Longrightarrow> rs_Resolve ?da n' w' = rs_Resolve ?da n' w"
    using net.resolve_add_other by (auto simp: sel w split: prod.splits)
  show "rs_Add ?da n v w = (r, w') \<Longrightarrow> \<not> is_ok r \<Longrightarrow> rs_Resolve ?da n' w' = rs_Resolve ?da n' w"
    using net.resolve_add_failed by (auto simp: sel w split: prod.splits)
  show "dt_Put ?da b pf w = (rp, w') \<Longrightarrow> rs_Resolve ?da n w' = rs_Resolve ?da n w"
    by (auto simp: sel w split: prod.splits)
  show "rs_Add ?da n v w = (r, w') \<Longrightarrow> dt_Get ?da k w' = dt_Get ?da k w"
    by (auto simp: sel w split: prod.splits)
  show "CHR ''/'' \<notin> set (cid b)" by (rule cid_text)
qed

text \<open>On the backend in memory, with the store in memory.\<close>

interpretation memory_peer: dag_peer "local_Put E" local_Get "hexHash E"
    "c\<lparr>ir_bAdd := memory_Add, ir_bResolve := memory_Resolve\<rparr>" i
  for E and c :: "(string memoryCache, 'n) ipfs_config" and i
  by unfold_locales
    (auto simp: memory_Add_def memory_Resolve_def cache_Add_def AddWithTTL_def cache_Get_def IsExpired_def)

section \<open>Names at all later times\<close>

text \<open>What is said of the resolver after a write: the backend gives the value for the name at any time.\<close>

definition names_kept :: "('b, 'n) ipfs_config \<Rightarrow> ('b \<Rightarrow> bool) \<Rightarrow> string \<Rightarrow> string \<Rightarrow> 'd \<Rightarrow> ('b, 'n) ipfs \<Rightarrow> 'd \<times> ('b, 'n) ipfs \<Rightarrow> bool" where
  "names_kept c ready name v d s = (\<lambda>(d', s'). d' = d
     \<and> (\<exists>b. s' = s\<lparr>backend := b\<rparr> \<and> ready b \<and> (\<forall>t. ir_bResolve c t name b = Ok v)))"

lemma addResolution_keeps:
  "(\<And>n. keeps P (rs_Add da n key)) \<Longrightarrow> keeps P (addResolutionForNodeBranches da node key bs)"
  by (induction bs) (auto intro!: keeps_intros)

lemma names_kept_add:
  assumes laws: "\<And>t t'. name_backend (ir_bAdd c t) (ir_bResolve c t') named ready" and "named name"
  shows "keeps (names_kept c ready name v d s) (rs_Add (peer_dag ns put get c i polls) n v)"
proof -
  have "names_kept c ready name v d s (d1, s2)" if kept: "names_kept c ready name v d s (d1, s1)" and add: "ipfs_Add c i n v s1 = (r, s2)"
    for d1 s1 s2 r
    using ipfs_Add_eq [OF add]
  proof (elim disjE exE conjE)
    fix rec b
    assume b: "ir_bAdd c (i_now i) n v (backend s1) = (r, b)" and s2: "s2 = s1\<lparr>backend := b\<rparr>"
    obtain b1 where s1: "s1 = s\<lparr>backend := b1\<rparr>" "d1 = d" and r1: "ready b1" and v: "\<And>t. ir_bResolve c t name b1 = Ok v"
      using kept by (auto simp: names_kept_def)
    note b = b [unfolded s1(1), simplified]
    have "ready b" by (rule name_backend.ready_add [OF laws r1 b])
    moreover have "ir_bResolve c t name b = Ok v" for t
      using name_backend.resolve_other [OF laws r1 b] name_backend.resolve_failed [OF laws r1 b]
        name_backend.resolve_add [OF laws r1 \<open>named name\<close>] b v
      by (cases "n = name"; cases r) auto
    ultimately show ?thesis using s1 unfolding s2 by (auto simp: names_kept_def)
  qed (use kept in simp)
  then show ?thesis by (auto simp: keeps_def peer_dag_def split: prod.splits)
qed

lemma peer_saveNode:
  fixes c :: "('b, 'n) ipfs_config" and ns put get i polls
  defines "da \<equiv> peer_dag ns put get c i polls"
  assumes store: "data_store put get cid"
    and laws: "\<And>t t'. name_backend (ir_bAdd c t) (ir_bResolve c t') named ready"
    and named: "\<And>n. is_name (ir_env c) n \<Longrightarrow> named n" and ready: "ready (backend s)"
    and save: "saveNode da node rk (d, s) = (Ok key, (d', s'))"
  shows "\<exists>br b js. getNodeByKey da rk (d, s) = Ok (Some br) \<and> s' = s\<lparr>backend := b\<rparr>
    \<and> (\<forall>t. ir_bResolve c t (getLastNodeName da br rk (nBranch node)) b = Ok key)
    \<and> ToJson node = Ok js \<and> key = cid js \<and> get key d' = Ok (Reader js None) \<and> (\<forall>k. k \<noteq> key \<longrightarrow> get k d' = get k d)"
proof -
  obtain br js pf p d1 w1 w2 where br: "getNodeByKey da rk (d, s) = Ok (Some br)" and js: "ToJson node = Ok js"
    and put: "dt_Put da js pf (d, s) = (Ok (key, p), (d1, w1))"
    and add: "rs_Add da (getLastNodeName da br rk (nBranch node)) key (d1, w1) = (Ok (), w2)"
    and names: "addResolutionForNodeBranches da node key (nBranches node) w2 = (Ok (), (d', s'))"
    using save by (auto simp: saveNode_def bind_io_eq_Ok split: option.splits)
  let ?n = "getLastNodeName da br rk (nBranch node)"
  have put': "put js pf d = (Ok (key, p), d1)" "w1 = s" using put by (auto simp: da_def peer_dag_sel split: prod.splits)
  obtain s2 where w2: "w2 = (d1, s2)" and add': "ipfs_Add c i ?n key s = (Ok (), s2)"
    using add by (auto simp: da_def peer_dag_sel put'(2) split: prod.splits)
  obtain rec b where b: "getQueryNameRequestFromName (ir_env c) ?n = Ok rec" "ir_bAdd c (i_now i) ?n key (backend s) = (Ok (), b)"
    and s2: "s2 = s\<lparr>backend := b\<rparr>"
    using ipfs_Add_eq [OF add'] by auto
  have n: "named ?n" by (rule named) (use b(1) in \<open>simp add: is_name_def\<close>)
  have "names_kept c ready ?n key d1 s w2"
    using name_backend.ready_add [OF laws ready b(2)] name_backend.resolve_add [OF laws ready n b(2)]
    by (auto simp: names_kept_def w2 s2)
  then have kept: "names_kept c ready ?n key d1 s (d', s')"
    by (rule keepsD [OF addResolution_keeps _ names, rotated])
      (unfold da_def, rule names_kept_add [OF laws n [unfolded da_def]])
  then show ?thesis
    using br js data_store.put_key [OF store put'(1)] data_store.get_put [OF store put'(1)]
      data_store.get_put_other [OF store put'(1)]
    by (auto simp: names_kept_def)
qed

section \<open>Reading at another peer\<close>

text \<open>Nodes are read from the store alone.\<close>

lemma peer_getNode:
  "getNodeByKey (peer_dag ns put get c i polls) k (d, s) = getNodeByKey (peer_dag ns' put' get c' i' polls') k (d, s')"
  by (simp add: getNodeByKey_def peer_dag_sel)

lemma peer_head_name:
  "getLastNodeName (peer_dag ns put get c i polls) n k b = getLastNodeName (peer_dag ns put' get' c' i' polls') n k b"
  by (simp add: getLastNodeName_def getName_def peer_dag_sel)

lemma peer_GetLast:
  assumes "getNodeByKey (peer_dag ns put get c i polls) rk (d, s) = Ok (Some br)" and "b \<noteq> ''''"
    and "fst (ipfs_Resolve c i polls (getLastNodeName (peer_dag ns put get c i polls) br rk b) s) = Ok key"
    and "getNodeByKey (peer_dag ns put get c i polls) key (d, s) = Ok (Some n)"
  shows "GetLast (peer_dag ns put get c i polls) rk b (d, s) = Ok (Some n, key)"
  using assms by (simp add: GetLast_iff peer_dag_sel)

lemma peer_node_kept:
  assumes "getNodeByKey (peer_dag ns put get c i polls) k (d, s) = Ok (Some n)"
    and "get key d' = Ok (Reader js None)" and "\<And>k. k \<noteq> key \<Longrightarrow> get k d' = get k d"
    and "\<And>b. get key d = Ok (Reader b None) \<Longrightarrow> b = js"
  shows "getNodeByKey (peer_dag ns put get c' i' polls') k (d', s') = Ok (Some n)"
proof (cases "k = key")
  case True
  obtain b where "get k d = Ok (Reader b None)"
    using getNodeByKey_OkD [OF assms(1)] by (auto simp: peer_dag_sel)
  with True assms(2,4) have "get k d' = get k d" by simp
  with assms(1) show ?thesis by (simp add: getNodeByKey_def peer_dag_sel)
qed (use assms(1,3) in \<open>simp add: getNodeByKey_def peer_dag_sel\<close>)

text \<open>
  C2: what is posted at one peer is read at another.  The owner appends a node with a \<open>Dag\<close> on the resolver over the
  network, on any content-addressed store and any backend of names.  Another peer on the same store and
  network that knows nothing of the branch asks for the name of its head; the owner's resolver answers; and \<open>GetLast\<close>
  of the other peer returns the appended node and its key.
\<close>

theorem append_read_across_network:
  fixes cA :: "('a, bus) ipfs_config" and cB :: "('b, bus) ipfs_config" and ns put get i pollsA polls iB3
  defines "da \<equiv> peer_dag ns put get cA i pollsA" and "db \<equiv> peer_dag ns put get cB iB3 polls"
  assumes peers: "two_peers E kA kB cA cB" and ord: "\<And>z. ord [z] = [z]"
    and times: "utf8_valid (i_ts iB)" "utf8_valid (i_ts iA)" "utf8_valid (i_ts iA2)" "0 < i_now iB" "0 < i_now iB2"
    and store: "data_store put get cid" and keys: "\<And>b. utf8_valid (cid b)"
    and laws: "\<And>t t'. name_backend (ir_bAdd cA t) (ir_bResolve cA t') named ready"
    and named: "\<And>n. is_name E n \<Longrightarrow> named n" and ready: "ready (backend sA0)"
    and owner: "ipfs_reachable cA sA0" "cdata (resourceCache sA0) (nAddress br) = Some r"
      "\<And>t. \<not> IsExpired t r" "signer_ok E k (res_addr (cvalue r))"
    and append: "dag_Append da node rk (d, sA0) = (Ok key, (d', sA))" "getNodeByKey da rk (d, sA0) = Ok (Some br)" "node_ok node"
      "\<And>js b. ToJson node = Ok js \<Longrightarrow> get (cid js) d = Ok (Reader b None) \<Longrightarrow> b = js"
    and name: "getQueryNameRequestFromName E (getLastNodeName da br rk (nBranch node)) = Ok rec"
      "mAddress rec = nAddress br" "utf8_valid (getLastNodeName da br rk (nBranch node))"
    and asker: "cache_Get (i_now iB) (mAddress rec) (resourceCache sB) = Ok None"
      "cache_Get (i_now iB2) (GetID E rec) (resolutionCache sB) = Ok None"
      "alive (i_now iB2) (defaultTTL (resolutionCache sB)) (i_now iB3)" "defaultTTL (resourceCache sB) = 0"
  shows "\<exists>answer sB2. asked_across cA cB ord iB iA iA2 iB2 (res_evm (cvalue r)) rec sA sB answer sB2
    \<and> GetLast db rk (nBranch node) (d', sB2) = Ok (Some node, key)"
proof -
  let ?n = "getLastNodeName da br rk (nBranch node)" and ?res = "cvalue r"
  have env: "ir_env cA = E" "ir_env cB = E" using peers by (simp_all add: two_peers_def)
  have b: "nBranch node \<noteq> ''''" and save: "saveNode da node rk (d, sA0) = (Ok key, (d', sA))"
    using append(1) by (auto simp: dag_Append_Ok authentic_def)
  obtain ba js where sA: "sA = sA0\<lparr>backend := ba\<rparr>" and v: "\<And>t. ir_bResolve cA t ?n ba = Ok key"
    and js: "ToJson node = Ok js" "key = cid js" "get key d' = Ok (Reader js None)" "\<And>k. k \<noteq> key \<Longrightarrow> get k d' = get k d"
    using peer_saveNode [OF store laws named [folded env(1)] ready save [unfolded da_def]] append(2)
    unfolding da_def [symmetric] by auto
  note valid = resource_valid [OF owner(1,2), unfolded resource_ok_def]
  have get: "cache_Get t (nAddress br) (resourceCache sA) = Ok (Some ?res)" for t
    using owner(2,3) by (simp add: sA cache_Get_def)
  obtain answer sB2 where run: "asked_across cA cB ord iB iA iA2 iB2 (res_evm ?res) rec sA sB answer sB2"
    and got: "ipfs_Resolve cB iB3 polls ?n sB2 = (Ok key, sB2)"
    using exchange_resolves [where res = ?res and sA = sA and polls = polls and ?u1.0 = "sub_id (res_response ?res)"
        and ?u2.0 = "sub_id (res_request ?res)", OF peers ord times name(1,3) keys [of js, folded js(2)] asker owner(4)]
      valid name(1,2) get v by (auto simp: sA)
  have root: "getNodeByKey db rk (d', sB2) = Ok (Some br)"
    unfolding db_def by (rule peer_node_kept [where get = get, OF append(2) [unfolded da_def] js(3,4) append(4) [OF js(1), folded js(2)]])
  have head: "getNodeByKey db key (d', sB2) = Ok (Some node)"
    using getNodeByKey_stored [of db key "(d', sB2)" js] js(3) decode_node_ToJson [OF append(3) js(1)] by (simp add: db_def peer_dag_sel)
  have "getLastNodeName db br rk (nBranch node) = ?n" unfolding da_def db_def by (rule peer_head_name)
  with got have resolved: "fst (ipfs_Resolve cB iB3 polls (getLastNodeName db br rk (nBranch node)) sB2) = Ok key" by simp
  have "GetLast db rk (nBranch node) (d', sB2) = Ok (Some node, key)"
    using peer_GetLast [OF root [unfolded db_def] b resolved [unfolded db_def] head [unfolded db_def]] unfolding db_def .
  with run show ?thesis by blast
qed

text \<open>
  C19: a reader takes any node for a head.  A peer that does not manage the address of a branch takes from the topic an
  answer for the name of the branch's head that is signed with the key of anyone; then \<open>GetLast\<close> returns the
  node that the answer names as the head of the branch.  Neither the address, nor the signature, nor the place
  of that node in the branch is looked at, so it can be any node of the store.
\<close>

theorem forged_head_read:
  fixes c :: "('b, bus) ipfs_config" and ns put get i2 polls
  defines "db \<equiv> peer_dag ns put get c i2 polls"
  assumes "ir_env c = E"
    and "getNodeByKey db rk (d, s) = Ok (Some br)" and "b \<noteq> ''''" and "getNodeByKey db key (d, s) = Ok (Some n)" and "utf8_valid key"
    and "getQueryNameRequestFromName E (getLastNodeName db br rk b) = Ok rec" and "0 < i_now i"
    and "signer_ok E k (mgr_signer m)" and "utf8_valid ts" and "sender \<noteq> mgr_id (managers s ! j)" and "\<And>z. ord [z] = [z]"
    and "mgr_subs (managers s ! j) QueryNameResponse = Some [x]"
    and "cache_Get (i_now i) (GetID E rec) (resolutionCache s) = Ok None"
    and "alive (i_now i) (defaultTTL (resolutionCache s)) (i_now i2)" and "\<not> isManaged (i_now i2) rec s"
  shows "\<exists>answer js s'. mPublicKey answer = PublicKey (keypair_of k)
    \<and> (\<forall>publish (w :: bus). Emit E publish rnd ts QueryNameResponse
         (bytes_of (render (JObj (message_fields answer)))) m w = publish (getTopicName m) js w)
    \<and> receive c i ord j sender js s = (Ok (), s') \<and> GetLast db rk b (d, s') = Ok (Some n, key)"
proof -
  obtain answer js s' where run: "mPublicKey answer = PublicKey (keypair_of k)"
      "\<forall>publish (w :: bus). Emit E publish rnd ts QueryNameResponse
         (bytes_of (render (JObj (message_fields answer)))) m w = publish (getTopicName m) js w"
      "receive c i ord j sender js s = (Ok (), s')"
    and got: "ipfs_Resolve c i2 polls (getLastNodeName db br rk b) s' = (Ok key, s')"
    using forged_resolution [OF assms(2,7,6,8-16), of rnd polls] by (elim exE conjE) (rule that)
  have "GetLast db rk b (d, s') = Ok (Some n, key)"
    unfolding db_def
  proof (rule peer_GetLast [OF _ assms(4)])
    show "getNodeByKey (peer_dag ns put get c i2 polls) rk (d, s') = Ok (Some br)"
      "getNodeByKey (peer_dag ns put get c i2 polls) key (d, s') = Ok (Some n)"
      using assms(3,5) peer_getNode unfolding db_def by metis+
    show "fst (ipfs_Resolve c i2 polls (getLastNodeName (peer_dag ns put get c i2 polls) br rk b) s') = Ok key"
      using got by (simp add: db_def)
  qed
  with run show ?thesis by blast
qed

end
