(* ===== verification/DagIo.thy ===== *)
theory DagIo
  imports DagPeer
begin

text \<open>
  The operations of \<^verbatim>\<open>dag/dag.go\<close> with a \<open>Resolve\<close> that changes the state: over the network a query subscribes to a topic and
  publishes a message before it waits.  \<open>Dag\<close> has the same operations with a \<open>Resolve\<close> that only reads; here it is shown
  that they give the same results, and leave the same store and names behind.
\<close>

section \<open>The operations\<close>

text \<open>A \<open>Dag\<close>, of which \<open>rs_Resolve\<close> is not used, and \<open>Resolve\<close> with its state.\<close>

record 'w dag_io =
  dg :: "'w dag"
  io_Resolve :: "string \<Rightarrow> (string, 'w) io"

definition resolveNodeKey_io :: "'w dag_io \<Rightarrow> string \<Rightarrow> (string, 'w) io" where
  "resolveNodeKey_io dd name = io_Resolve dd name"

definition resolveLastNodeKey_io :: "'w dag_io \<Rightarrow> Node option \<Rightarrow> string \<Rightarrow> string \<Rightarrow> (string, 'w) io" where
  "resolveLastNodeKey_io dd node branchRootNodeKey branch =
     (case node of
        None \<Rightarrow> read_io (\<lambda>_. Panic)
      | Some node \<Rightarrow> resolveNodeKey_io dd (getLastNodeName (dg dd) node branchRootNodeKey branch))"

definition GetRoot_io :: "'w dag_io \<Rightarrow> string \<Rightarrow> (Node option \<times> string, 'w) io" where
  "GetRoot_io dd addr =
     bind_io (map_error_io translateError (resolveNodeKey_io dd (getRootNodeName (dg dd) addr))) (\<lambda>key.
     bind_io (map_error_io translateError (read_io (getNodeByKey (dg dd) key))) (\<lambda>n. return_io (n, key)))"

definition GetLast_io :: "'w dag_io \<Rightarrow> string \<Rightarrow> string \<Rightarrow> (Node option \<times> string, 'w) io" where
  "GetLast_io dd branchRootNodeKey branch =
     (if branch = '''' then fail_io ErrInvalidBranch
      else
        bind_io (map_error_io translateError (read_io (getNodeByKey (dg dd) branchRootNodeKey))) (\<lambda>branchRootNode.
        bind_io (map_error_io translateError
            (resolveLastNodeKey_io dd branchRootNode branchRootNodeKey branch)) (\<lambda>key.
        read_io (\<lambda>w. case getNodeByKey (dg dd) key w of
          Panic \<Rightarrow> Panic
        | Err er \<Rightarrow> if er = ErrNodeNotFound then Ok (branchRootNode, branchRootNodeKey)
                    else Err (translateError er)
        | Ok fromTipTx \<Rightarrow> Ok (fromTipTx, key)))))"

definition verify_new_io :: "'w dag_io \<Rightarrow> Node \<Rightarrow> Node \<Rightarrow> string \<Rightarrow> (unit, 'w) io" where
  "verify_new_io dd node previous branchRootNodeKey =
     bind_io (map_error_io translateError (read_io (getNodeByKey (dg dd) branchRootNodeKey))) (\<lambda>branchRoot.
     case branchRoot of
       None \<Rightarrow> fail_io ErrBranchRootNotFound
     | Some branchRoot \<Rightarrow>
       if \<not> hasBranch branchRoot (nBranch node) then fail_io ErrInvalidBranch
       else bind_io (map_error_io translateError (GetLast_io dd branchRootNodeKey (nBranch node)))
         (\<lambda>(branchHead, branchHeadKey).
         case branchHead of
           None \<Rightarrow> fail_io ErrHeadNodeNotFound
         | Some branchHead \<Rightarrow>
           if branchHeadKey \<noteq> nPrevious node then fail_io ErrPreviousNodeIsNotHead
           else if branchHeadKey = branchRootNodeKey \<and> nBranch node \<noteq> nBranch branchHead
                   \<and> nSeq node \<noteq> 1 then fail_io ErrInvalidBranchSeq
           else if nBranch node = nBranch previous \<and> nSeq node \<noteq> nSeq previous + 1
                then fail_io ErrInvalidBranchSeq
           else return_io ()))"

definition VerifyNode_io :: "'w dag_io \<Rightarrow> Node \<Rightarrow> string \<Rightarrow> bool \<Rightarrow> (unit, 'w) io" where
  "VerifyNode_io dd node branchRootNodeKey mustBeNew =
     bind_io (read_io (\<lambda>_. verifyAddress (dag_env (dg dd)) node)) (\<lambda>(ok, er).
     if \<not> ok then (case er of None \<Rightarrow> return_io () | Some er \<Rightarrow> fail_io (translateError er))
     else bind_io (read_io (\<lambda>_. verify_self (dag_env (dg dd)) node)) (\<lambda>_ w.
     case getNodeByKey (dg dd) (nPrevious node) w of
       Panic \<Rightarrow> (Panic, w)
     | Err er \<Rightarrow> (if er = ErrNodeNotFound then Err ErrPreviousNodeNotFound else Err (translateError er), w)
     | Ok None \<Rightarrow> (Err ErrPreviousNodeNotFound, w)
     | Ok (Some previous) \<Rightarrow>
         if mustBeNew then verify_new_io dd node previous branchRootNodeKey w else (Ok (), w)))"

definition SetRoot_io :: "'w dag_io \<Rightarrow> Node \<Rightarrow> (string, 'w) io" where
  "SetRoot_io dd rootNode w =
     (if nBranch rootNode = '''' then fail_io ErrInvalidBranch w
      else if \<not> hasBranch rootNode (nBranch rootNode) then fail_io ErrDefaultBranchNotSpecified w
      else (case GetRoot_io dd (nAddress rootNode) w of
          (got, w') \<Rightarrow>
            (let root = (case got of Ok (n, _) \<Rightarrow> n | _ \<Rightarrow> None)
             in if got = Panic then (Panic, w')
                else if got = Err ErrNodeNotFound \<or> root = None then saveRootNode (dg dd) rootNode w'
                else (case got of
                    Err er \<Rightarrow> fail_io (translateError er) w'
                  | _ \<Rightarrow> fail_io ErrDagAlreadyInitialized w'))))"

definition Append_io :: "'w dag_io \<Rightarrow> Node \<Rightarrow> string \<Rightarrow> (string, 'w) io" where
  "Append_io dd node branchRootNodeKey w =
     (case VerifyNode_io dd node branchRootNodeKey True w of
        (Panic, w') \<Rightarrow> (Panic, w')
      | (Err er, w') \<Rightarrow> (Err (translateError er), w')
      | (Ok _, w') \<Rightarrow> saveNode (dg dd) node branchRootNodeKey w')"

text \<open>Each of them resolves one name at most, and changes the state by that alone.\<close>

lemma GetLast_io_state:
  "snd (GetLast_io dd rk b w) = w \<or> (\<exists>br. getNodeByKey (dg dd) rk w = Ok (Some br)
     \<and> snd (GetLast_io dd rk b w) = snd (io_Resolve dd (getLastNodeName (dg dd) br rk b) w))"
proof (cases "b = '''' \<or> (\<nexists>n. getNodeByKey (dg dd) rk w = Ok (Some n))")
  case True
  then show ?thesis
    by (cases "getNodeByKey (dg dd) rk w") (auto simp: GetLast_io_def resolveLastNodeKey_io_def io_defs split: option.split)
next
  case False
  then obtain br where br: "getNodeByKey (dg dd) rk w = Ok (Some br)" "b \<noteq> ''''" by blast
  obtain r w' where res: "io_Resolve dd (getLastNodeName (dg dd) br rk b) w = (r, w')" by fastforce
  show ?thesis
    using br by (cases r) (simp_all add: GetLast_io_def resolveLastNodeKey_io_def resolveNodeKey_io_def res io_defs)
qed

lemma verify_new_io_state:
  "snd (verify_new_io dd node p rk w) = w \<or> (\<exists>br. getNodeByKey (dg dd) rk w = Ok (Some br)
     \<and> snd (verify_new_io dd node p rk w) = snd (io_Resolve dd (getLastNodeName (dg dd) br rk (nBranch node)) w))"
proof (cases "\<exists>br. getNodeByKey (dg dd) rk w = Ok (Some br) \<and> hasBranch br (nBranch node)")
  case True
  then obtain br where br: "getNodeByKey (dg dd) rk w = Ok (Some br)" "hasBranch br (nBranch node)" by blast
  obtain r w' where last: "GetLast_io dd rk (nBranch node) w = (r, w')" by fastforce
  have "snd (verify_new_io dd node p rk w) = w'"
    using br by (cases r) (simp_all add: verify_new_io_def last io_defs split: prod.split option.split)
  then show ?thesis using GetLast_io_state [of dd rk "nBranch node" w] by (simp add: last)
next
  case False
  then show ?thesis
    by (cases "getNodeByKey (dg dd) rk w") (auto simp: verify_new_io_def io_defs split: option.split)
qed

lemma VerifyNode_io_state:
  "snd (VerifyNode_io dd node rk new w) = w \<or> (\<exists>br. getNodeByKey (dg dd) rk w = Ok (Some br)
     \<and> snd (VerifyNode_io dd node rk new w) = snd (io_Resolve dd (getLastNodeName (dg dd) br rk (nBranch node)) w))"
proof (cases "verifyAddress (dag_env (dg dd)) node")
  case (Ok ok)
  then show ?thesis
    using verify_new_io_state [of dd node _ rk w]
    by (cases "verify_self (dag_env (dg dd)) node")
      (auto simp: VerifyNode_io_def io_defs split: prod.split option.split result.split)
qed (simp_all add: VerifyNode_io_def io_defs)

lemma GetRoot_io_state: "snd (GetRoot_io dd a w) = snd (io_Resolve dd (getRootNodeName (dg dd) a) w)"
  by (auto simp: GetRoot_io_def resolveNodeKey_io_def io_defs split: prod.split result.split)

section \<open>Operations that cannot tell two states apart\<close>

text \<open>On states that are related the operation ends alike and leaves related states.\<close>

definition alike :: "('w \<Rightarrow> 'w \<Rightarrow> bool) \<Rightarrow> ('a, 'w) io \<Rightarrow> bool" where
  "alike R m \<longleftrightarrow> (\<forall>w v. R w v \<longrightarrow> fst (m w) = fst (m v) \<and> R (snd (m w)) (snd (m v)))"

lemma alikeD: "alike R m \<Longrightarrow> R w v \<Longrightarrow> fst (m w) = fst (m v) \<and> R (snd (m w)) (snd (m v))"
  unfolding alike_def by blast

named_theorems alike_intros

lemma alike_basic [alike_intros]:
  "alike R (return_io x)" "alike R (fail_io e)" "(\<And>w v. R w v \<Longrightarrow> f w = f v) \<Longrightarrow> alike R (read_io f)"
  by (auto simp: alike_def io_defs)

lemma alike_bind [alike_intros]: "alike R m \<Longrightarrow> (\<And>x. alike R (f x)) \<Longrightarrow> alike R (bind_io m f)"
proof -
  assume m: "alike R m" and f: "\<And>x. alike R (f x)"
  have "fst (bind_io m f w) = fst (bind_io m f v) \<and> R (snd (bind_io m f w)) (snd (bind_io m f v))" if "R w v" for w v
  proof -
    obtain r w' r' v' where runs: "m w = (r, w')" "m v = (r', v')" by fastforce
    have same: "r' = r" "R w' v'" using alikeD [OF m that] by (simp_all add: runs)
    show ?thesis
      using alikeD [OF f same(2)] by (cases r) (simp_all add: bind_io_def runs same)
  qed
  then show ?thesis by (simp add: alike_def)
qed

lemma alike_error [alike_intros]:
  assumes "alike R m"
  shows "alike R (map_error_io g m)"
proof -
  have "fst (map_error_io g m w) = map_error g (fst (m w))" "snd (map_error_io g m w) = snd (m w)" for w
    by (simp_all add: map_error_io_def split: prod.split)
  with assms show ?thesis by (simp add: alike_def)
qed

lemma addResolution_alike [alike_intros]:
  "(\<And>n. alike R (rs_Add da n key)) \<Longrightarrow> alike R (addResolutionForNodeBranches da node key bs)"
  by (induction bs) (auto intro!: alike_intros)

text \<open>The full path looks at nodes alone.\<close>

lemma getFullPath_mono:
  assumes "getFullPath da w k = Some r" and "\<And>k. getNodeByKey da k w = getNodeByKey da k v"
  shows "getFullPath da v k = Some r"
proof -
  define P where "P = (\<lambda>da (w :: 'a) k r. \<forall>v. (\<forall>k. getNodeByKey da k w = getNodeByKey da k v) \<longrightarrow> getFullPath da v k = Some r)"
  have "P da w k r"
  proof (rule getFullPath.raw_induct [OF _ assms(1)])
    fix f and da :: "'a dag" and w k r
    assume hyp: "\<And>da w k r. f da w k = Some r \<Longrightarrow> P da w k r"
      and body: "(if k = '''' then Some (Ok ('''', None))
        else (case getNodeByKey da k w of
            Panic \<Rightarrow> Some Panic
          | Err er \<Rightarrow> Some (Ok ('''', Some er))
          | Ok None \<Rightarrow> Some Panic
          | Ok (Some node) \<Rightarrow>
              if nBranchRoot node = '''' then Some (Ok (getName da (nAddress node) [k], None))
              else Option.bind (f da w (nBranchRoot node)) (\<lambda>r.
                case r of
                  Ok (s, None) \<Rightarrow>
                    if s = '''' then Some (Ok (k, None))
                    else Some (Ok (s @ ''/branches/'' @ nBranch node @ ''/'' @ k, None))
                | Ok (s, Some er) \<Rightarrow> Some (Ok (k, Some er))
                | Err er \<Rightarrow> Some (Err er)
                | Panic \<Rightarrow> Some Panic))) = Some r"
    show "P da w k r"
      unfolding P_def
    proof (intro allI impI)
      fix v
      assume same: "\<forall>k. getNodeByKey da k w = getNodeByKey da k v"
      have rec: "getFullPath da v k' = Some r'" if "f da w k' = Some r'" for k' r'
        using hyp [OF that] same unfolding P_def by blast
      have node: "getNodeByKey da k w = getNodeByKey da k v" using same by blast
      show "getFullPath da v k = Some r"
      proof (cases "\<exists>n. k \<noteq> '''' \<and> getNodeByKey da k v = Ok (Some n) \<and> nBranchRoot n \<noteq> ''''")
        case True
        then obtain n where n: "k \<noteq> ''''" "getNodeByKey da k v = Ok (Some n)" "nBranchRoot n \<noteq> ''''" by blast
        then obtain r' where "f da w (nBranchRoot n) = Some r'"
          using body by (cases "f da w (nBranchRoot n)") (simp_all add: node)
        with rec [OF this] n body show ?thesis by (subst getFullPath.simps) (simp add: node)
      next
        case False
        then show ?thesis
          using body
          by (subst getFullPath.simps, cases "getNodeByKey da k v") (auto simp: node split: if_splits option.splits)
      qed
    qed
  qed
  with assms(2) show ?thesis unfolding P_def by blast
qed

lemma getFullPath_same:
  assumes "\<And>k. getNodeByKey da k w = getNodeByKey da k v"
  shows "getFullPath da w k = getFullPath da v k"
proof (cases "getFullPath da w k")
  case (Some r)
  then show ?thesis using getFullPath_mono [OF Some assms] by simp
next
  case None
  then show ?thesis using getFullPath_mono [of da v k _ w] assms by (cases "getFullPath da v k") auto
qed

section \<open>Any resolver whose state the graph does not see\<close>

text \<open>
  The contract of a \<open>Resolve\<close> with a state: what it returns is what the pure one reads, and the state it leaves
  is related to the one before; related states have the same nodes, and writing does not tell them apart.
\<close>

locale unseen_resolve =
  fixes dd :: "'w dag_io" and R :: "'w \<Rightarrow> 'w \<Rightarrow> bool"
  assumes resolve_result: "fst (io_Resolve dd n w) = rs_Resolve (dg dd) n w"
    and resolve_state: "R w (snd (io_Resolve dd n w))"
    and same_state: "R w w"
    and same_nodes: "R w v \<Longrightarrow> dt_Get (dg dd) k w = dt_Get (dg dd) k v"
    and put_alike: "alike R (dt_Put (dg dd) b pf)"
    and add_alike: "alike R (rs_Add (dg dd) n v')"
begin

lemma getNode_alike: "R w v \<Longrightarrow> getNodeByKey (dg dd) k w = getNodeByKey (dg dd) k v"
  by (simp add: getNodeByKey_def same_nodes)

lemma getFullPath_alike: "R w v \<Longrightarrow> getFullPath (dg dd) w k = getFullPath (dg dd) v k"
  by (rule getFullPath_same) (rule getNode_alike)

lemma saveNode_alike: "alike R (saveNode (dg dd) node rk)"
  unfolding saveNode_def
  by (auto intro!: alike_intros getNode_alike put_alike add_alike simp: getFullPath_alike split: option.split prod.split)

lemma saveRootNode_alike: "alike R (saveRootNode (dg dd) node)"
  unfolding saveRootNode_def
  by (auto intro!: alike_intros put_alike add_alike split: prod.split)

text \<open>The readings give what the pure ones give, and leave a related state.\<close>

lemma GetRoot_reads: "fst (GetRoot_io dd a w) = GetRoot (dg dd) a w \<and> R w (snd (GetRoot_io dd a w))"
proof -
  let ?n = "getRootNodeName (dg dd) a"
  obtain r w' where res: "io_Resolve dd ?n w = (r, w')" by fastforce
  have "r = rs_Resolve (dg dd) ?n w" "R w w'" using resolve_result [of ?n w] resolve_state [of w ?n] by (simp_all add: res)
  then show ?thesis
    using getNode_alike
    by (cases r) (auto simp: GetRoot_io_def GetRoot_def resolveNodeKey_io_def resolveRootNodeKey_def res io_defs split: prod.split result.split)
qed

lemma GetLast_reads: "fst (GetLast_io dd rk b w) = GetLast (dg dd) rk b w \<and> R w (snd (GetLast_io dd rk b w))"
proof (cases "b = '''' \<or> (\<nexists>n. getNodeByKey (dg dd) rk w = Ok (Some n))")
  case True
  then show ?thesis
    using same_state
    by (cases "getNodeByKey (dg dd) rk w")
      (auto simp: GetLast_io_def GetLast_def resolveLastNodeKey_io_def resolveLastNodeKey_def io_defs split: option.split)
next
  case False
  then obtain br where br: "getNodeByKey (dg dd) rk w = Ok (Some br)" "b \<noteq> ''''" by blast
  let ?n = "getLastNodeName (dg dd) br rk b"
  obtain r w' where res: "io_Resolve dd ?n w = (r, w')" by fastforce
  have r: "r = rs_Resolve (dg dd) ?n w" "R w w'" using resolve_result [of ?n w] resolve_state [of w ?n] by (simp_all add: res)
  have "getNodeByKey (dg dd) k w' = getNodeByKey (dg dd) k w" for k using getNode_alike [OF r(2)] by simp
  then show ?thesis
    using r(1) [symmetric] r(2) br
    by (cases r) (simp_all add: GetLast_io_def GetLast_def resolveLastNodeKey_io_def resolveLastNodeKey_def resolveNodeKey_io_def res io_defs)
qed

lemma verify_new_reads:
  "fst (verify_new_io dd node p rk w) = verify_new (dg dd) node p rk w \<and> R w (snd (verify_new_io dd node p rk w))"
proof -
  obtain r w' where last: "GetLast_io dd rk (nBranch node) w = (r, w')" by fastforce
  have r: "GetLast (dg dd) rk (nBranch node) w = r" "R w w'" using GetLast_reads [of rk "nBranch node" w] by (simp_all add: last)
  show ?thesis
  proof (cases "getNodeByKey (dg dd) rk w")
    case (Ok br)
    then show ?thesis
      using r same_state
      by (cases br; cases r) (auto simp: verify_new_io_def verify_new_def last io_defs split: prod.split option.split)
  qed (use same_state in \<open>simp_all add: verify_new_io_def verify_new_def io_defs\<close>)
qed

lemma VerifyNode_reads:
  "fst (VerifyNode_io dd node rk new w) = VerifyNode (dg dd) node rk new w \<and> R w (snd (VerifyNode_io dd node rk new w))"
proof (cases "verifyAddress (dag_env (dg dd)) node")
  case (Ok ok)
  then show ?thesis
    using verify_new_reads [of node _ rk w] same_state
    by (cases "verify_self (dag_env (dg dd)) node")
      (auto simp: VerifyNode_io_def VerifyNode_def io_defs split: prod.split option.split result.split)
qed (use same_state in \<open>simp_all add: VerifyNode_io_def VerifyNode_def io_defs\<close>)

text \<open>The operations that write end like those over the pure resolver, in related states.\<close>

lemma Append_alike:
  "fst (Append_io dd node rk w) = fst (dag_Append (dg dd) node rk w)
    \<and> R (snd (dag_Append (dg dd) node rk w)) (snd (Append_io dd node rk w))"
proof -
  obtain r w' where v: "VerifyNode_io dd node rk True w = (r, w')" by fastforce
  have r: "VerifyNode (dg dd) node rk True w = r" "R w w'" using VerifyNode_reads [of node rk True w] by (simp_all add: v)
  then show ?thesis
    using alikeD [OF saveNode_alike r(2)] by (cases r) (simp_all add: Append_io_def dag_Append_def v)
qed

lemma SetRoot_alike:
  "fst (SetRoot_io dd node w) = fst (SetRoot (dg dd) node w) \<and> R (snd (SetRoot (dg dd) node w)) (snd (SetRoot_io dd node w))"
proof -
  obtain r w' where g: "GetRoot_io dd (nAddress node) w = (r, w')" by fastforce
  have r: "GetRoot (dg dd) (nAddress node) w = r" "R w w'" using GetRoot_reads [of "nAddress node" w] by (simp_all add: g)
  then show ?thesis
    using alikeD [OF saveRootNode_alike r(2), of node] same_state
    by (auto simp: SetRoot_io_def SetRoot_def Let_def g fail_io_def split: result.split prod.split)
qed

end

text \<open>Where resolving changes nothing the operations are the same.\<close>

locale pure_resolve =
  fixes dd :: "'w dag_io"
  assumes resolve_pure: "io_Resolve dd n w = (rs_Resolve (dg dd) n w, w)"

sublocale pure_resolve \<subseteq> unseen_resolve dd "(=)"
  by unfold_locales (simp_all add: resolve_pure alike_def)

context pure_resolve begin

lemma exact:
  "Append_io dd node rk w = dag_Append (dg dd) node rk w" "SetRoot_io dd node w = SetRoot (dg dd) node w"
  "GetLast_io dd rk b w = (GetLast (dg dd) rk b w, w)" "GetRoot_io dd a w = (GetRoot (dg dd) a w, w)"
  using Append_alike [of node rk w] SetRoot_alike [of node w] GetLast_reads [of rk b w] GetRoot_reads [of a w]
  by (simp_all add: prod_eq_iff)

end

text \<open>The resolver in memory.\<close>

definition local_io :: "crypto_env \<Rightarrow> string \<Rightarrow> local_world dag_io" where
  "local_io E ns = \<lparr>dg = NewDag E ns, io_Resolve = (\<lambda>n w. (local_Resolve E n (rs w), w))\<rparr>"

interpretation local_reads: pure_resolve "local_io E ns" for E ns
  by unfold_locales (simp add: local_io_def)

section \<open>On the resolver over the network\<close>

definition peer_io :: "string \<Rightarrow> (bytes \<Rightarrow> (string \<Rightarrow> string) option \<Rightarrow> (string \<times> string, 'd) io) \<Rightarrow>
    (string \<Rightarrow> 'd \<Rightarrow> reader result) \<Rightarrow> ('b, 'n) ipfs_config \<Rightarrow> input \<Rightarrow> (time \<times> Message memoryCache) list \<Rightarrow>
    ('d \<times> ('b, 'n) ipfs) dag_io" where
  "peer_io ns put get c i polls = \<lparr>dg = peer_dag ns put get c i polls,
     io_Resolve = (\<lambda>n (d, s). case ipfs_Resolve c i polls n s of (r, s') \<Rightarrow> (r, (d, s')))\<rparr>"

lemma peer_io_sel [simp]:
  "dg (peer_io ns put get c i polls) = peer_dag ns put get c i polls"
  "io_Resolve (peer_io ns put get c i polls) n (d, s) = (case ipfs_Resolve c i polls n s of (r, s') \<Rightarrow> (r, (d, s')))"
  by (simp_all add: peer_io_def)

text \<open>The same backend and the same managed addresses.\<close>

definition same_names :: "input \<Rightarrow> ('b, 'n) ipfs \<Rightarrow> ('b, 'n) ipfs \<Rightarrow> bool" where
  "same_names i s s' \<longleftrightarrow> backend s' = backend s \<and> (\<forall>rec. isManaged (i_now i) rec s' = isManaged (i_now i) rec s)"

definition same_peer :: "input \<Rightarrow> 'd \<times> ('b, 'n) ipfs \<Rightarrow> 'd \<times> ('b, 'n) ipfs \<Rightarrow> bool" where
  "same_peer i = (\<lambda>(d, s) (d', s'). d' = d \<and> same_names i s s')"

lemma same_names_refl [simp]: "same_names i s s"
  by (simp add: same_names_def)

lemma same_names_trans: "same_names i s s' \<Longrightarrow> same_names i s' s'' \<Longrightarrow> same_names i s s''"
  by (simp add: same_names_def)

text \<open>Subscribing to an address without keys manages nothing new, and a query does no more.\<close>

lemma Subscribe_same_names: "keeps (same_names i s) (ipfs_Subscribe c i a)"
proof -
  have "same_names i s1 s'" if run: "ipfs_Subscribe c i a s1 = (r, s')" for s1 r s'
  proof (cases "\<exists>res. cache_Get (i_now i) a (resourceCache s1) = Ok (Some res)")
    case True
    with run show ?thesis by (auto simp: ipfs_Subscribe_def ipfs_subscribe_def)
  next
    case False
    then have none: "cache_Get (i_now i) a (resourceCache s1) = Ok None" by (auto simp: cache_Get_def split: option.split)
    show ?thesis
    proof (cases "\<exists>(m :: unit manager) n. NewManager (ir_topic c) (ir_peer c) (ir_nameSpace c) (ir_signerAddr c) \<lparr>Keys = None, Addr = a\<rparr> (net s1) = (Ok m, n)")
      case True
      then obtain m :: "unit manager" and n where nm: "NewManager (ir_topic c) (ir_peer c) (ir_nameSpace c) (ir_signerAddr c) \<lparr>Keys = None, Addr = a\<rparr> (net s1) = (Ok m, n)"
        by blast
      obtain sub1 m1 sub2 m2 where on: "manager_On (i_uuid1 i) QueryNameResponse () m = (sub1, m1)"
          "manager_On (i_uuid2 i) QueryNameRequest () m1 = (sub2, m2)"
        by (meson surj_pair)
      define res where "res = \<lparr>res_addr = \<lparr>Keys = None, Addr = a\<rparr>, res_evm = length (managers s1), res_request = sub2, res_response = sub1\<rparr>"
      define rc where "rc = snd (cache_Add (i_now i) a res (resourceCache s1))"
      have rc: "cache_Add (i_now i) a res (resourceCache s1) = (Ok (), rc)"
        by (simp add: rc_def cache_Add_def AddWithTTL_def)
      have res: "\<not> HasKeys (res_addr res)" by (simp add: res_def HasKeys_def)
      have s': "s' = s1\<lparr>net := n, managers := managers s1 @ [m2], resourceCache := rc\<rparr>"
        using run none nm on rc by (simp add: ipfs_Subscribe_def ipfs_subscribe_def res_def)
      have "cache_Get (i_now i) k rc = cache_Get (i_now i) k (resourceCache s1)" if "k \<noteq> a" for k
        using memory_cache.get_add_other [OF rc [unfolded cache_Add_def] that] .
      moreover have "cache_Get (i_now i) a rc = Ok None \<or> cache_Get (i_now i) a rc = Ok (Some res)"
      proof -
        obtain r where "cdata rc a = Some r" "cvalue r = res" using rc by (auto simp: cache_Add_def AddWithTTL_def Let_def)
        then show ?thesis by (simp add: cache_Get_def)
      qed
      ultimately have "isManaged (i_now i) rec s' = isManaged (i_now i) rec s1" for rec
        using none res by (cases "mAddress rec = a") (auto simp: isManaged_def s')
      then show ?thesis by (simp add: same_names_def s')
    next
      case False
      with run none show ?thesis
        by (auto simp: ipfs_Subscribe_def ipfs_subscribe_def same_names_def isManaged_def split: prod.splits result.splits)
    qed
  qed
  then show ?thesis unfolding keeps_def using same_names_trans by blast
qed

lemma Resolve_same_names: "keeps (same_names i s) (ipfs_Resolve c i polls n)"
proof -
  have emit: "keeps (same_names i s) (evm_Emit c i e data res)" for e data res
    by (auto simp: keeps_def evm_Emit_def same_names_def isManaged_def split: prod.splits)
  have sent: "keeps (same_names i s) (\<lambda>s. case evm_Emit c i QueryNameRequest (bytes_of data) res s of
       (Panic, s') \<Rightarrow> (Panic, s') | (Err er, s') \<Rightarrow> (Ok None, s') | (Ok _, s') \<Rightarrow> (Ok (Some key), s'))" for data res key
    using keepsD [OF emit] unfolding keeps_def by (auto split: prod.splits result.splits)
  have query: "keeps (same_names i s) (query c i polls rec)" for rec
    unfolding query_def query_send_def
    by (auto intro!: keeps_intros Subscribe_same_names sent split: option.split)
  show ?thesis
    using keepsD [OF query]
    by (auto simp: keeps_def ipfs_Resolve_def bind_io_def return_io_def split: prod.splits result.splits if_splits)
qed

lemma peer_Add_alike: "alike (same_peer i) (rs_Add (peer_dag ns put get c i polls) n v)"
  by (auto simp: alike_def same_peer_def peer_dag_sel ipfs_Add_def same_names_def isManaged_def split: prod.split result.split)

interpretation peer_reads: unseen_resolve "peer_io ns put get c i polls" "same_peer i"
  for ns and put :: "bytes \<Rightarrow> (string \<Rightarrow> string) option \<Rightarrow> (string \<times> string, 'd) io" and get
    and c :: "('b, 'n) ipfs_config" and i polls
proof
  fix w v :: "'d \<times> ('b, 'n) ipfs" and n k
  obtain d s where w: "w = (d, s)" by fastforce
  show "fst (io_Resolve (peer_io ns put get c i polls) n w) = rs_Resolve (dg (peer_io ns put get c i polls)) n w"
    by (simp add: w peer_dag_sel split: prod.split)
  show "same_peer i w (snd (io_Resolve (peer_io ns put get c i polls) n w))"
    using keepsD [OF Resolve_same_names same_names_refl, of c i polls n s] by (auto simp: w same_peer_def split: prod.split)
  show "same_peer i w w" by (simp add: w same_peer_def)
  show "dt_Get (dg (peer_io ns put get c i polls)) k w = dt_Get (dg (peer_io ns put get c i polls)) k v" if "same_peer i w v"
    using that by (auto simp: same_peer_def peer_dag_sel)
next
  show "alike (same_peer i) (dt_Put (dg (peer_io ns put get c i polls)) b pf)" for b pf
    by (auto simp: alike_def same_peer_def peer_dag_sel split: prod.split)
  show "alike (same_peer i) (rs_Add (dg (peer_io ns put get c i polls)) n v)" for n v
    unfolding peer_io_sel by (rule peer_Add_alike)
qed

text \<open>A name that can be added is managed, and is resolved without a query.\<close>

lemma peer_saveNode_managed:
  assumes "saveNode (peer_dag ns put get c i polls) node rk (d, s) = (Ok key, w')"
  obtains br rec where "getNodeByKey (peer_dag ns put get c i polls) rk (d, s) = Ok (Some br)"
    and "getQueryNameRequestFromName (ir_env c) (getLastNodeName (peer_dag ns put get c i polls) br rk (nBranch node)) = Ok rec"
    and "isManaged (i_now i) rec s"
proof -
  let ?da = "peer_dag ns put get c i polls"
  obtain br js pf p d1 s1 w2 where br: "getNodeByKey ?da rk (d, s) = Ok (Some br)"
    and put: "dt_Put ?da js pf (d, s) = (Ok (key, p), (d1, s1))"
    and add: "rs_Add ?da (getLastNodeName ?da br rk (nBranch node)) key (d1, s1) = (Ok (), w2)"
    using assms by (auto simp: saveNode_def bind_io_eq_Ok split: option.splits)
  have s1: "s1 = s" using put by (auto simp: peer_dag_sel split: prod.splits)
  obtain s2 where "ipfs_Add c i (getLastNodeName ?da br rk (nBranch node)) key s = (Ok (), s2)"
    using add by (auto simp: peer_dag_sel s1 split: prod.splits)
  from ipfs_Add_eq [OF this] that br show thesis by auto
qed

lemma peer_saveRootNode_managed:
  assumes "saveRootNode (peer_dag ns put get c i polls) node (d, s) = (Ok key, w')"
  obtains rec where "getQueryNameRequestFromName (ir_env c) (getRootNodeName (peer_dag ns put get c i polls) (nAddress node)) = Ok rec"
    and "isManaged (i_now i) rec s"
proof -
  let ?da = "peer_dag ns put get c i polls"
  obtain js pf p d1 s1 d2 s2 w3 where put: "dt_Put ?da js pf (d, s) = (Ok (key, p), (d1, s1))"
    and add: "rs_Add ?da (getLastNodeName ?da node key (nBranch node)) key (d1, s1) = (Ok (), (d2, s2))"
    and root: "rs_Add ?da (getRootNodeName ?da (nAddress node)) key (d2, s2) = (Ok (), w3)"
    using assms by (auto simp: saveRootNode_def bind_io_eq_Ok)
  have s1: "s1 = s" using put by (auto simp: peer_dag_sel split: prod.splits)
  have "ipfs_Add c i (getLastNodeName ?da node key (nBranch node)) key s = (Ok (), s2)"
    using add by (auto simp: peer_dag_sel s1 split: prod.splits)
  from ipfs_Add_eq [OF this] obtain b where s2: "s2 = s\<lparr>backend := b\<rparr>" by auto
  obtain s3 where "ipfs_Add c i (getRootNodeName ?da (nAddress node)) key s2 = (Ok (), s3)"
    using root by (auto simp: peer_dag_sel split: prod.splits)
  from ipfs_Add_eq [OF this] that show thesis by (auto simp: s2 isManaged_def)
qed

lemma peer_resolve_managed:
  assumes "getQueryNameRequestFromName (ir_env c) n = Ok rec" and "isManaged (i_now i) rec s"
  shows "snd (io_Resolve (peer_io ns put get c i polls) n (d, s)) = (d, s)"
  using resolve_without_query [of c n rec i s _ polls] assms by (auto split: prod.split)

text \<open>
  C9: what the resolver does while it resolves does not change what the graph does.  On the resolver over
  the network, where \<open>Resolve\<close> may subscribe to a topic and publish a query in the middle of the operation, \<open>Append\<close> and
  \<open>SetRoot\<close> return the result, and leave the store, the backend of names and the managed addresses, of the operations
  whose \<open>Resolve\<close> only reads; when they succeed the whole state is the same, and \<open>GetLast\<close> and \<open>GetRoot\<close> return
  the same.  The hypotheses on the network are none: it may fail, and the query may be answered or not.
\<close>

theorem resolving_unseen:
  fixes ns and put :: "bytes \<Rightarrow> (string \<Rightarrow> string) option \<Rightarrow> (string \<times> string, 'd) io" and get
    and c :: "('b, 'n) ipfs_config" and i polls d s
  defines "dd \<equiv> peer_io ns put get c i polls" and "da \<equiv> peer_dag ns put get c i polls"
  shows "fst (Append_io dd node rk (d, s)) = fst (dag_Append da node rk (d, s))
      \<and> same_peer i (snd (dag_Append da node rk (d, s))) (snd (Append_io dd node rk (d, s)))
      \<and> (is_ok (fst (dag_Append da node rk (d, s))) \<longrightarrow> Append_io dd node rk (d, s) = dag_Append da node rk (d, s))
      \<and> fst (SetRoot_io dd node (d, s)) = fst (SetRoot da node (d, s))
      \<and> same_peer i (snd (SetRoot da node (d, s))) (snd (SetRoot_io dd node (d, s)))
      \<and> (is_ok (fst (SetRoot da node (d, s))) \<longrightarrow> SetRoot_io dd node (d, s) = SetRoot da node (d, s))
      \<and> fst (GetLast_io dd rk b (d, s)) = GetLast da rk b (d, s) \<and> same_peer i (d, s) (snd (GetLast_io dd rk b (d, s)))
      \<and> fst (GetRoot_io dd a (d, s)) = GetRoot da a (d, s) \<and> same_peer i (d, s) (snd (GetRoot_io dd a (d, s)))"
proof -
  have dg: "dg dd = da" by (simp add: dd_def da_def)
  note alike = peer_reads.Append_alike [of ns put get c i polls node rk "(d, s)"]
    peer_reads.SetRoot_alike [of ns put get c i polls node "(d, s)"]
  have append: "Append_io dd node rk (d, s) = dag_Append da node rk (d, s)"
    if ok: "dag_Append da node rk (d, s) = (Ok key, w')" for key w'
  proof -
    have v: "VerifyNode da node rk True (d, s) = Ok ()" and save: "saveNode da node rk (d, s) = (Ok key, w')"
      using ok by (auto simp: dag_Append_def split: result.splits)
    obtain br rec where br: "getNodeByKey da rk (d, s) = Ok (Some br)"
        "getQueryNameRequestFromName (ir_env c) (getLastNodeName da br rk (nBranch node)) = Ok rec" "isManaged (i_now i) rec s"
      using peer_saveNode_managed [OF save [unfolded da_def]] unfolding da_def [symmetric] by blast
    have "snd (VerifyNode_io dd node rk True (d, s)) = (d, s)"
      using VerifyNode_io_state [of dd node rk True "(d, s)"] peer_resolve_managed [OF br(2,3), of ns put get polls d] br(1)
      by (auto simp: dg dd_def [symmetric])
    moreover have "fst (VerifyNode_io dd node rk True (d, s)) = Ok ()"
      using peer_reads.VerifyNode_reads [of ns put get c i polls node rk True "(d, s)"] v by (simp add: dd_def da_def)
    ultimately have "VerifyNode_io dd node rk True (d, s) = (Ok (), (d, s))" by (simp add: prod_eq_iff)
    then show ?thesis using v by (simp add: Append_io_def dag_Append_def dg)
  qed
  have root: "SetRoot_io dd node (d, s) = SetRoot da node (d, s)"
    if ok: "SetRoot da node (d, s) = (Ok key, w')" for key w'
  proof -
    have save: "saveRootNode da node (d, s) = (Ok key, w')"
      using ok by (auto simp: SetRoot_def Let_def fail_io_def split: if_splits result.splits)
    obtain rec where rec: "getQueryNameRequestFromName (ir_env c) (getRootNodeName da (nAddress node)) = Ok rec" "isManaged (i_now i) rec s"
      using peer_saveRootNode_managed [OF save [unfolded da_def]] unfolding da_def [symmetric] by blast
    have "snd (GetRoot_io dd (nAddress node) (d, s)) = (d, s)"
      using peer_resolve_managed [OF rec, of ns put get polls d] by (simp add: GetRoot_io_state dg dd_def [symmetric])
    moreover have "fst (GetRoot_io dd (nAddress node) (d, s)) = GetRoot da (nAddress node) (d, s)"
      using peer_reads.GetRoot_reads [of ns put get c i polls "nAddress node" "(d, s)"] by (simp add: dd_def da_def)
    ultimately have "GetRoot_io dd (nAddress node) (d, s) = (GetRoot da (nAddress node) (d, s), (d, s))" by (simp add: prod_eq_iff)
    then show ?thesis by (simp add: SetRoot_io_def SetRoot_def Let_def dg)
  qed
  have "fst (Append_io dd node rk (d, s)) = fst (dag_Append da node rk (d, s))
      \<and> same_peer i (snd (dag_Append da node rk (d, s))) (snd (Append_io dd node rk (d, s)))
      \<and> (is_ok (fst (dag_Append da node rk (d, s))) \<longrightarrow> Append_io dd node rk (d, s) = dag_Append da node rk (d, s))"
    using alike(1) append by (cases "dag_Append da node rk (d, s)") (auto simp: is_ok_iff dd_def da_def)
  moreover have "fst (SetRoot_io dd node (d, s)) = fst (SetRoot da node (d, s))
      \<and> same_peer i (snd (SetRoot da node (d, s))) (snd (SetRoot_io dd node (d, s)))
      \<and> (is_ok (fst (SetRoot da node (d, s))) \<longrightarrow> SetRoot_io dd node (d, s) = SetRoot da node (d, s))"
    using alike(2) root by (cases "SetRoot da node (d, s)") (auto simp: is_ok_iff dd_def da_def)
  ultimately show ?thesis
    using peer_reads.GetLast_reads [of ns put get c i polls rk b "(d, s)"] peer_reads.GetRoot_reads [of ns put get c i polls a "(d, s)"]
    by (simp add: dd_def da_def)
qed

end
