(* ===== verification/PeerSample.thy ===== *)
theory PeerSample
  imports DagIo
begin

text \<open>
  The run on which the properties of a \<open>Dag\<close> over the network are exercised: the owner \<open>A\<close> sets the sample root and appends
  a node on the resolver of \<open>IpfsSample\<close>, and \<open>B\<close> reads it.
\<close>

section \<open>The owner\<close>

abbreviation config_A :: "(string memoryCache, bus) ipfs_config" where
  "config_A \<equiv> sample_config ''A''"

definition owner_dag :: "(localDataStore \<times> (string memoryCache, bus) ipfs) dag" where
  "owner_dag = peer_dag ''ns'' (local_Put sample_env) local_Get config_A (sample_input 2) []"

text \<open>The states of the resolver of \<open>A\<close> in which it manages the sample address.\<close>

definition owning :: "localDataStore \<times> (string memoryCache, bus) ipfs \<Rightarrow> bool" where
  "owning = (\<lambda>(d, s). ipfs_reachable config_A s \<and> resourceCache s = resourceCache state_A0 \<and> defaultTTL (backend s) = 0)"

lemma sample_path_name:
  "\<exists>rec. getQueryNameRequestFromName sample_env (getName owner_dag (Addr sample_address) parts) = Ok rec \<and> mAddress rec = Addr sample_address"
  using getQueryNameRequest_address [OF owner_address(2,3) [OF sample_sizes sample_address], of "''ns/dag/'' @ Join parts ''/''"]
  by (simp add: getName_def owner_dag_def peer_dag_sel)

lemma owning_managed:
  assumes "resourceCache s = resourceCache state_A0" and "mAddress rec = Addr sample_address"
  shows "isManaged t rec s"
proof -
  have "HasKeys sample_address"
    using HasKeys_pair [of sample_address sample_key] sample_address_signer by (simp add: signer_ok_def)
  with state_A0_manages assms show ?thesis by (auto simp: isManaged_def)
qed

interpretation owner_writable: dag_writable owner_dag "hexHash sample_env" owning "{Addr sample_address}"
proof
  show "\<exists>p w'. dt_Put owner_dag b pf w = (Ok (hexHash sample_env b, p), w') \<and> owning w'" if "owning w" for b pf w
    using that by (cases w) (auto simp: owner_dag_def peer_dag_sel local_Put_def Let_def owning_def split: option.splits)
  show "\<exists>w'. rs_Add owner_dag (getName owner_dag a parts) v w = (Ok (), w') \<and> owning w'"
    if w: "owning w" and a: "a \<in> {Addr sample_address}" for w a parts v
  proof -
    obtain d s where ds: "w = (d, s)" by (cases w)
    have s: "ipfs_reachable config_A s" "resourceCache s = resourceCache state_A0" "defaultTTL (backend s) = 0"
      using w by (simp_all add: owning_def ds)
    let ?n = "getName owner_dag (Addr sample_address) parts"
    obtain rec where rec: "getQueryNameRequestFromName sample_env ?n = Ok rec" "mAddress rec = Addr sample_address"
      using sample_path_name by blast
    obtain b where add: "ipfs_Add config_A (sample_input 2) ?n v s = (Ok (), s\<lparr>backend := b\<rparr>)" "defaultTTL b = 0"
      using rec(1) owning_managed [OF s(2) rec(2)] s(3)
      by (auto simp: ipfs_Add_def memory_Add_def cache_Add_def AddWithTTL_def)
    have "ipfs_reachable config_A (s\<lparr>backend := b\<rparr>)"
      by (rule ipfs_reachable_step [OF s(1) do_add [OF add(1)]])
    then show ?thesis
      using a add s(2) by (auto simp: owner_dag_def ds peer_dag_sel owning_def)
  qed
qed

lemma owner_writer: "dag_writer owner_dag (hexHash sample_env)"
proof -
  have eq: "config_A\<lparr>ir_bAdd := memory_Add, ir_bResolve := memory_Resolve\<rparr> = config_A" by (simp add: sample_config_def)
  show ?thesis
    using memory_peer.on_peer.dag_writer_axioms [of "''ns''" sample_env config_A "sample_input 2" "[]"]
    unfolding owner_dag_def eq .
qed

interpretation owner: dag_writer owner_dag "hexHash sample_env"
  by (rule owner_writer)

section \<open>The root\<close>

definition owner_start :: "localDataStore \<times> (string memoryCache, bus) ipfs" where
  "owner_start = (NewLocalFileStore, state_A0)"

lemma owner_start: "owning owner_start" "dt_Get owner_dag k owner_start = Err DatastoreErrNotFound"
proof -
  have "backend state_A0 = NewMemoryBackend" using state_A0_manages by blast
  then show "owning owner_start"
    by (simp add: owning_def owner_start_def state_A0_reachable NewMemoryBackend_def NewMemoryCache_def)
  show "dt_Get owner_dag k owner_start = Err DatastoreErrNotFound"
    by (simp add: owner_dag_def peer_dag_sel owner_start_def local_Get_def NewLocalFileStore_def)
qed

lemma owner_SetRoot:
  "\<exists>w. SetRoot owner_dag sample_root owner_start = (Ok sample_key0, w) \<and> owning w"
proof -
  obtain rec where rec: "getQueryNameRequestFromName sample_env (getRootNodeName owner_dag (Addr sample_address)) = Ok rec"
      "mAddress rec = Addr sample_address"
    using sample_path_name unfolding getRootNodeName_def by blast
  have "backend state_A0 = NewMemoryBackend" using state_A0_manages by blast
  then have "fst (ipfs_Resolve config_A (sample_input 2) [] (getRootNodeName owner_dag (Addr sample_address)) state_A0)
      = Err ResolverErrNotFound"
    using rec owning_managed [OF refl rec(2)]
    by (simp add: ipfs_Resolve_def memory_Resolve_def NewMemoryBackend_def NewMemoryCache_def cache_Get_def)
  then have "GetRoot owner_dag (Addr sample_address) owner_start = Err ResolverErrNotFound"
    by (simp add: GetRoot_def resolveRootNodeKey_def owner_start_def) (simp add: owner_dag_def peer_dag_sel translateError_def)
  moreover obtain key w where save: "saveRootNode owner_dag sample_root owner_start = (Ok key, w)" "owning w"
    using owner_writable.saveRootNode_total [OF owner_start(1), of sample_root] by (auto simp: sample_root_def)
  ultimately have set: "SetRoot owner_dag sample_root owner_start = (Ok key, w)"
    by (simp add: SetRoot_def sample_root_def)
  have "key = sample_key0"
    using owner.SetRoot_saved [OF set] sample_key0_hash by (auto simp: saved_def)
  with set save(2) show ?thesis by blast
qed

definition owner_store :: localDataStore where
  "owner_store = fst (snd (SetRoot owner_dag sample_root owner_start))"

definition owner_state :: "(string memoryCache, bus) ipfs" where
  "owner_state = snd (snd (SetRoot owner_dag sample_root owner_start))"

lemma owner_ready: "SetRoot owner_dag sample_root owner_start = (Ok sample_key0, (owner_store, owner_state))"
    "owning (owner_store, owner_state)"
  using owner_SetRoot by (auto simp: owner_store_def owner_state_def)

lemma owner_root: "getNodeByKey owner_dag sample_key0 (owner_store, owner_state) = Ok (Some sample_root)"
  by (rule owner.saved_getNode [OF owner.SetRoot_saved [OF owner_ready(1)] sample_root_ok])

lemma owner_child:
  obtains key w where "dag_Append owner_dag sample_child sample_key0 (owner_store, owner_state) = (Ok key, w)" and "owning w"
proof -
  have "GetLast owner_dag sample_key0 ''main'' (owner_store, owner_state) = Ok (Some sample_root, sample_key0)"
    by (rule owner.SetRoot_root(2) [OF owner_ready(1) sample_root_ok]) (simp_all add: sample_root_def)
  then have "next_in_branch owner_dag sample_child sample_key0 (owner_store, owner_state)"
    using owner_root unfolding next_in_branch_def
    by (intro exI [of _ sample_root]) (simp add: sample_child_def sample_root_def)
  moreover have "dag_env owner_dag = sample_env" by (simp add: owner_dag_def peer_dag_sel)
  moreover have "getFullPath owner_dag (owner_store, owner_state) sample_key0
      = Some (Ok (getName owner_dag (Addr sample_address) [sample_key0], None))"
    by (subst getFullPath.simps) (simp add: owner_root, simp add: sample_root_def)
  then obtain key w where "saveNode owner_dag sample_child sample_key0 (owner_store, owner_state) = (Ok key, w)" and w: "owning w"
    using owner_writable.saveNode_total [OF owner_root _ owner_ready(2), of _ sample_child]
    by (auto simp: sample_root_def sample_child_def)
  ultimately have "dag_Append owner_dag sample_child sample_key0 (owner_store, owner_state) = (Ok key, w)"
    using sample_child_authentic by (simp add: dag_Append_Ok)
  then show ?thesis using w by (rule that)
qed

text \<open>What the owner's peer has at that time.\<close>

lemma owner_reachable: "ipfs_reachable config_A owner_state"
  and owner_backend: "defaultTTL (backend owner_state) = 0"
  and owner_resources: "resourceCache owner_state = resourceCache state_A0"
  using owner_ready(2) by (simp_all add: owning_def)

lemma owner_resource:
  "\<exists>r. cdata (resourceCache owner_state) (Addr sample_address) = Some r \<and> (\<forall>t. \<not> IsExpired t r)
     \<and> signer_ok sample_env sample_key (res_addr (cvalue r))"
proof -
  obtain res where A0: "\<And>t. cache_Get t (Addr sample_address) (resourceCache owner_state) = Ok (Some res)" "res_addr res = sample_address"
    using state_A0_manages owner_resources by auto
  show ?thesis
  proof (cases "cdata (resourceCache owner_state) (Addr sample_address)")
    case None
    then show ?thesis using A0(1) [of 0] by (simp add: cache_Get_def)
  next
    case (Some r)
    have "\<not> IsExpired t r \<and> cvalue r = res" for t
      using A0(1) [of t] Some by (simp add: cache_Get_def split: if_splits)
    with Some A0(2) sample_address_signer show ?thesis by auto
  qed
qed

lemma owner_laws: "name_backend (ir_bAdd config_A t) (ir_bResolve config_A t') (\<lambda>_. True) (\<lambda>b. defaultTTL b = 0)"
  using memory_names.name_backend_axioms by simp

section \<open>Witnesses\<close>

lemma owner_child_clash:
  assumes "ToJson sample_child = Ok js" and "local_Get (hexHash sample_env js) owner_store = Ok (Reader b None)"
  shows "b = js"
proof -
  obtain js0 where js0: "ToJson sample_root = Ok js0" "sample_key0 = hexHash sample_env js0"
    using sample_key0_hash by blast
  have "hexHash sample_env js \<noteq> sample_key0"
    unfolding js0(2) by (rule sample_hexHash_neq [OF assms(1) js0(1)])
      (simp_all add: sample_child_def sample_root_def sample_digits)
  then have "dt_Get owner_dag (hexHash sample_env js) (owner_store, owner_state) = Err DatastoreErrNotFound"
    using owner.SetRoot_saved [OF owner_ready(1)] owner_start(2) by (simp add: saved_def)
  with assms(2) show ?thesis by (simp add: owner_dag_def peer_dag_sel)
qed

lemma owner_head_name: "utf8_valid (getLastNodeName owner_dag sample_root sample_key0 ''main'')"
proof -
  have "list_all (\<lambda>c. code c < 128) sample_key0"
    using sample_key0_hash HexEncode_ascii by (metis hexHash_def)
  then show ?thesis
    using owner_address(5) [OF sample_sizes sample_address]
    by (intro utf8_ascii) (simp add: getLastNodeName_def getName_def owner_dag_def peer_dag_sel sample_root_def)
qed

theorem append_read_across_network_witness:
  "\<exists>key d' sA evm rec answer sB2.
     dag_Append owner_dag sample_child sample_key0 (owner_store, owner_state) = (Ok key, (d', sA))
     \<and> asked_across config_A (sample_config ''B'') (\<lambda>xs. xs) (sample_input 3) (sample_input 4) (sample_input 5) (sample_input 6)
          evm rec sA state_B answer sB2
     \<and> GetLast (peer_dag ''ns'' (local_Put sample_env) local_Get (sample_config ''B'') (sample_input 8) []) sample_key0 ''main'' (d', sB2)
          = Ok (Some sample_child, key)"
proof -
  obtain key d' sA where app: "dag_Append owner_dag sample_child sample_key0 (owner_store, owner_state) = (Ok key, (d', sA))"
    using owner_child by (metis surj_pair)
  obtain rec where rec: "getQueryNameRequestFromName sample_env (getLastNodeName owner_dag sample_root sample_key0 ''main'') = Ok rec"
      "mAddress rec = Addr sample_address"
    using sample_path_name unfolding getLastNodeName_def sample_root_def by fastforce
  obtain r where r: "cdata (resourceCache owner_state) (Addr sample_address) = Some r" "\<And>t. \<not> IsExpired t r"
      "signer_ok sample_env sample_key (res_addr (cvalue r))"
    using owner_resource by blast
  have root: "nAddress sample_root = Addr sample_address" and child: "nBranch sample_child = ''main''"
    by (simp_all add: sample_root_def sample_child_def)
  have B: "cache_Get t k (resourceCache state_B) = Ok None" "cache_Get t k (resolutionCache state_B) = Ok None"
      "alive 6 (defaultTTL (resolutionCache state_B)) 8" "defaultTTL (resourceCache state_B) = 0" for t k
    by (simp_all add: state_B_empty alive_def)
  have utf8: "utf8_valid (i_ts (sample_input t))" and hash: "utf8_valid (hexHash sample_env b)" for t b by simp_all
  have times: "0 < i_now (sample_input 3)" "0 < i_now (sample_input 6)" by simp_all
  note run = append_read_across_network [where i = "sample_input 2" and pollsA = "[]" and polls = "[]" and ?iB3.0 = "sample_input 8"
      and sB = state_B and ord = "\<lambda>xs. xs" and named = "\<lambda>_. True" and ns = "''ns''",
      OF sample_peers refl utf8 [of 3] utf8 [of 4] utf8 [of 5] times local_store.data_store_axioms hash owner_laws
        TrueI owner_backend owner_reachable r(1) [folded root] r(2,3) app [unfolded owner_dag_def]
        owner_root [unfolded owner_dag_def] sample_child_ok owner_child_clash rec(1) [folded child, unfolded owner_dag_def],
      folded owner_dag_def, unfolded rec(2) root child]
  have "\<exists>answer sB2. asked_across config_A (sample_config ''B'') (\<lambda>xs. xs) (sample_input 3) (sample_input 4) (sample_input 5) (sample_input 6)
          (res_evm (cvalue r)) rec sA state_B answer sB2
      \<and> GetLast (peer_dag ''ns'' (local_Put sample_env) local_Get (sample_config ''B'') (sample_input 8) []) sample_key0 ''main'' (d', sB2)
          = Ok (Some sample_child, key)"
    by (rule run) (simp_all only: B owner_head_name sample_input_sel)
  with app show ?thesis by blast
qed

text \<open>\<open>B\<close> reads from a store with the sample root, and a node without any field.\<close>

definition forged_store :: localDataStore where
  "forged_store = NewLocalFileStore\<lparr>pairs := [sample_key0 \<mapsto> (case ToJson sample_root of Ok js \<Rightarrow> js | _ \<Rightarrow> []),
     ''forged'' \<mapsto> (case ToJson NewNode of Ok js \<Rightarrow> js | _ \<Rightarrow> [])]\<rparr>"

definition reader_dag :: "(localDataStore \<times> (string memoryCache, bus) ipfs) dag" where
  "reader_dag = peer_dag ''ns'' (local_Put sample_env) local_Get (sample_config ''B'') (sample_input 3) []"

theorem forged_head_read_witness:
  "\<exists>js s'. receive (sample_config ''B'') (sample_input 2) (\<lambda>xs. xs) 0 ''C'' js state_B1 = (Ok (), s')
     \<and> GetLast reader_dag sample_key0 ''main'' (forged_store, s') = Ok (Some NewNode, ''forged'')
     \<and> \<not> authentic sample_env NewNode"
proof -
  have key: "sample_key0 \<noteq> ''forged''"
  proof
    assume forged: "sample_key0 = ''forged''"
    obtain js where "sample_key0 = HexEncode (sha256 sample_env js)" using sample_key0_hash by (auto simp: hexHash_def)
    then have "set ''forged'' \<subseteq> set hextable" using set_HexEncode [of "sha256 sample_env js"] unfolding forged by simp
    then show False by (simp add: hextable_def)
  qed
  have root: "getNodeByKey reader_dag sample_key0 (forged_store, s) = Ok (Some sample_root)" for s
    using getNodeByKey_stored [of reader_dag sample_key0 "(forged_store, s)"] key ToJson_total [of sample_root]
      decode_node_ToJson [OF sample_root_ok]
    by (auto simp: reader_dag_def peer_dag_sel forged_store_def local_Get_def)
  have "node_ok NewNode" by (simp add: node_ok_def NewNode_def)
  then have node: "getNodeByKey reader_dag ''forged'' (forged_store, s) = Ok (Some NewNode)" for s
    using getNodeByKey_stored [of reader_dag "''forged''" "(forged_store, s)"] ToJson_total [of NewNode]
      decode_node_ToJson [of NewNode]
    by (auto simp: reader_dag_def peer_dag_sel forged_store_def local_Get_def)
  have "getLastNodeName reader_dag sample_root sample_key0 ''main'' = getLastNodeName owner_dag sample_root sample_key0 ''main''"
    unfolding reader_dag_def owner_dag_def by (rule peer_head_name)
  then obtain rec where rec: "getQueryNameRequestFromName sample_env (getLastNodeName reader_dag sample_root sample_key0 ''main'') = Ok rec"
      "mAddress rec = Addr sample_address"
    using sample_path_name unfolding getLastNodeName_def sample_root_def by fastforce
  have B: "managers state_B1 = [manager_of (sample_config ''B'') ''1'' ''2'' \<lparr>Keys = None, Addr = Addr sample_address\<rparr>]"
    "resolutionCache state_B1 = resolutionCache state_B"
    using state_B1_ready by blast+
  have signer: "signer_ok sample_env other_key (mgr_signer attacker)"
    using sample_config_signer [of "''C''"] by (simp add: attacker_def)
  note read = forged_head_read [where c = "sample_config ''B''" and ns = "''ns''" and get = local_Get and put = "local_Put sample_env"
      and ?i2.0 = "sample_input 3" and polls = "[]" and s = state_B1 and i = "sample_input 2" and ord = "\<lambda>xs. xs" and j = 0
      and sender = "''C''" and ts = "''2024-02-29T23:59:59Z''" and x = "(''1'', ())" and b = "''main''" and rnd = "[]",
      folded reader_dag_def, OF _ root _ node _ rec(1) _ signer]
  have "\<exists>(answer :: Message) js s'. receive (sample_config ''B'') (sample_input 2) (\<lambda>xs. xs) 0 ''C'' js state_B1 = (Ok (), s')
     \<and> GetLast reader_dag sample_key0 ''main'' (forged_store, s') = Ok (Some NewNode, ''forged'')"
    using read B state_B1_unmanaged [OF rec(2)] by (simp add: state_B_empty alive_def) blast
  moreover have "\<not> authentic sample_env NewNode" by (simp add: authentic_def NewNode_def)
  ultimately show ?thesis by blast
qed

text \<open>The owner's append with the resolver that keeps its state.\<close>

theorem resolving_unseen_witness:
  "\<exists>key w. dag_Append owner_dag sample_child sample_key0 (owner_store, owner_state) = (Ok key, w)
     \<and> Append_io (peer_io ''ns'' (local_Put sample_env) local_Get config_A (sample_input 2) []) sample_child sample_key0
         (owner_store, owner_state) = (Ok key, w)"
proof -
  obtain key w where app: "dag_Append owner_dag sample_child sample_key0 (owner_store, owner_state) = (Ok key, w)"
    by (rule owner_child)
  note exact = resolving_unseen [THEN conjunct2, THEN conjunct2, THEN conjunct1, rule_format]
  have "is_ok (fst (dag_Append owner_dag sample_child sample_key0 (owner_store, owner_state)))" by (simp add: app)
  from exact [OF this [unfolded owner_dag_def]] app show ?thesis unfolding owner_dag_def by auto
qed

end
