(* ===== verification/Follower.thy ===== *)
theory Follower
  imports PeerSample Timeline
begin

text \<open>
  A follower: the iterator of \<^verbatim>\<open>graph/iterator.go\<close> at a peer that does not own the timeline, over the network.
\<close>

section \<open>The same nodes and the same head\<close>

text \<open>What is read of a branch depends on the nodes and on what the name of its head resolves to.\<close>

lemma chain_same:
  assumes "\<And>k. getNodeByKey da k w = getNodeByKey db k v"
  shows "chain da w k kns \<longleftrightarrow> chain db v k kns"
  by (induction kns arbitrary: k) (auto simp: assms)

lemma GetLast_same:
  assumes "\<And>k. getNodeByKey da k w = getNodeByKey db k v"
    and "getNodeByKey da rk w = Ok (Some br)"
    and "rs_Resolve da (getLastNodeName da br rk b) w = rs_Resolve db (getLastNodeName db br rk b) v"
  shows "GetLast da rk b w = GetLast db rk b v"
  using assms by (simp add: GetLast_def resolveLastNodeKey_def)

lemma timeline_same:
  assumes "\<And>k. getNodeByKey (gDa ga) k w = getNodeByKey (gDa gb) k v"
    and "getNodeByKey (gDa ga) rk w = Ok (Some br)"
    and "rs_Resolve (gDa ga) (getLastNodeName (gDa ga) br rk b) w = rs_Resolve (gDa gb) (getLastNodeName (gDa gb) br rk b) v"
    and "timeline ga w rk b kns"
  shows "timeline gb v rk b kns"
  using assms(4) GetLast_same [OF assms(1-3)] chain_same [OF assms(1)] unfolding timeline_def by metis

section \<open>Following\<close>

text \<open>
  C3: a follower sees the whole timeline.  The owner of an address keeps a branch on its peer, of any length and with any store and
  backend of names.  Another peer on the same store and network that knows nothing of the branch asks for the name of its head, the
  owner's resolver answers, and from then on, while the answer is cached, the iterator of the other peer yields exactly the posts that the
  iterator of the owner yields, newest first, and ends.
\<close>

theorem follower_reads_timeline:
  fixes cA :: "('a, bus) ipfs_config" and cB :: "('b, bus) ipfs_config" and ns and put :: "bytes \<Rightarrow> (string \<Rightarrow> string) option \<Rightarrow> (string \<times> string, 'd) io"
    and get i pollsA polls iB3
  defines "da \<equiv> peer_dag ns put get cA i pollsA" and "db \<equiv> peer_dag ns put get cB iB3 polls"
  assumes graphs: "gDa ga = da" "gDa gb = db"
    and peers: "two_peers E kA kB cA cB" and ord: "\<And>z. ord [z] = [z]"
    and times: "utf8_valid (i_ts iB)" "utf8_valid (i_ts iA)" "utf8_valid (i_ts iA2)" "0 < i_now iB" "0 < i_now iB2"
    and owner: "ipfs_reachable cA sA" "cdata (resourceCache sA) (nAddress br) = Some r"
      "\<And>t. \<not> IsExpired t r" "signer_ok E k (res_addr (cvalue r))"
    and branch: "rk \<noteq> ''''" "getNodeByKey da rk (d, sA) = Ok (Some br)" "timeline ga (d, sA) rk b kns"
      "\<And>t. ir_bResolve cA t (getLastNodeName da br rk b) (backend sA) = Ok v" "utf8_valid v"
    and name: "getQueryNameRequestFromName E (getLastNodeName da br rk b) = Ok rec"
      "mAddress rec = nAddress br" "utf8_valid (getLastNodeName da br rk b)"
    and asker: "cache_Get (i_now iB) (mAddress rec) (resourceCache sB) = Ok None"
      "cache_Get (i_now iB2) (GetID E rec) (resolutionCache sB) = Ok None"
      "alive (i_now iB2) (defaultTTL (resolutionCache sB)) (i_now iB3)" "defaultTTL (resourceCache sB) = 0"
  shows "\<exists>answer sB2. asked_across cA cB ord iB iA iA2 iB2 (res_evm (cvalue r)) rec sA sB answer sB2
    \<and> All gb (d, sB2) yld (newIterator '''' rk b) = Some (Ok (take_yield yld (items kns)))
    \<and> All ga (d, sA) yld (newIterator '''' rk b) = Some (Ok (take_yield yld (items kns)))"
proof -
  let ?n = "getLastNodeName da br rk b" and ?res = "cvalue r"
  have env: "ir_env cA = E" "ir_env cB = E" using peers by (simp_all add: two_peers_def)
  note valid = resource_valid [OF owner(1,2), unfolded resource_ok_def]
  have get: "cache_Get t (nAddress br) (resourceCache sA) = Ok (Some ?res)" for t
    using owner(2,3) by (simp add: cache_Get_def)
  obtain answer sB2 where run: "asked_across cA cB ord iB iA iA2 iB2 (res_evm ?res) rec sA sB answer sB2"
    and got: "ipfs_Resolve cB iB3 polls ?n sB2 = (Ok v, sB2)"
    using exchange_resolves [where res = ?res and sA = sA and polls = polls and ?u1.0 = "sub_id (res_response ?res)"
        and ?u2.0 = "sub_id (res_request ?res)", OF peers ord times name(1,3) branch(5) asker owner(4)]
      valid name(1,2) get branch(4) by auto
  have "HasKeys (res_addr ?res)"
    using HasKeys_pair [of "res_addr ?res" k] owner(4) by (simp add: signer_ok_def)
  then have managed: "isManaged (i_now i) rec sA" using get name(2) by (simp add: isManaged_def)
  have node: "getNodeByKey da k (d, sA) = getNodeByKey db k (d, sB2)" for k
    unfolding da_def db_def by (rule peer_getNode)
  have head: "getLastNodeName db br rk b = ?n" unfolding da_def db_def by (rule peer_head_name)
  have "rs_Resolve da ?n (d, sA) = Ok v"
    using name(1) managed branch(4) by (simp add: da_def peer_dag_sel ipfs_Resolve_def env)
  moreover have "rs_Resolve db (getLastNodeName db br rk b) (d, sB2) = Ok v"
    unfolding head using got by (simp add: db_def peer_dag_sel)
  ultimately have "timeline gb (d, sB2) rk b kns"
    using timeline_same [of ga "(d, sA)" gb "(d, sB2)" rk br b kns] node branch(2,3) by (simp add: graphs)
  from All_timeline [OF this branch(1)] All_timeline [OF branch(3,1)] run show ?thesis by blast
qed

text \<open>The owner of \<open>PeerSample\<close> after the root and one node.\<close>

definition owner_view :: "(localDataStore \<times> (string memoryCache, bus) ipfs) Graph" where
  "owner_view = \<lparr>gName = ''ns'', gMetaData = '''', gAddr = sample_address, gDa = owner_dag\<rparr>"

definition reader_view :: "(localDataStore \<times> (string memoryCache, bus) ipfs) Graph" where
  "reader_view = \<lparr>gName = ''ns'', gMetaData = '''', gAddr = sample_address,
     gDa = peer_dag ''ns'' (local_Put sample_env) local_Get (sample_config ''B'') (sample_input 8) []\<rparr>"

lemma owner_child_timeline:
  assumes app: "dag_Append owner_dag sample_child sample_key0 (owner_store, owner_state) = (Ok key, w)"
  shows "timeline owner_view w sample_key0 ''main'' [(key, sample_child), (sample_key0, sample_root)]"
    and "getNodeByKey owner_dag sample_key0 w = Ok (Some sample_root)"
proof -
  have clash: "no_clash owner_dag (hexHash sample_env) sample_child (owner_store, owner_state)"
    using owner_child_clash by (auto simp: no_clash_def owner_dag_def peer_dag_sel)
  obtain ns where sv: "saved owner_dag (hexHash sample_env) sample_child ns (owner_store, owner_state) key w"
    using owner.append_saved [OF app] by blast
  show root: "getNodeByKey owner_dag sample_key0 w = Ok (Some sample_root)"
    by (rule owner.saved_getNode_keeps [OF sv clash owner_root])
  have "GetLast owner_dag sample_key0 ''main'' w = Ok (Some sample_child, key)"
    using owner.append_head [OF app sample_child_ok clash] by (simp add: sample_child_def)
  moreover have "getNodeByKey owner_dag key w = Ok (Some sample_child)"
    by (rule owner.saved_getNode [OF sv sample_child_ok])
  moreover have "hexHash sample_env bs \<noteq> ''''" for bs by (rule hexHash_neq_Nil [OF sample_sizes])
  then have "key \<noteq> ''''" "sample_key0 \<noteq> ''''"
    using sample_key0_hash sv by (auto simp: saved_def)
  moreover have "nPrevious sample_child = sample_key0" "nPrevious sample_root = ''''"
    by (simp_all add: sample_child_def sample_root_def)
  ultimately show "timeline owner_view w sample_key0 ''main'' [(key, sample_child), (sample_key0, sample_root)]"
    using root by (simp add: timeline_def owner_view_def)
qed

theorem follower_reads_timeline_witness:
  "\<exists>key d' sA evm rec answer sB2.
     dag_Append owner_dag sample_child sample_key0 (owner_store, owner_state) = (Ok key, (d', sA))
     \<and> asked_across config_A (sample_config ''B'') (\<lambda>xs. xs) (sample_input 3) (sample_input 4) (sample_input 5) (sample_input 6)
          evm rec sA state_B answer sB2
     \<and> All reader_view (d', sB2) (\<lambda>_. True) (newIterator '''' sample_key0 ''main'')
          = Some (Ok [toGraphNode key sample_child, toGraphNode sample_key0 sample_root])"
proof -
  obtain key d' sA where app: "dag_Append owner_dag sample_child sample_key0 (owner_store, owner_state) = (Ok key, (d', sA))"
    and own: "owning (d', sA)"
    using owner_child by (metis surj_pair)
  have save: "saveNode owner_dag sample_child sample_key0 (owner_store, owner_state) = (Ok key, (d', sA))"
    using app by (auto simp: dag_Append_Ok)
  have root: "nAddress sample_root = Addr sample_address" and child: "nBranch sample_child = ''main''"
    by (simp_all add: sample_root_def sample_child_def)
  obtain rec where rec: "getQueryNameRequestFromName sample_env (getLastNodeName owner_dag sample_root sample_key0 ''main'') = Ok rec"
      "mAddress rec = Addr sample_address"
    using sample_path_name unfolding getLastNodeName_def sample_root_def by fastforce
  obtain r where r: "cdata (resourceCache owner_state) (Addr sample_address) = Some r" "\<And>t. \<not> IsExpired t r"
      "signer_ok sample_env sample_key (res_addr (cvalue r))"
    using owner_resource by blast
  obtain b js where sA: "sA = owner_state\<lparr>backend := b\<rparr>" and js: "key = hexHash sample_env js"
    and kept: "\<And>t. ir_bResolve config_A t (getLastNodeName owner_dag sample_root sample_key0 ''main'') b = Ok key"
    using peer_saveNode [OF local_store.data_store_axioms owner_laws TrueI owner_backend save [unfolded owner_dag_def]]
      owner_root child unfolding owner_dag_def [symmetric] by auto
  have owner: "ipfs_reachable config_A sA" "cdata (resourceCache sA) (nAddress sample_root) = Some r"
    using own owner_resources r(1) by (simp_all add: owning_def root)
  have B: "cache_Get t k (resourceCache state_B) = Ok None" "cache_Get t k (resolutionCache state_B) = Ok None"
      "alive 6 (defaultTTL (resolutionCache state_B)) 8" "defaultTTL (resourceCache state_B) = 0" for t k
    by (simp_all add: state_B_empty alive_def)
  have utf8: "utf8_valid (i_ts (sample_input t))" and hash: "utf8_valid key" for t by (simp_all add: js)
  have times: "0 < i_now (sample_input 3)" "0 < i_now (sample_input 6)" by simp_all
  have keys: "sample_key0 \<noteq> ''''" using sample_key0_hash hexHash_neq_Nil [OF sample_sizes] by metis
  have "\<exists>answer sB2. asked_across config_A (sample_config ''B'') (\<lambda>xs. xs) (sample_input 3) (sample_input 4) (sample_input 5) (sample_input 6)
        (res_evm (cvalue r)) rec sA state_B answer sB2
      \<and> All reader_view (d', sB2) (\<lambda>_. True) (newIterator '''' sample_key0 ''main'')
          = Some (Ok (take_yield (\<lambda>_. True) (items [(key, sample_child), (sample_key0, sample_root)])))
      \<and> All owner_view (d', sA) (\<lambda>_. True) (newIterator '''' sample_key0 ''main'')
          = Some (Ok (take_yield (\<lambda>_. True) (items [(key, sample_child), (sample_key0, sample_root)])))"
  proof (rule follower_reads_timeline [where ns = "''ns''" and put = "local_Put sample_env" and get = local_Get and i = "sample_input 2"
        and pollsA = "[]" and polls = "[]" and ?iB3.0 = "sample_input 8" and E = sample_env
        and cA = config_A and cB = "sample_config ''B''" and br = sample_root and v = key and k = sample_key and kA = other_key and kB = other_key,
        folded owner_dag_def])
    show "gDa owner_view = owner_dag" by (simp add: owner_view_def)
    show "gDa reader_view = peer_dag ''ns'' (local_Put sample_env) local_Get (sample_config ''B'') (sample_input 8) []"
      by (simp add: reader_view_def)
    show "ir_bResolve config_A t (getLastNodeName owner_dag sample_root sample_key0 ''main'') (backend sA) = Ok key" for t
      using kept by (simp add: sA)
  qed (use sample_peers utf8 times owner r keys owner_child_timeline [OF app] hash rec root owner_head_name B in \<open>simp_all only: sample_input_sel not_False_eq_True\<close>)
  with app show ?thesis by auto
qed

end
