(* ===== verification/EventRace.thy ===== *)
theory EventRace
  imports Event
begin

text \<open>
  \<^verbatim>\<open>event/subscription.go\<close> and \<^verbatim>\<open>event/manager.go\<close> step by step.  \<open>Event\<close> has the operations on the subscriptions as
  if each of them were atomic; here goroutines run them at the same time, with the mutex taken and released where the code
  does.  \<open>Get\<close> and \<open>Unsubscribe\<close> hold it to their end, but \<open>Subscribe\<close> only for \<open>getOrCreate\<close>: it writes into the map of the
  event after that.  The second part is \<open>Next\<close> and the event loop, which meet at a channel without a buffer.
\<close>

section \<open>Operations at work\<close>

datatype 'c sub_op =
    OpSubscribe (op_event: string) string 'c
  | OpGet (op_event: string)
  | OpUnsubscribe (op_event: string) string

text \<open>Where a goroutine stands; the last three before the end are inside an access to the map of an event.\<close>

datatype 'c phase =
    Start "'c sub_op"
  | Locked "'c sub_op"
  | Created string string 'c       \<comment> \<open>after \<open>getOrCreate\<close>, without the lock\<close>
  | Writing string string 'c
  | Walking string
  | Deleting string string
  | Finished "'c list"

record 'c sub_state =
  st_subs :: "'c subscriptions"
  st_lock :: "nat option"
  st_at :: "'c phase list"
  st_log :: "(nat \<times> 'c sub_op \<times> 'c list) list"   \<comment> \<open>what took effect, in order, with its result\<close>

definition sub_init :: "'c sub_op list \<Rightarrow> 'c sub_state" where
  "sub_init ops = \<lparr>st_subs = newSubscriptions, st_lock = None, st_at = map Start ops, st_log = []\<rparr>"

text \<open>Go's maps must not be written while another goroutine reads or writes them.\<close>

fun map_written :: "'c phase \<Rightarrow> string option" where
  "map_written (Writing e _ _) = Some e"
| "map_written (Deleting e _) = Some e"
| "map_written _ = None"

fun map_used :: "'c phase \<Rightarrow> string option" where
  "map_used (Walking e) = Some e"
| "map_used p = map_written p"

definition map_race :: "'c sub_state \<Rightarrow> bool" where
  "map_race s = list_ex (\<lambda>t. list_ex (\<lambda>t'. t \<noteq> t' \<and> map_written (st_at s ! t) \<noteq> None
      \<and> map_used (st_at s ! t') = map_written (st_at s ! t)) [0..<length (st_at s)]) [0..<length (st_at s)]"

text \<open>A step of one goroutine.\<close>

definition go_to :: "nat \<Rightarrow> 'c phase \<Rightarrow> 'c sub_state \<Rightarrow> 'c sub_state" where
  "go_to t p s = s\<lparr>st_at := (st_at s)[t := p]\<rparr>"

definition finish :: "nat \<Rightarrow> 'c sub_op \<Rightarrow> 'c list \<Rightarrow> 'c sub_state \<Rightarrow> 'c sub_state" where
  "finish t op r s = (go_to t (Finished r) s)\<lparr>st_log := st_log s @ [(t, op, r)]\<rparr>"

fun goroutine_step :: "((string \<times> 'c) list \<Rightarrow> (string \<times> 'c) list) \<Rightarrow> nat \<Rightarrow> 'c phase \<Rightarrow> 'c sub_state \<Rightarrow> 'c sub_state option" where
  "goroutine_step ord t (Start op) s =
     (case st_lock s of None \<Rightarrow> Some (go_to t (Locked op) (s\<lparr>st_lock := Some t\<rparr>)) | Some _ \<Rightarrow> None)"
| "goroutine_step ord t (Locked (OpSubscribe e u cb)) s =
     Some (go_to t (Created e u cb) (s\<lparr>st_subs := snd (getOrCreate e (st_subs s)), st_lock := None\<rparr>))"
| "goroutine_step ord t (Locked (OpGet e)) s =
     (case st_subs s e of
        None \<Rightarrow> Some (finish t (OpGet e) [] (s\<lparr>st_lock := None\<rparr>))
      | Some _ \<Rightarrow> Some (go_to t (Walking e) s))"
| "goroutine_step ord t (Locked (OpUnsubscribe e u)) s =
     (case st_subs s e of
        None \<Rightarrow> Some (finish t (OpUnsubscribe e u) [] (s\<lparr>st_lock := None\<rparr>))
      | Some _ \<Rightarrow> Some (go_to t (Deleting e u) s))"
| "goroutine_step ord t (Created e u cb) s = Some (go_to t (Writing e u cb) s)"
| "goroutine_step ord t (Writing e u cb) s =
     Some (finish t (OpSubscribe e u cb) []
       (s\<lparr>st_subs := (st_subs s)(e := map_option (map_put u cb) (st_subs s e))\<rparr>))"
| "goroutine_step ord t (Walking e) s =
     Some (finish t (OpGet e) (subs_Get ord e (st_subs s)) (s\<lparr>st_lock := None\<rparr>))"
| "goroutine_step ord t (Deleting e u) s =
     Some (finish t (OpUnsubscribe e u) [] (s\<lparr>st_subs := subs_Unsubscribe e u (st_subs s), st_lock := None\<rparr>))"
| "goroutine_step ord t (Finished r) s = None"

text \<open>
  Any goroutine may go on next.  In a race nothing does: the runtime stops the program when it notices, and what happens
  otherwise is not defined.
\<close>

inductive sub_run :: "((string \<times> 'c) list \<Rightarrow> (string \<times> 'c) list) \<Rightarrow> 'c sub_op list \<Rightarrow> 'c sub_state \<Rightarrow> bool"
  for ord ops where
  start: "sub_run ord ops (sub_init ops)"
| step: "sub_run ord ops s \<Longrightarrow> \<not> map_race s \<Longrightarrow> t < length (st_at s) \<Longrightarrow>
    goroutine_step ord t (st_at s ! t) s = Some s' \<Longrightarrow> sub_run ord ops s'"

lemma map_race_iff:
  "map_race s \<longleftrightarrow> (\<exists>t t' e. t < length (st_at s) \<and> t' < length (st_at s) \<and> t \<noteq> t'
     \<and> map_written (st_at s ! t) = Some e \<and> map_used (st_at s ! t') = Some e)"
  unfolding map_race_def list_ex_iff by (auto simp: Bex_def) metis+

lemma go_to_sel [simp]:
  "st_subs (go_to t p s) = st_subs s" "st_lock (go_to t p s) = st_lock s" "st_at (go_to t p s) = (st_at s)[t := p]"
  "st_log (go_to t p s) = st_log s"
  by (simp_all add: go_to_def)

lemma finish_sel [simp]:
  "st_subs (finish t op r s) = st_subs s" "st_lock (finish t op r s) = st_lock s" "st_at (finish t op r s) = (st_at s)[t := Finished r]"
  "st_log (finish t op r s) = st_log s @ [(t, op, r)]"
  by (simp_all add: finish_def)

section \<open>The lock\<close>

fun holds :: "'c phase \<Rightarrow> bool" where
  "holds (Locked _) = True"
| "holds (Walking _) = True"
| "holds (Deleting _ _) = True"
| "holds _ = False"

fun phase_op :: "'c phase \<Rightarrow> 'c sub_op option" where
  "phase_op (Start op) = Some op"
| "phase_op (Locked op) = Some op"
| "phase_op (Created e u cb) = Some (OpSubscribe e u cb)"
| "phase_op (Writing e u cb) = Some (OpSubscribe e u cb)"
| "phase_op (Walking e) = Some (OpGet e)"
| "phase_op (Deleting e u) = Some (OpUnsubscribe e u)"
| "phase_op (Finished _) = None"

fun phase_event :: "'c phase \<Rightarrow> string option" where
  "phase_event (Created e _ _) = Some e"
| "phase_event p = map_used p"

text \<open>
  The mutex excludes, a goroutine keeps to its operation, and the map of an event that is in use is there.
\<close>

definition sub_inv :: "'c sub_op list \<Rightarrow> 'c sub_state \<Rightarrow> bool" where
  "sub_inv ops s \<longleftrightarrow> length (st_at s) = length ops
     \<and> (\<forall>t < length ops. holds (st_at s ! t) \<longrightarrow> st_lock s = Some t)
     \<and> (\<forall>t < length ops. \<forall>op. phase_op (st_at s ! t) = Some op \<longrightarrow> ops ! t = op)
     \<and> (\<forall>t < length ops. \<forall>e. phase_event (st_at s ! t) = Some e \<longrightarrow> st_subs s e \<noteq> None)"

lemma sub_inv_update:
  assumes inv: "sub_inv ops s" and at: "st_at s' = (st_at s)[t := p]" and t: "t < length ops"
    and subs: "\<And>e. st_subs s e \<noteq> None \<Longrightarrow> st_subs s' e \<noteq> None"
    and lock: "st_lock s' = st_lock s \<or> st_lock s = None \<or> st_lock s = Some t"
    and p: "holds p \<Longrightarrow> st_lock s' = Some t" "\<And>op. phase_op p = Some op \<Longrightarrow> ops ! t = op"
      "\<And>e. phase_event p = Some e \<Longrightarrow> st_subs s' e \<noteq> None"
  shows "sub_inv ops s'"
proof -
  have len: "length (st_at s) = length ops" using inv by (simp add: sub_inv_def)
  have nth: "st_at s' ! u = (if u = t then p else st_at s ! u)" if "u < length ops" for u
    using that t len by (simp add: at nth_list_update)
  have "holds (st_at s' ! u) \<longrightarrow> st_lock s' = Some u" if u: "u < length ops" for u
    using inv lock p(1) u by (auto simp: nth [OF u] sub_inv_def)
  moreover have "phase_op (st_at s' ! u) = Some op \<longrightarrow> ops ! u = op" if u: "u < length ops" for u op
    using inv p(2) u by (auto simp: nth [OF u] sub_inv_def)
  moreover have "phase_event (st_at s' ! u) = Some e \<longrightarrow> st_subs s' e \<noteq> None" if u: "u < length ops" for u e
    using inv p(3) subs u unfolding nth [OF u] sub_inv_def by presburger
  ultimately show ?thesis using len by (simp add: sub_inv_def at)
qed

lemma sub_inv_step:
  assumes inv: "sub_inv ops s" and t: "t < length ops" and step: "goroutine_step ord t (st_at s ! t) s = Some s'"
  shows "sub_inv ops s'"
proof -
  note at = inv [unfolded sub_inv_def, THEN conjunct2, THEN conjunct1, rule_format, OF t]
    inv [unfolded sub_inv_def, THEN conjunct2, THEN conjunct2, THEN conjunct1, rule_format, OF t]
    inv [unfolded sub_inv_def, THEN conjunct2, THEN conjunct2, THEN conjunct2, rule_format, OF t]
  show ?thesis
  proof (cases "st_at s ! t")
    case (Start op)
    then show ?thesis
      using step at by (intro sub_inv_update [OF inv _ t, of s' "Locked op"]) (auto split: option.splits)
  next
    case (Locked op)
    show ?thesis
    proof (cases op)
      case (OpSubscribe e u cb)
      then show ?thesis
        using step at Locked
        by (intro sub_inv_update [OF inv _ t, of s' "Created e u cb"]) (auto simp: getOrCreate_def split: option.splits)
    next
      case (OpGet e)
      then show ?thesis
        using step at Locked
        by (intro sub_inv_update [OF inv _ t, of s' "if st_subs s e = None then Finished [] else Walking e"]) (auto split: option.splits)
    next
      case (OpUnsubscribe e u)
      then show ?thesis
        using step at Locked
        by (intro sub_inv_update [OF inv _ t, of s' "if st_subs s e = None then Finished [] else Deleting e u"]) (auto split: option.splits)
    qed
  next
    case (Created e u cb)
    then show ?thesis
      using step at by (intro sub_inv_update [OF inv _ t, of s' "Writing e u cb"]) auto
  next
    case (Writing e u cb)
    then show ?thesis
      using step at by (intro sub_inv_update [OF inv _ t, of s' "Finished []"]) (auto split: if_splits)
  next
    case (Walking e)
    then show ?thesis
      using step at by (intro sub_inv_update [OF inv _ t, of s' "Finished (subs_Get ord e (st_subs s))"]) auto
  next
    case (Deleting e u)
    then show ?thesis
      using step at by (intro sub_inv_update [OF inv _ t, of s' "Finished []"]) (auto simp: subs_Unsubscribe_def split: option.splits if_splits)
  qed (use step in simp)
qed

lemma sub_run_inv: "sub_run ord ops s \<Longrightarrow> sub_inv ops s"
proof (induction rule: sub_run.induct)
  case start
  show ?case by (simp add: sub_inv_def sub_init_def)
next
  case (step s t s')
  then show ?case using sub_inv_step by (metis sub_inv_def)
qed

section \<open>Where the maps race\<close>

lemma map_used_op: "map_used p = Some e \<Longrightarrow> \<exists>op. phase_op p = Some op \<and> op_event op = e"
  by (cases p) auto

text \<open>Whoever uses a map with the lock is alone with those that hold it; so a race has a writing \<open>Subscribe\<close>.\<close>

lemma race_writing:
  assumes "sub_inv ops s" and "map_race s"
  obtains t t' e u cb where "t < length ops" "t' < length ops" "t \<noteq> t'" "st_at s ! t = Writing e u cb" "map_used (st_at s ! t') = Some e"
proof -
  have len: "length (st_at s) = length ops" and lock: "\<And>t. t < length ops \<Longrightarrow> holds (st_at s ! t) \<Longrightarrow> st_lock s = Some t"
    using assms(1) by (simp_all add: sub_inv_def)
  obtain t t' e where t: "t < length ops" "t' < length ops" "t \<noteq> t'"
    and used: "map_written (st_at s ! t) = Some e" "map_used (st_at s ! t') = Some e"
    using assms(2) by (auto simp: map_race_iff len)
  have alone: "\<not> (holds (st_at s ! t) \<and> holds (st_at s ! t'))" using lock [OF t(1)] lock [OF t(2)] t(3) by auto
  show thesis
  proof (cases "st_at s ! t")
    case (Writing e' u cb)
    with used t that [of t t' e u cb] show thesis by simp
  next
    case (Deleting e' u)
    with alone used(2) obtain u' cb where "st_at s ! t' = Writing e u' cb" by (cases "st_at s ! t'") auto
    with Deleting used(1) t that [of t' t e u' cb] show thesis by simp
  qed (use used(1) in simp_all)
qed

lemma no_race: "(\<And>i. i < length (st_at s) \<Longrightarrow> i \<noteq> t \<Longrightarrow> map_used (st_at s ! i) = None) \<Longrightarrow> \<not> map_race s"
proof
  assume idle: "\<And>i. i < length (st_at s) \<Longrightarrow> i \<noteq> t \<Longrightarrow> map_used (st_at s ! i) = None" and "map_race s"
  then obtain i j e where "i < length (st_at s)" "j < length (st_at s)" "i \<noteq> j" "map_written (st_at s ! i) = Some e" "map_used (st_at s ! j) = Some e"
    by (auto simp: map_race_iff)
  moreover have "map_used p = Some e" if "map_written p = Some e" for p :: "'a phase" using that by (cases p) auto
  ultimately show False using idle by (metis option.distinct(1))
qed

lemma sub_run_go:
  assumes "sub_run ord ops \<lparr>st_subs = m, st_lock = l, st_at = A, st_log = G\<rparr>" and "x < length A"
    and "\<And>j. j < length A \<Longrightarrow> j \<noteq> t \<Longrightarrow> map_used (A ! j) = None"
    and "goroutine_step ord x (A ! x) \<lparr>st_subs = m, st_lock = l, st_at = A, st_log = G\<rparr> = Some s"
  shows "sub_run ord ops s"
  using sub_run.step [OF assms(1), of x s] no_race [of "\<lparr>st_subs = m, st_lock = l, st_at = A, st_log = G\<rparr>" t] assms(2-4) by simp

lemma race_reached:
  assumes t: "t < length ops" "t' < length ops" "t \<noteq> t'" and op: "ops ! t = OpSubscribe e u cb" and op': "op_event (ops ! t') = e"
  shows "\<exists>s. sub_run ord ops s \<and> map_race s"
proof -
  let ?A = "map Start ops" and ?m = "[e \<mapsto> []]" and ?C = "Created e u cb"
  let ?st = "\<lambda>m l A. \<lparr>st_subs = m, st_lock = l, st_at = A, st_log = []\<rparr>"
  note upd = nth_list_update go_to_def getOrCreate_def newSubscriptions_def t op
  have "sub_run ord ops (?st newSubscriptions None ?A)" using sub_run.start [of ord ops] by (simp add: sub_init_def)
  then have "sub_run ord ops (?st newSubscriptions (Some t) (?A[t := Locked (ops ! t)]))"
    by (rule sub_run_go [where t = t' and x = t]) (simp_all add: upd)
  then have "sub_run ord ops (?st ?m None (?A[t := ?C]))"
    by (rule sub_run_go [where t = t' and x = t]) (simp_all add: upd)
  then have "sub_run ord ops (?st ?m (Some t') (?A[t := ?C, t' := Locked (ops ! t')]))"
    by (rule sub_run_go [where t = t' and x = t']) (use t in \<open>simp_all add: upd\<close>)
  then have "\<exists>l p. sub_run ord ops (?st ?m l (?A[t := ?C, t' := p])) \<and> map_used p = Some e"
  proof (cases "ops ! t'")
    case (OpSubscribe e' u' cb')
    assume "sub_run ord ops (?st ?m (Some t') (?A[t := ?C, t' := Locked (ops ! t')]))"
    then have "sub_run ord ops (?st ?m None (?A[t := ?C, t' := Created e u' cb']))"
      by (rule sub_run_go [where t = t' and x = t']) (use t op' OpSubscribe in \<open>simp_all add: upd\<close>)
    then have "sub_run ord ops (?st ?m None (?A[t := ?C, t' := Writing e u' cb']))"
      by (rule sub_run_go [where t = t' and x = t']) (use t op' OpSubscribe in \<open>simp_all add: upd\<close>)
    then show ?thesis by (intro exI conjI) auto
  next
    case (OpGet e')
    assume "sub_run ord ops (?st ?m (Some t') (?A[t := ?C, t' := Locked (ops ! t')]))"
    then have "sub_run ord ops (?st ?m (Some t') (?A[t := ?C, t' := Walking e]))"
      by (rule sub_run_go [where t = t' and x = t']) (use t op' OpGet in \<open>simp_all add: upd\<close>)
    then show ?thesis by (intro exI conjI) auto
  next
    case (OpUnsubscribe e' u')
    assume "sub_run ord ops (?st ?m (Some t') (?A[t := ?C, t' := Locked (ops ! t')]))"
    then have "sub_run ord ops (?st ?m (Some t') (?A[t := ?C, t' := Deleting e u']))"
      by (rule sub_run_go [where t = t' and x = t']) (use t op' OpUnsubscribe in \<open>simp_all add: upd\<close>)
    then show ?thesis by (intro exI conjI) auto
  qed
  then obtain l p where p: "sub_run ord ops (?st ?m l (?A[t := ?C, t' := p]))" "map_used p = Some e" by blast
  have swap: "?A[t := ?C, t' := p, t := Writing e u cb] = ?A[t := Writing e u cb, t' := p]"
    using t by (simp add: list_update_swap)
  have "sub_run ord ops (?st ?m l (?A[t := Writing e u cb, t' := p]))"
    by (rule sub_run_go [OF p(1), where t = t' and x = t]) (use t t(3) [symmetric] in \<open>simp_all add: upd swap\<close>)
  moreover have "map_race (?st ?m l (?A[t := Writing e u cb, t' := p]))"
    unfolding map_race_iff by (rule exI [of _ t], rule exI [of _ t'], rule exI [of _ e]) (use t p(2) in \<open>simp add: nth_list_update\<close>)
  ultimately show ?thesis by blast
qed

text \<open>
  C15: which operations can race.  Some goroutines run one operation each on the subscriptions of a manager.  A state in which one
  of them writes the map of callbacks of an event while another reads or writes it can be reached exactly when one of them is a
  \<open>Subscribe\<close> to an event and another is any operation for the same event: \<open>Get\<close> and \<open>Unsubscribe\<close> exclude one another with
  the lock, but \<open>Subscribe\<close> releases it before it writes.  Go ends the program when it sees such an access.
\<close>

theorem subscribe_races_iff:
  "(\<exists>s. sub_run ord ops s \<and> map_race s) \<longleftrightarrow>
     (\<exists>t t' e u cb. t < length ops \<and> t' < length ops \<and> t \<noteq> t' \<and> ops ! t = OpSubscribe e u cb \<and> op_event (ops ! t') = e)"
proof
  assume "\<exists>s. sub_run ord ops s \<and> map_race s"
  then obtain s where s: "sub_run ord ops s" "map_race s" by blast
  note inv = sub_run_inv [OF s(1)]
  from inv s(2) obtain t t' e u cb where t: "t < length ops" "t' < length ops" "t \<noteq> t'"
    "st_at s ! t = Writing e u cb" "map_used (st_at s ! t') = Some e"
    by (rule race_writing)
  have op: "phase_op (st_at s ! i) = Some op \<Longrightarrow> ops ! i = op" if "i < length ops" for i op
    using inv that by (simp add: sub_inv_def)
  have "ops ! t = OpSubscribe e u cb" using op [OF t(1), of "OpSubscribe e u cb"] t(4) by simp
  moreover have "op_event (ops ! t') = e" using map_used_op [OF t(5)] op [OF t(2)] by auto
  ultimately show "\<exists>t t' e u cb. t < length ops \<and> t' < length ops \<and> t \<noteq> t' \<and> ops ! t = OpSubscribe e u cb \<and> op_event (ops ! t') = e"
    using t by blast
next
  assume "\<exists>t t' e u cb. t < length ops \<and> t' < length ops \<and> t \<noteq> t' \<and> ops ! t = OpSubscribe e u cb \<and> op_event (ops ! t') = e"
  then show "\<exists>s. sub_run ord ops s \<and> map_race s" by (elim exE conjE) (rule race_reached)
qed

section \<open>The effects are those of the atomic operations\<close>

definition entries :: "string \<Rightarrow> 'c subscriptions \<Rightarrow> (string \<times> 'c) list" where
  "entries e m = (case m e of None \<Rightarrow> [] | Some sub \<Rightarrow> sub)"

fun op_effect :: "'c sub_op \<Rightarrow> 'c subscriptions \<Rightarrow> 'c subscriptions" where
  "op_effect (OpSubscribe e u cb) m = snd (subs_Subscribe u e cb m)"
| "op_effect (OpGet e) m = m"
| "op_effect (OpUnsubscribe e u) m = subs_Unsubscribe e u m"

fun op_result :: "((string \<times> 'c) list \<Rightarrow> (string \<times> 'c) list) \<Rightarrow> 'c sub_op \<Rightarrow> 'c subscriptions \<Rightarrow> 'c list" where
  "op_result ord (OpGet e) m = subs_Get ord e m"
| "op_result ord _ m = []"

text \<open>A log run by the operations of \<open>Event\<close>, one after the other; \<open>None\<close> when a result is not theirs.\<close>

fun atomic_run :: "((string \<times> 'c) list \<Rightarrow> (string \<times> 'c) list) \<Rightarrow> (nat \<times> 'c sub_op \<times> 'c list) list \<Rightarrow>
    'c subscriptions \<Rightarrow> 'c subscriptions option" where
  "atomic_run ord [] m = Some m"
| "atomic_run ord ((t, op, r) # log) m = (if r = op_result ord op m then atomic_run ord log (op_effect op m) else None)"

lemma atomic_run_append:
  "atomic_run ord (log @ [(t, op, r)]) m = (case atomic_run ord log m of
     None \<Rightarrow> None | Some m' \<Rightarrow> if r = op_result ord op m' then Some (op_effect op m') else None)"
  by (induction ord log m rule: atomic_run.induct) auto

lemma entries_effect:
  "entries e' (op_effect op m) = (case op of
     OpSubscribe e u cb \<Rightarrow> if e' = e then map_put u cb (entries e m) else entries e' m
   | OpGet e \<Rightarrow> entries e' m
   | OpUnsubscribe e u \<Rightarrow> if e' = e then filter (\<lambda>(k, _). k \<noteq> u) (entries e m) else entries e' m)"
  by (cases op) (auto simp: entries_def subs_Subscribe_def getOrCreate_def subs_Unsubscribe_def Let_def split: option.splits)

lemma Get_entries: "ord [] = [] \<Longrightarrow> subs_Get ord e m = map snd (ord (entries e m))"
  by (auto simp: entries_def subs_Get_def split: option.splits)

text \<open>A step takes effect in the log and in the callbacks when it ends the operation, and otherwise in neither.\<close>

definition effect :: "((string \<times> 'c) list \<Rightarrow> (string \<times> 'c) list) \<Rightarrow> nat \<Rightarrow> 'c sub_state \<Rightarrow> 'c sub_state \<Rightarrow> 'c sub_op \<Rightarrow> bool" where
  "effect ord t s s' op \<longleftrightarrow> st_log s' = st_log s @ [(t, op, op_result ord op (st_subs s))]
     \<and> st_at s' = (st_at s)[t := Finished (op_result ord op (st_subs s))]
     \<and> (\<forall>e. entries e (st_subs s') = entries e (op_effect op (st_subs s)))"

definition no_effect :: "nat \<Rightarrow> 'c sub_state \<Rightarrow> 'c sub_state \<Rightarrow> bool" where
  "no_effect t s s' \<longleftrightarrow> st_log s' = st_log s \<and> (\<exists>p. st_at s' = (st_at s)[t := p] \<and> (\<forall>r. p \<noteq> Finished r))
     \<and> (\<forall>e. entries e (st_subs s') = entries e (st_subs s))"

lemma effect_step:
  assumes ord: "ord [] = []" and step: "goroutine_step ord t (st_at s ! t) s = Some s'"
    and there: "\<And>e. phase_event (st_at s ! t) = Some e \<Longrightarrow> st_subs s e \<noteq> None"
  shows "no_effect t s s' \<or> (\<exists>op. phase_op (st_at s ! t) = Some op \<and> effect ord t s s' op)"
proof (cases "st_at s ! t")
  case (Start op)
  then have "s' = go_to t (Locked op) (s\<lparr>st_lock := Some t\<rparr>)" using step by (simp split: option.splits)
  then show ?thesis by (auto simp: no_effect_def)
next
  case (Locked op)
  show ?thesis
  proof (cases op)
    case (OpSubscribe e u cb)
    then have "s' = go_to t (Created e u cb) (s\<lparr>st_subs := snd (getOrCreate e (st_subs s)), st_lock := None\<rparr>)"
      using step Locked by simp
    then show ?thesis by (auto simp: no_effect_def entries_def getOrCreate_def split: option.splits)
  next
    case (OpGet e)
    show ?thesis
    proof (cases "st_subs s e")
      case None
      then show ?thesis using step Locked OpGet by (auto simp: effect_def subs_Get_def)
    qed (use step Locked OpGet in \<open>auto simp: no_effect_def\<close>)
  next
    case (OpUnsubscribe e u)
    show ?thesis
    proof (cases "st_subs s e")
      case None
      then show ?thesis using step Locked OpUnsubscribe by (auto simp: effect_def subs_Unsubscribe_def)
    qed (use step Locked OpUnsubscribe in \<open>auto simp: no_effect_def\<close>)
  qed
next
  case (Created e u cb)
  then show ?thesis using step by (auto simp: no_effect_def)
next
  case (Writing e u cb)
  then obtain sub where "st_subs s e = Some sub" using there by auto
  then show ?thesis
    using step Writing by (auto simp: effect_def entries_def subs_Subscribe_def getOrCreate_def)
next
  case (Walking e)
  then show ?thesis using step by (auto simp: effect_def)
next
  case (Deleting e u)
  then show ?thesis using step by (auto simp: effect_def)
qed (use step in simp)

definition log_inv :: "((string \<times> 'c) list \<Rightarrow> (string \<times> 'c) list) \<Rightarrow> 'c sub_op list \<Rightarrow> 'c sub_state \<Rightarrow> bool" where
  "log_inv ord ops s \<longleftrightarrow> (\<exists>m. atomic_run ord (st_log s) newSubscriptions = Some m \<and> (\<forall>e. entries e (st_subs s) = entries e m))
     \<and> distinct (map fst (st_log s))
     \<and> (\<forall>t op r. (t, op, r) \<in> set (st_log s) \<longleftrightarrow> t < length ops \<and> op = ops ! t \<and> st_at s ! t = Finished r)"

lemma log_inv_effect:
  assumes ord: "ord [] = []" and inv: "log_inv ord ops s" and len: "length (st_at s) = length ops" and t: "t < length ops"
    and op: "phase_op (st_at s ! t) = Some (ops ! t)" and eff: "effect ord t s s' (ops ! t)"
  shows "log_inv ord ops s'"
proof -
  let ?op = "ops ! t"
  obtain m where m: "atomic_run ord (st_log s) newSubscriptions = Some m" "\<And>e. entries e (st_subs s) = entries e m"
    using inv unfolding log_inv_def by blast
  have r: "op_result ord ?op (st_subs s) = op_result ord ?op m" by (cases ?op) (simp_all add: Get_entries [where ord = ord, OF ord] m(2))
  have "entries e (op_effect ?op (st_subs s)) = entries e (op_effect ?op m)" for e unfolding entries_effect m(2) ..
  then have run: "\<exists>m. atomic_run ord (st_log s') newSubscriptions = Some m \<and> (\<forall>e. entries e (st_subs s') = entries e m)"
    using eff m(1) r by (simp add: effect_def atomic_run_append)
  have new: "t \<notin> fst ` set (st_log s)" using inv op by (auto simp: log_inv_def)
  have at: "st_at s' ! u = (if u = t then Finished (op_result ord ?op (st_subs s)) else st_at s ! u)" if "u < length ops" for u
    using that t len eff by (simp add: effect_def nth_list_update)
  have log: "(u, op, r) \<in> set (st_log s) \<longleftrightarrow> u < length ops \<and> op = ops ! u \<and> st_at s ! u = Finished r" for u op r
    using inv unfolding log_inv_def by blast
  have "(u, op, r) \<in> set (st_log s') \<longleftrightarrow> u < length ops \<and> op = ops ! u \<and> st_at s' ! u = Finished r" for u op r
  proof (cases "u = t")
    case True
    then show ?thesis using at [OF t] t new eff by (auto simp: effect_def image_iff)
  next
    case False
    then show ?thesis using at [of u] log eff by (auto simp: effect_def)
  qed
  moreover have "distinct (map fst (st_log s'))" using inv new eff by (simp add: effect_def log_inv_def)
  ultimately show ?thesis using run unfolding log_inv_def by blast
qed

lemma sub_run_log:
  assumes "sub_run ord ops s" and ord: "ord [] = []"
  shows "log_inv ord ops s"
  using assms(1)
proof (induction rule: sub_run.induct)
  case start
  show ?case by (auto simp: sub_init_def log_inv_def)
next
  case (step s t s')
  note inv = sub_run_inv [OF step.hyps(1), unfolded sub_inv_def]
  have len: "length (st_at s) = length ops" using inv by blast
  with step.hyps(3) have t: "t < length ops" by simp
  have "no_effect t s s' \<or> (\<exists>op. phase_op (st_at s ! t) = Some op \<and> effect ord t s s' op)"
    by (rule effect_step [OF ord step.hyps(4)]) (use inv t in blast)
  then show ?case
  proof (elim disjE exE conjE)
    assume none: "no_effect t s s'"
    have "\<not> (\<exists>r. st_at s ! t = Finished r)" using step.hyps(4) by auto
    then have "st_at s' ! u = Finished r \<longleftrightarrow> st_at s ! u = Finished r" if "u < length ops" for u r
      using that none len t by (cases "u = t") (auto simp: no_effect_def nth_list_update)
    with step.IH none show ?thesis by (simp add: log_inv_def no_effect_def cong: conj_cong)
  next
    fix op
    assume op: "phase_op (st_at s ! t) = Some op" and eff: "effect ord t s s' op"
    have "ops ! t = op" using inv t op by blast
    with op eff log_inv_effect [OF ord step.IH len t] show ?thesis by simp
  qed
qed

text \<open>
  C16: without a race the operations are atomic.  However goroutines take turns in operations on the subscriptions of a manager, up to
  a race, those that have finished took effect one after the other: run in that order by the atomic operations of \<open>Event\<close>, they
  return what they returned, and leave for every event the callbacks that are there.  Each finished goroutine is in the order
  once, with its operation and its result.
\<close>

theorem subscriptions_atomic:
  assumes "sub_run ord ops s" and "ord [] = []"
  shows "\<exists>m. atomic_run ord (st_log s) newSubscriptions = Some m \<and> (\<forall>e. entries e (st_subs s) = entries e m)
    \<and> distinct (map fst (st_log s))
    \<and> (\<forall>t op r. (t, op, r) \<in> set (st_log s) \<longleftrightarrow> t < length ops \<and> op = ops ! t \<and> st_at s ! t = Finished r)"
  using sub_run_log [OF assms] unfolding log_inv_def by blast

text \<open>A schedule of turns, to run the goroutines in a given order.\<close>

fun take_turns :: "((string \<times> 'c) list \<Rightarrow> (string \<times> 'c) list) \<Rightarrow> nat list \<Rightarrow> 'c sub_state \<Rightarrow> 'c sub_state option" where
  "take_turns ord [] s = Some s"
| "take_turns ord (t # ts) s =
     (if map_race s \<or> length (st_at s) \<le> t then None
      else Option.bind (goroutine_step ord t (st_at s ! t) s) (take_turns ord ts))"

lemma take_turns_run: "sub_run ord ops s \<Longrightarrow> take_turns ord ts s = Some s' \<Longrightarrow> sub_run ord ops s'"
proof (induction ts arbitrary: s)
  case (Cons t ts)
  then obtain s1 where s1: "\<not> map_race s" "t < length (st_at s)" "goroutine_step ord t (st_at s ! t) s = Some s1"
      "take_turns ord ts s1 = Some s'"
    by (auto simp: bind_eq_Some_conv not_le split: if_splits)
  with Cons show ?case using sub_run.step by blast
qed simp

text \<open>A \<open>Get\<close> in the middle of a \<open>Subscribe\<close> returns nothing, and comes before it.\<close>

definition sample_turns :: "nat list" where
  "sample_turns = [0, 0, 1, 1, 1, 0, 0]"

theorem subscriptions_atomic_witness:
  "\<exists>s m. take_turns (\<lambda>xs. xs) sample_turns (sub_init [OpSubscribe ''ping'' ''1'' (7 :: nat), OpGet ''ping'']) = Some s
     \<and> st_log s = [(1, OpGet ''ping'', []), (0, OpSubscribe ''ping'' ''1'' 7, [])]
     \<and> atomic_run (\<lambda>xs. xs) (st_log s) newSubscriptions = Some m \<and> entries ''ping'' (st_subs s) = entries ''ping'' m
     \<and> entries ''ping'' m = [(''1'', 7)]"
proof -
  let ?ops = "[OpSubscribe ''ping'' ''1'' (7 :: nat), OpGet ''ping'']"
  obtain s where s: "take_turns (\<lambda>xs. xs) sample_turns (sub_init ?ops) = Some s"
    and log: "st_log s = [(1, OpGet ''ping'', []), (0, OpSubscribe ''ping'' ''1'' 7, [])]" "entries ''ping'' (st_subs s) = [(''1'', 7)]"
    by (simp add: sample_turns_def sub_init_def map_race_def go_to_def finish_def getOrCreate_def newSubscriptions_def
        subs_Get_def entries_def upt_rec)
  have "sub_run (\<lambda>xs. xs) ?ops s" by (rule take_turns_run [OF sub_run.start s])
  then obtain m where "atomic_run (\<lambda>xs. xs) (st_log s) newSubscriptions = Some m" "entries ''ping'' (st_subs s) = entries ''ping'' m"
    using subscriptions_atomic [of "\<lambda>xs. xs" ?ops s] by blast
  with s log show ?thesis by auto
qed

section \<open>Next and the event loop\<close>

text \<open>
  \<open>Next\<close> subscribes a callback that sends the event on a channel without a buffer, waits for the channel or for the end of its
  context, and then, deferred, ends the subscription.  The event loop calls the callback, so it waits until the event is received.
  The subscription is there from the start; events of other names do not concern it.
\<close>

datatype next_phase = Selecting | Received event | ContextEnded | Returned "event result"

datatype loop_phase = LoopWaiting | LoopSending event

record next_state =
  nx_at :: next_phase
  nx_subscribed :: bool
  nx_loop :: loop_phase
  nx_handled :: nat   \<comment> \<open>events of the name that the loop is done with\<close>

definition next_init :: next_state where
  "next_init = \<lparr>nx_at = Selecting, nx_subscribed = True, nx_loop = LoopWaiting, nx_handled = 0\<rparr>"

inductive next_step :: "next_state \<Rightarrow> next_state \<Rightarrow> bool" where
  arrives: "nx_loop s = LoopWaiting \<Longrightarrow> nx_subscribed s \<Longrightarrow> next_step s (s\<lparr>nx_loop := LoopSending ev\<rparr>)"
| ignored: "nx_loop s = LoopWaiting \<Longrightarrow> \<not> nx_subscribed s \<Longrightarrow> next_step s (s\<lparr>nx_handled := Suc (nx_handled s)\<rparr>)"
| handed_over: "nx_loop s = LoopSending ev \<Longrightarrow> nx_at s = Selecting \<Longrightarrow>
    next_step s (s\<lparr>nx_at := Received ev, nx_loop := LoopWaiting, nx_handled := Suc (nx_handled s)\<rparr>)"
| context_ends: "nx_at s = Selecting \<Longrightarrow> next_step s (s\<lparr>nx_at := ContextEnded\<rparr>)"
| returns_event: "nx_at s = Received ev \<Longrightarrow> next_step s (s\<lparr>nx_at := Returned (Ok ev), nx_subscribed := False\<rparr>)"
| returns_error: "nx_at s = ContextEnded \<Longrightarrow> next_step s (s\<lparr>nx_at := Returned (Err ErrContextDone), nx_subscribed := False\<rparr>)"

inductive_cases next_stepE: "next_step s s'"

abbreviation next_steps :: "next_state \<Rightarrow> next_state \<Rightarrow> bool" where
  "next_steps \<equiv> next_step\<^sup>*\<^sup>*"

definition loop_blocked :: "next_state \<Rightarrow> bool" where
  "loop_blocked s \<longleftrightarrow> nx_loop s \<noteq> LoopWaiting \<and> nx_at s \<noteq> Selecting"

lemma blocked_step: "next_step s s' \<Longrightarrow> loop_blocked s \<Longrightarrow> loop_blocked s' \<and> nx_loop s' = nx_loop s \<and> nx_handled s' = nx_handled s"
  by (auto simp: loop_blocked_def elim!: next_stepE)

lemma blocked_steps: "next_steps s s' \<Longrightarrow> loop_blocked s \<Longrightarrow> loop_blocked s' \<and> nx_loop s' = nx_loop s \<and> nx_handled s' = nx_handled s"
  by (induction rule: rtranclp_induct) (auto dest: blocked_step)

text \<open>An event loop that is not blocked can handle a further event.\<close>

lemma free_handles:
  assumes "\<not> loop_blocked s" and "\<And>r. nx_at s = Returned r \<Longrightarrow> \<not> nx_subscribed s"
  shows "\<exists>s'. next_steps s s' \<and> nx_handled s' = Suc (nx_handled s)"
proof -
  have sending: "\<exists>s'. next_step s s' \<and> nx_handled s' = Suc (nx_handled s)" if "nx_loop s = LoopSending ev" "nx_at s = Selecting" for s ev
    using handed_over [OF that] by (intro exI conjI) auto
  have returned: "\<exists>s'. next_step s s' \<and> nx_handled s' = Suc (nx_handled s)" if "nx_loop s = LoopWaiting" "\<not> nx_subscribed s" for s
    using ignored [OF that] by (intro exI conjI) auto
  show ?thesis
  proof (cases "nx_loop s")
    case (LoopSending ev)
    with assms(1) have "nx_at s = Selecting" by (simp add: loop_blocked_def)
    with LoopSending sending show ?thesis by blast
  next
    case LoopWaiting
    show ?thesis
    proof (cases "nx_at s")
      case Selecting
      show ?thesis
      proof (cases "nx_subscribed s")
        case True
        have "next_step s (s\<lparr>nx_loop := LoopSending ev\<rparr>)" for ev by (rule arrives [OF LoopWaiting True])
        moreover have "\<exists>s'. next_step (s\<lparr>nx_loop := LoopSending ev\<rparr>) s' \<and> nx_handled s' = Suc (nx_handled s)" for ev
          using sending [of "s\<lparr>nx_loop := LoopSending ev\<rparr>" ev] Selecting by simp
        ultimately show ?thesis by (meson converse_rtranclp_into_rtranclp r_into_rtranclp)
      qed (use returned LoopWaiting in blast)
    next
      case (Received ev)
      let ?s = "s\<lparr>nx_at := Returned (Ok ev), nx_subscribed := False\<rparr>"
      have "next_step s ?s" by (rule returns_event [OF Received])
      moreover have "\<exists>s'. next_step ?s s' \<and> nx_handled s' = Suc (nx_handled s)" using returned [of ?s] LoopWaiting by simp
      ultimately show ?thesis by (meson converse_rtranclp_into_rtranclp r_into_rtranclp)
    next
      case ContextEnded
      let ?s = "s\<lparr>nx_at := Returned (Err ErrContextDone), nx_subscribed := False\<rparr>"
      have "next_step s ?s" by (rule returns_error [OF ContextEnded])
      moreover have "\<exists>s'. next_step ?s s' \<and> nx_handled s' = Suc (nx_handled s)" using returned [of ?s] LoopWaiting by simp
      ultimately show ?thesis by (meson converse_rtranclp_into_rtranclp r_into_rtranclp)
    next
      case (Returned r)
      with returned LoopWaiting assms(2) show ?thesis by blast
    qed
  qed
qed

lemma returned_unsubscribed: "next_steps next_init s \<Longrightarrow> nx_at s = Returned r \<Longrightarrow> \<not> nx_subscribed s"
proof (induction arbitrary: r rule: rtranclp_induct)
  case base
  then show ?case by (simp add: next_init_def)
next
  case (step s s')
  then show ?case by (auto elim!: next_stepE)
qed

text \<open>How a run gets there: a second event, or one after the end of the context, before the subscription is ended.\<close>

lemma second_event_blocks:
  "next_steps next_init (next_init\<lparr>nx_at := Returned (Ok ev), nx_subscribed := False, nx_loop := LoopSending ev', nx_handled := 1\<rparr>)"
proof -
  let ?s1 = "next_init\<lparr>nx_loop := LoopSending ev\<rparr>"
  let ?s2 = "next_init\<lparr>nx_at := Received ev, nx_handled := 1\<rparr>"
  let ?s3 = "next_init\<lparr>nx_at := Received ev, nx_loop := LoopSending ev', nx_handled := 1\<rparr>"
  let ?s4 = "next_init\<lparr>nx_at := Returned (Ok ev), nx_subscribed := False, nx_loop := LoopSending ev', nx_handled := 1\<rparr>"
  have "next_step next_init ?s1" using arrives [of next_init ev] by (simp add: next_init_def)
  moreover have "next_step ?s1 ?s2" using handed_over [of ?s1 ev] by (simp add: next_init_def)
  moreover have "next_step ?s2 ?s3" using arrives [of ?s2 ev'] by (simp add: next_init_def)
  moreover have "next_step ?s3 ?s4" using returns_event [of ?s3 ev] by (simp add: next_init_def)
  ultimately show ?thesis by (meson converse_rtranclp_into_rtranclp r_into_rtranclp)
qed

lemma late_event_blocks:
  "next_steps next_init (next_init\<lparr>nx_at := Returned (Err ErrContextDone), nx_subscribed := False, nx_loop := LoopSending ev\<rparr>)"
proof -
  let ?s1 = "next_init\<lparr>nx_at := ContextEnded\<rparr>" and ?s2 = "next_init\<lparr>nx_at := ContextEnded, nx_loop := LoopSending ev\<rparr>"
  let ?s3 = "next_init\<lparr>nx_at := Returned (Err ErrContextDone), nx_subscribed := False, nx_loop := LoopSending ev\<rparr>"
  have "next_step next_init ?s1" using context_ends [of next_init] by (simp add: next_init_def)
  moreover have "next_step ?s1 ?s2" using arrives [of ?s1 ev] by (simp add: next_init_def)
  moreover have "next_step ?s2 ?s3" using returns_error [of ?s2] by (simp add: next_init_def)
  ultimately show ?thesis by (meson converse_rtranclp_into_rtranclp r_into_rtranclp)
qed

text \<open>
  C17: \<open>Next\<close> can stop the event loop for ever.  In every state of a call of \<open>Next\<close> the event loop never handles a further event,
  whatever happens, exactly when it holds an event for the channel while \<open>Next\<close> no longer waits at it.  Such states
  are reached: with any second event that comes before the subscription is ended, and with any event after the end of the context;
  \<open>Next\<close> then returns as if nothing had happened.
\<close>

theorem next_blocks_loop:
  "(\<forall>s. next_steps next_init s \<longrightarrow> ((\<forall>s'. next_steps s s' \<longrightarrow> nx_handled s' = nx_handled s) \<longleftrightarrow> loop_blocked s))
    \<and> (\<exists>s. next_steps next_init s \<and> loop_blocked s \<and> nx_at s = Returned (Ok ev) \<and> nx_loop s = LoopSending ev')
    \<and> (\<exists>s. next_steps next_init s \<and> loop_blocked s \<and> nx_at s = Returned (Err ErrContextDone) \<and> nx_loop s = LoopSending ev')"
proof (intro conjI allI impI)
  fix s
  assume s: "next_steps next_init s"
  show "(\<forall>s'. next_steps s s' \<longrightarrow> nx_handled s' = nx_handled s) \<longleftrightarrow> loop_blocked s"
    using blocked_steps free_handles [of s] returned_unsubscribed [OF s] by (metis n_not_Suc_n)
next
  show "\<exists>s. next_steps next_init s \<and> loop_blocked s \<and> nx_at s = Returned (Ok ev) \<and> nx_loop s = LoopSending ev'"
    by (intro exI conjI, rule second_event_blocks) (simp_all add: loop_blocked_def)
  show "\<exists>s. next_steps next_init s \<and> loop_blocked s \<and> nx_at s = Returned (Err ErrContextDone) \<and> nx_loop s = LoopSending ev'"
    by (intro exI conjI, rule late_event_blocks) (simp_all add: loop_blocked_def)
qed

theorem next_blocks_loop_witness:
  "\<exists>s. next_steps next_init s \<and> nx_at s = Returned (Ok \<lparr>N = ''ping'', D = [1]\<rparr>)
     \<and> (\<forall>s'. next_steps s s' \<longrightarrow> nx_handled s' = nx_handled s)"
proof -
  note both = next_blocks_loop [of "\<lparr>N = ''ping'', D = [1]\<rparr>" "\<lparr>N = ''ping'', D = [2]\<rparr>"]
  obtain s where s: "next_steps next_init s" "loop_blocked s" "nx_at s = Returned (Ok \<lparr>N = ''ping'', D = [1]\<rparr>)"
    using both [THEN conjunct2, THEN conjunct1] by blast
  have "\<forall>s'. next_steps s s' \<longrightarrow> nx_handled s' = nx_handled s"
    using both [THEN conjunct1, rule_format, OF s(1)] s(2) by blast
  with s show ?thesis by blast
qed

end
