(* ===== verification/IpfsRace.thy ===== *)
theory IpfsRace
  imports IpfsSample
begin

text \<open>
  \<^verbatim>\<open>resolver/ipfs_resolver.go\<close> without a lock.  The caches and the map of pending queries are safe to use from many
  goroutines, but the resolver looks into them and changes them in two accesses: \<open>subscribe\<close> looks for a resource and
  adds one later, and \<open>canSendResolution\<close> loads the mark of a query and deletes it later.  In \<open>IpfsResolver\<close> both
  are atomic; here other goroutines can come between.
\<close>

section \<open>The parts of the operations\<close>

text \<open>\<open>subscribe\<close> after it has not found a resource.\<close>

definition subscribe_make :: "('b, 'n) ipfs_config \<Rightarrow> input \<Rightarrow> Address \<Rightarrow> (Resource, ('b, 'n) ipfs) io" where
  "subscribe_make c i addr s =
     (case NewManager (ir_topic c) (ir_peer c) (ir_nameSpace c) (ir_signerAddr c) addr (net s) of
        (Panic, n) \<Rightarrow> (Panic, s\<lparr>net := n\<rparr>)
      | (Err er, n) \<Rightarrow> (Err er, s\<lparr>net := n\<rparr>)
      | (Ok evm, n) \<Rightarrow>
          (let (response, evm1) = manager_On (i_uuid1 i) QueryNameResponse () evm;
               (request, evm2) = manager_On (i_uuid2 i) QueryNameRequest () evm1;
               res = \<lparr>res_addr = addr, res_evm = length (managers s),
                      res_request = request, res_response = response\<rparr>;
               (r, rc) = cache_Add (i_now i) (Addr addr) res (resourceCache s);
               s1 = s\<lparr>net := n, managers := managers s @ [evm2], resourceCache := rc\<rparr>
           in case r of Ok _ \<Rightarrow> (Ok res, s1) | Err er \<Rightarrow> (Err er, s1) | Panic \<Rightarrow> (Panic, s1)))"

text \<open>The goroutine of an answer after \<open>Load\<close> has found the mark of the query.\<close>

definition answer_send :: "('b, 'n) ipfs_config \<Rightarrow> input \<Rightarrow> Message \<Rightarrow> (unit, ('b, 'n) ipfs) io" where
  "answer_send c i msg s =
     (let s1 = removePendingQuery msg s in
      case ipfs_Subscribe c i (mAddress msg) s1 of
        (Panic, s2) \<Rightarrow> (Panic, s2)
      | (Err er, s2) \<Rightarrow> (Ok (), s2)
      | (Ok res, s2) \<Rightarrow>
          (case Message_ToJson msg of
             Ok data \<Rightarrow>
               (case evm_Emit c i QueryNameResponse (bytes_of data) res s2 of
                  (Panic, s3) \<Rightarrow> (Panic, s3) | (_, s3) \<Rightarrow> (Ok (), s3))
           | Err er \<Rightarrow> (Ok (), s2)
           | Panic \<Rightarrow> (Panic, s2)))"

section \<open>Goroutines\<close>

datatype work =
    Looking input Address            \<comment> \<open>the call of \<open>subscribe\<close>\<close>
  | Making input Address             \<comment> \<open>it has found no resource\<close>
  | Resourced "Resource result"
  | Waking input Message             \<comment> \<open>an answer after its sleep\<close>
  | Loaded input Message             \<comment> \<open>it has found the query pending\<close>
  | Answered "unit result"

fun work_next :: "('b, 'n) ipfs_config \<Rightarrow> work \<Rightarrow> ('b, 'n) ipfs \<Rightarrow> (work \<times> ('b, 'n) ipfs) option" where
  "work_next c (Looking i addr) s =
     (case cache_Get (i_now i) (Addr addr) (resourceCache s) of
        Ok (Some res) \<Rightarrow> Some (Resourced (Ok res), s)
      | Panic \<Rightarrow> Some (Resourced Panic, s)
      | _ \<Rightarrow> Some (Making i addr, s))"
| "work_next c (Making i addr) s = (case subscribe_make c i addr s of (r, s') \<Rightarrow> Some (Resourced r, s'))"
| "work_next c (Waking i msg) s =
     (if pending s (qReference (ExtractQuery msg)) then Some (Loaded i msg, s) else Some (Answered (Ok ()), s))"
| "work_next c (Loaded i msg) s = (case answer_send c i msg s of (r, s') \<Rightarrow> Some (Answered r, s'))"
| "work_next c _ s = None"

inductive work_step :: "('b, 'n) ipfs_config \<Rightarrow> work list \<times> ('b, 'n) ipfs \<Rightarrow> work list \<times> ('b, 'n) ipfs \<Rightarrow> bool" for c where
  "t < length ws \<Longrightarrow> work_next c (ws ! t) s = Some (w, s') \<Longrightarrow> work_step c (ws, s) (ws[t := w], s')"

abbreviation work_steps :: "('b, 'n) ipfs_config \<Rightarrow> work list \<times> ('b, 'n) ipfs \<Rightarrow> work list \<times> ('b, 'n) ipfs \<Rightarrow> bool" where
  "work_steps c \<equiv> (work_step c)\<^sup>*\<^sup>*"

lemma work_stepI:
  assumes "work_steps c (ws0, s0) (ws, s)" and "t < length ws" and "work_next c (ws ! t) s = Some (w, s')" and "ws[t := w] = ws'"
  shows "work_steps c (ws0, s0) (ws', s')"
  using work_step.intros [OF assms(2,3)] assms(1) unfolding assms(4) by (rule rtranclp.rtrancl_into_rtrancl [rotated])

text \<open>A goroutine that is not disturbed does what the atomic operation does.\<close>

lemma subscribe_alone:
  "ipfs_subscribe c i addr s = (case work_next c (Looking i addr) s of
     Some (Making i' addr', s') \<Rightarrow> subscribe_make c i' addr' s'
   | Some (Resourced r, s') \<Rightarrow> (r, s')
   | _ \<Rightarrow> (Panic, s))"
  by (auto simp: ipfs_subscribe_def subscribe_make_def Let_def split: result.split option.split prod.split)

lemma answer_alone:
  "sendResolution c i msg s = (case work_next c (Waking i msg) s of
     Some (Loaded i' msg', s') \<Rightarrow> answer_send c i' msg' s'
   | Some (Answered r, s') \<Rightarrow> (r, s')
   | _ \<Rightarrow> (Panic, s))"
  by (auto simp: sendResolution_def answer_send_def canSendResolution_def removePendingQuery_def Message_ToJson_def Let_def
      split: result.split prod.split)

section \<open>Two resources for one address\<close>

lemma subscribe_make_new:
  assumes "ir_topic c = (\<lambda>t n. (Ok (), n))"
  shows "\<exists>res rc. subscribe_make c i addr s
      = (Ok res, s\<lparr>managers := managers s @ [manager_of c (i_uuid1 i) (i_uuid2 i) addr], resourceCache := rc\<rparr>)
    \<and> res_addr res = addr \<and> res_evm res = length (managers s)
    \<and> cache_Add (i_now i) (Addr addr) res (resourceCache s) = (Ok (), rc)"
  using manager_On_twice
  by (auto simp: subscribe_make_def assms NewManager_def bind_io_def return_io_def manager_of_def Let_def cache_Add_def AddWithTTL_def
      split: prod.split)

text \<open>Two resources made one after the other: the later one is in the cache, and the manager of the earlier one stays as it is.\<close>

lemma two_resources:
  assumes "ir_topic c = (\<lambda>t n. (Ok (), n))" and "defaultTTL (resourceCache s) = 0" and "0 < i_now iB" and "Addr aA = Addr aB"
    and "mAddress rec = Addr aB"
  shows "\<exists>rA sA rB sB. subscribe_make c iA aA s = (Ok rA, sA) \<and> subscribe_make c iB aB sA = (Ok rB, sB)
    \<and> res_addr rA = aA \<and> res_addr rB = aB
    \<and> managers sB = managers s @ [manager_of c (i_uuid1 iA) (i_uuid2 iA) aA, manager_of c (i_uuid1 iB) (i_uuid2 iB) aB]
    \<and> (\<forall>t. isManaged t rec sB = HasKeys aB)
    \<and> (\<forall>i. managers (snd (ipfs_Remove i (Addr aB) sB)) ! length (managers s) = manager_of c (i_uuid1 iA) (i_uuid2 iA) aA)"
proof -
  let ?mA = "manager_of c (i_uuid1 iA) (i_uuid2 iA) aA" and ?mB = "manager_of c (i_uuid1 iB) (i_uuid2 iB) aB"
  obtain rA rcA where A: "subscribe_make c iA aA s = (Ok rA, s\<lparr>managers := managers s @ [?mA], resourceCache := rcA\<rparr>)"
      "res_addr rA = aA" "cache_Add (i_now iA) (Addr aA) rA (resourceCache s) = (Ok (), rcA)"
    using subscribe_make_new [OF assms(1), of iA aA s] by blast
  let ?sA = "s\<lparr>managers := managers s @ [?mA], resourceCache := rcA\<rparr>"
  obtain rB rcB where B: "subscribe_make c iB aB ?sA = (Ok rB, ?sA\<lparr>managers := managers ?sA @ [?mB], resourceCache := rcB\<rparr>)"
      "res_addr rB = aB" "res_evm rB = length (managers ?sA)" "cache_Add (i_now iB) (Addr aB) rB (resourceCache ?sA) = (Ok (), rcB)"
    using subscribe_make_new [OF assms(1), of iB aB ?sA] by blast
  let ?sB = "?sA\<lparr>managers := managers ?sA @ [?mB], resourceCache := rcB\<rparr>"
  have "defaultTTL rcA = 0" using A(3) assms(2) by (auto simp: cache_Add_def AddWithTTL_def Let_def)
  then have get: "cache_Get t (Addr aB) rcB = Ok (Some rB)" for t
    using B(4) memory_cache.get_forever [OF assms(3)] by (simp add: cache_Add_def)
  have "isManaged t rec ?sB = HasKeys aB" for t using get assms(5) B(2) by (simp add: isManaged_def)
  moreover have "managers (snd (ipfs_Remove i (Addr aB) ?sB)) ! length (managers s) = ?mA" for i
    using get B(3) by (simp add: ipfs_Remove_def cache_Delete_def Let_def nth_append)
  ultimately show ?thesis
    using A(1,2) B(1,2) by (intro exI [of _ rA] exI [of _ ?sA] exI [of _ rB] exI [of _ ?sB]) simp
qed

text \<open>Two goroutines that both go on to make a resource do so in one of two orders.\<close>

lemma two_makers:
  fixes c :: "('b, 'n) ipfs_config" and i1 i2 a1 a2 and s :: "('b, 'n) ipfs"
  defines "M1 \<equiv> subscribe_make c i1 a1" and "M2 \<equiv> subscribe_make c i2 a2"
  assumes "work_steps c ([Making i1 a1, Making i2 a2], s) p"
  shows "p \<in> {([Making i1 a1, Making i2 a2], s), ([Resourced (fst (M1 s)), Making i2 a2], snd (M1 s)),
      ([Making i1 a1, Resourced (fst (M2 s))], snd (M2 s)),
      ([Resourced (fst (M1 s)), Resourced (fst (M2 (snd (M1 s))))], snd (M2 (snd (M1 s)))),
      ([Resourced (fst (M1 (snd (M2 s)))), Resourced (fst (M2 s))], snd (M1 (snd (M2 s))))}"
  using assms(3)
proof (induction rule: rtranclp_induct)
  case (step p q)
  from step.hyps(2) obtain ws t u w u' where q: "p = (ws, u)" "q = (ws[t := w], u')" "t < length ws" "work_next c (ws ! t) u = Some (w, u')"
    by (cases rule: work_step.cases) blast
  have "length ws = 2" using step.IH q(1) by auto
  then have "t = 0 \<or> t = 1" using q(3) by auto
  with step.IH q show ?case by (auto simp: M1_def M2_def split: prod.splits)
qed simp

lemma both_make:
  "work_steps c ([Making i1 a1, Making i2 a2], s)
     ([Resourced (fst (subscribe_make c i1 a1 s)), Resourced (fst (subscribe_make c i2 a2 (snd (subscribe_make c i1 a1 s))))],
      snd (subscribe_make c i2 a2 (snd (subscribe_make c i1 a1 s))))"
  "work_steps c ([Making i1 a1, Making i2 a2], s)
     ([Resourced (fst (subscribe_make c i1 a1 (snd (subscribe_make c i2 a2 s)))), Resourced (fst (subscribe_make c i2 a2 s))],
      snd (subscribe_make c i1 a1 (snd (subscribe_make c i2 a2 s))))"
proof -
  have "work_steps c ([Making i1 a1, Making i2 a2], s) ([Resourced (fst (subscribe_make c i1 a1 s)), Making i2 a2], snd (subscribe_make c i1 a1 s))"
    by (rule work_stepI [OF rtranclp.rtrancl_refl, where t = 0]) (simp_all split: prod.split)
  then show "work_steps c ([Making i1 a1, Making i2 a2], s)
     ([Resourced (fst (subscribe_make c i1 a1 s)), Resourced (fst (subscribe_make c i2 a2 (snd (subscribe_make c i1 a1 s))))],
      snd (subscribe_make c i2 a2 (snd (subscribe_make c i1 a1 s))))"
    by (rule work_stepI [where t = 1]) (simp_all split: prod.split)
  have "work_steps c ([Making i1 a1, Making i2 a2], s) ([Making i1 a1, Resourced (fst (subscribe_make c i2 a2 s))], snd (subscribe_make c i2 a2 s))"
    by (rule work_stepI [OF rtranclp.rtrancl_refl, where t = 1]) (simp_all split: prod.split)
  then show "work_steps c ([Making i1 a1, Making i2 a2], s)
     ([Resourced (fst (subscribe_make c i1 a1 (snd (subscribe_make c i2 a2 s)))), Resourced (fst (subscribe_make c i2 a2 s))],
      snd (subscribe_make c i1 a1 (snd (subscribe_make c i2 a2 s))))"
    by (rule work_stepI [where t = 0]) (simp_all split: prod.split)
qed

text \<open>
  C21: managing an address races with asking about it.  A goroutine manages an address with its keys while another one, of a query or of a
  message from the network, subscribes to the same address; there is no resource yet, so that both can come to make one.
  Then, however they go on, both return a resource without an error, and the address has two event managers, each
  with the handlers of the resolver; the resource made last is the one in the cache, so that the address is managed exactly
  when \<open>Manage\<close> was last (\<open>manage_last\<close>); and \<open>Remove\<close> leaves the handlers of the manager that was made first.  Both orders happen.  Where
  \<open>Manage\<close> was first, it has succeeded in vain: \<open>Add\<close> of every name of the address fails.
\<close>

theorem managing_races:
  fixes c :: "('b, 'n) ipfs_config" and i1 i2 addr
  defines "keyless \<equiv> \<lparr>Keys = None, Addr = Addr addr\<rparr>"
    and "m1 \<equiv> manager_of c (i_uuid1 i1) (i_uuid2 i1) addr" and "m2 \<equiv> manager_of c (i_uuid1 i2) (i_uuid2 i2) \<lparr>Keys = None, Addr = Addr addr\<rparr>"
  assumes "ir_topic c = (\<lambda>t n. (Ok (), n))" and "HasKeys addr" and "0 < i_now i1" "0 < i_now i2"
    and "\<And>t. cache_Get t (Addr addr) (resourceCache s) = Ok None" and "defaultTTL (resourceCache s) = 0"
    and "getQueryNameRequestFromName (ir_env c) name = Ok rec" and "mAddress rec = Addr addr"
  shows "work_steps c ([Looking i1 addr, Looking i2 keyless], s) ([Making i1 addr, Making i2 keyless], s)
    \<and> (\<forall>a b s'. work_steps c ([Making i1 addr, Making i2 keyless], s) ([Resourced a, Resourced b], s') \<longrightarrow>
         (\<exists>r1 r2 manage_last. a = Ok r1 \<and> b = Ok r2 \<and> res_addr r1 = addr \<and> res_addr r2 = keyless
           \<and> managers s' = managers s @ (if manage_last then [m2, m1] else [m1, m2])
           \<and> (\<forall>t. isManaged t rec s' = manage_last)
           \<and> (\<forall>i. managers (snd (ipfs_Remove i (Addr addr) s')) ! length (managers s) = (if manage_last then m2 else m1))))
    \<and> (\<exists>a b s'. work_steps c ([Making i1 addr, Making i2 keyless], s) ([Resourced a, Resourced b], s') \<and> (\<forall>t. isManaged t rec s'))
    \<and> (\<exists>a b s'. work_steps c ([Making i1 addr, Making i2 keyless], s) ([Resourced a, Resourced b], s')
         \<and> (\<forall>i v. ipfs_Add c i name v s' = (Err ErrUnmanagedAddress, s')))"
proof -
  have k: "Addr keyless = Addr addr" "\<not> HasKeys keyless" "m2 = manager_of c (i_uuid1 i2) (i_uuid2 i2) keyless"
    by (simp_all add: keyless_def m2_def HasKeys_def)
  obtain r1 s1 r2 s12 where first: "subscribe_make c i1 addr s = (Ok r1, s1)" "subscribe_make c i2 keyless s1 = (Ok r2, s12)"
      "res_addr r1 = addr" "res_addr r2 = keyless" "managers s12 = managers s @ [m1, m2]" "\<forall>t. \<not> isManaged t rec s12"
      "\<forall>i. managers (snd (ipfs_Remove i (Addr addr) s12)) ! length (managers s) = m1"
    using two_resources [of c s i2 addr keyless rec i1] assms(4,7,9,11) k by (auto simp: m1_def)
  obtain q2 s2 q1 s21 where last: "subscribe_make c i2 keyless s = (Ok q2, s2)" "subscribe_make c i1 addr s2 = (Ok q1, s21)"
      "res_addr q1 = addr" "res_addr q2 = keyless" "managers s21 = managers s @ [m2, m1]" "\<forall>t. isManaged t rec s21"
      "\<forall>i. managers (snd (ipfs_Remove i (Addr addr) s21)) ! length (managers s) = m2"
    using two_resources [of c s i1 keyless addr rec i2] assms(4-6,9,11) k by (auto simp: m1_def)
  have "work_steps c ([Looking i1 addr, Looking i2 keyless], s) ([Making i1 addr, Looking i2 keyless], s)"
    by (rule work_stepI [OF rtranclp.rtrancl_refl, where t = 0]) (simp_all add: assms(8))
  then have look: "work_steps c ([Looking i1 addr, Looking i2 keyless], s) ([Making i1 addr, Making i2 keyless], s)"
    by (rule work_stepI [where t = 1]) (simp_all add: assms(8) k(1))
  have ends: "\<exists>r1 r2 manage_last. a = Ok r1 \<and> b = Ok r2 \<and> res_addr r1 = addr \<and> res_addr r2 = keyless
      \<and> managers s' = managers s @ (if manage_last then [m2, m1] else [m1, m2]) \<and> (\<forall>t. isManaged t rec s' = manage_last)
      \<and> (\<forall>i. managers (snd (ipfs_Remove i (Addr addr) s')) ! length (managers s) = (if manage_last then m2 else m1))"
    if run: "work_steps c ([Making i1 addr, Making i2 keyless], s) ([Resourced a, Resourced b], s')" for a b s'
  proof -
    have "a = Ok r1 \<and> b = Ok r2 \<and> s' = s12 \<or> a = Ok q1 \<and> b = Ok q2 \<and> s' = s21"
      using two_makers [OF run] by (simp add: first(1,2) last(1,2))
    then show ?thesis
    proof
      assume "a = Ok r1 \<and> b = Ok r2 \<and> s' = s12"
      then show ?thesis using first(3-7) by (intro exI [of _ r1] exI [of _ r2] exI [of _ False]) simp
    next
      assume "a = Ok q1 \<and> b = Ok q2 \<and> s' = s21"
      then show ?thesis using last(3-7) by (intro exI [of _ q1] exI [of _ q2] exI [of _ True]) simp
    qed
  qed
  have "work_steps c ([Making i1 addr, Making i2 keyless], s) ([Resourced (Ok q1), Resourced (Ok q2)], s21)"
      "work_steps c ([Making i1 addr, Making i2 keyless], s) ([Resourced (Ok r1), Resourced (Ok r2)], s12)"
    using both_make [of c i1 addr i2 keyless s] by (simp_all add: first(1,2) last(1,2))
  moreover have "ipfs_Add c i name v s12 = (Err ErrUnmanagedAddress, s12)" for i v
    using first(6) assms(10) by (simp add: ipfs_Add_def)
  ultimately show ?thesis using look ends last(6) by blast
qed

theorem managing_races_witness:
  "\<exists>a b s'. work_steps (sample_config ''A'')
       ([Making (sample_input 1) sample_address, Making (sample_input 2) \<lparr>Keys = None, Addr = Addr sample_address\<rparr>], state_B)
       ([Resourced a, Resourced b], s')
     \<and> ipfs_Add (sample_config ''A'') (sample_input 3) sample_name ''v'' s' = (Err ErrUnmanagedAddress, s')"
proof -
  obtain rec where rec: "getQueryNameRequestFromName sample_env sample_name = Ok rec" "mAddress rec = Addr sample_address"
    by (rule sample_request)
  have keys: "HasKeys sample_address" using HasKeys_pair [of sample_address sample_key] sample_address_signer by (simp add: signer_ok_def)
  have name: "getQueryNameRequestFromName (ir_env (sample_config ''A'')) sample_name = Ok rec" using rec(1) by simp
  have now: "0 < i_now (sample_input 1)" "0 < i_now (sample_input 2)" by simp_all
  from managing_races [OF sample_config_sel(4) keys now state_B_empty(1,3) name rec(2)] show ?thesis by blast
qed

section \<open>Two answers to one query\<close>

lemma answer_send_bus:
  assumes "on_bus c" and "signer_ok (ir_env c) k (ir_signerAddr c)" and "utf8_valid (i_ts i)"
    and "cache_Get (i_now i) (mAddress msg) (resourceCache s) = Ok (Some res)" and "managers s ! res_evm res = manager_of c u1 u2 addr"
  shows "\<exists>js. answer_send c i msg s = (Ok (), removePendingQuery msg s\<lparr>net := net s @ [(ir_nameSpace c @ ''-'' @ Addr addr, js)]\<rparr>)"
proof -
  let ?m = "manager_of c u1 u2 addr" and ?s1 = "removePendingQuery msg s"
  obtain data where data: "Message_ToJson msg = Ok data" by (simp add: Message_ToJson_def)
  have signer: "signer_ok (ir_env c) k (mgr_signer ?m)" using assms(2) by simp
  obtain js where js: "\<forall>publish (w :: bus). Emit (ir_env c) publish (i_rnd i) (i_ts i) QueryNameResponse (bytes_of data) ?m w = publish (getTopicName ?m) js w"
    using Emit_publishes [OF signer assms(3) query_names(4), of "i_rnd i" "bytes_of data"] by (elim exE conjE) (rule that)
  have "ipfs_Subscribe c i (mAddress msg) ?s1 = (Ok res, ?s1)"
    unfolding ipfs_Subscribe_def using assms(4) by (intro subscribe_cached) (simp add: removePendingQuery_def)
  moreover have "evm_Emit c i QueryNameResponse (bytes_of data) res ?s1 = (Ok (), ?s1\<lparr>net := net s @ [(getTopicName ?m, js)]\<rparr>)"
    using Emit_on_bus [OF assms(1), of ?s1 res ?m i QueryNameResponse "bytes_of data" js] js assms(5) by (simp add: removePendingQuery_def)
  ultimately have "answer_send c i msg s = (Ok (), ?s1\<lparr>net := net s @ [(getTopicName ?m, js)]\<rparr>)"
    using data by (simp add: answer_send_def)
  then show ?thesis by auto
qed

text \<open>
  One query, two answers.  Two answers to the same query wait, as when the query has come in from two peers.  One after
  the other only the first is sent (\<open>query_answered_once\<close>); but when both load the mark of the query before
  either deletes it, both are published.
\<close>

theorem racing_answers:
  assumes "on_bus c" and "signer_ok (ir_env c) k (ir_signerAddr c)" and "utf8_valid (i_ts i1)" "utf8_valid (i_ts i2)"
    and "\<And>t. cache_Get t a (resourceCache s) = Ok (Some res)" and "managers s ! res_evm res = manager_of c u1 u2 addr"
    and "mAddress m1 = a" "mAddress m2 = a" and "qReference (ExtractQuery m1) = ref" "qReference (ExtractQuery m2) = ref" and "pending s ref"
  shows "\<exists>js1 js2 s'. work_steps c ([Waking i1 m1, Waking i2 m2], s) ([Answered (Ok ()), Answered (Ok ())], s')
    \<and> net s' = net s @ [(ir_nameSpace c @ ''-'' @ Addr addr, js1), (ir_nameSpace c @ ''-'' @ Addr addr, js2)]"
proof -
  obtain js1 where js1: "answer_send c i1 m1 s = (Ok (), removePendingQuery m1 s\<lparr>net := net s @ [(ir_nameSpace c @ ''-'' @ Addr addr, js1)]\<rparr>)"
    using answer_send_bus [OF assms(1-3), where msg = m1] assms(5-7) by blast
  let ?s1 = "removePendingQuery m1 s\<lparr>net := net s @ [(ir_nameSpace c @ ''-'' @ Addr addr, js1)]\<rparr>"
  have get: "cache_Get t (mAddress m2) (resourceCache ?s1) = Ok (Some res)" for t
    using assms(5,8) by (simp add: removePendingQuery_def)
  have mgr: "managers ?s1 ! res_evm res = manager_of c u1 u2 addr"
    using assms(6) by (simp add: removePendingQuery_def)
  obtain js2 where js2: "answer_send c i2 m2 ?s1 = (Ok (), removePendingQuery m2 ?s1\<lparr>net := net ?s1 @ [(ir_nameSpace c @ ''-'' @ Addr addr, js2)]\<rparr>)"
    using answer_send_bus [OF assms(1,2,4) get [of "i_now i2"] mgr] by blast
  have "work_steps c ([Waking i1 m1, Waking i2 m2], s) ([Loaded i1 m1, Waking i2 m2], s)"
    by (rule work_stepI [OF rtranclp.rtrancl_refl, where t = 0]) (simp_all add: assms(9,11))
  then have "work_steps c ([Waking i1 m1, Waking i2 m2], s) ([Loaded i1 m1, Loaded i2 m2], s)"
    by (rule work_stepI [where t = 1]) (simp_all add: assms(10,11))
  then have "work_steps c ([Waking i1 m1, Waking i2 m2], s) ([Answered (Ok ()), Loaded i2 m2], ?s1)"
    by (rule work_stepI [where t = 0]) (simp_all add: js1)
  then have "work_steps c ([Waking i1 m1, Waking i2 m2], s) ([Answered (Ok ()), Answered (Ok ())],
      removePendingQuery m2 ?s1\<lparr>net := net ?s1 @ [(ir_nameSpace c @ ''-'' @ Addr addr, js2)]\<rparr>)"
    by (rule work_stepI [where t = 1]) (simp_all add: js2 [simplified])
  then show ?thesis
    by (intro exI [of _ js1] exI [of _ js2] exI conjI, assumption) simp
qed

text \<open>\<open>A\<close> takes the query for its name twice.\<close>

lemma state_A_idle: "sending state_A = []"
proof -
  have "sending state_A = sending state_A0" "sending state_A0 = sending state_B"
    unfolding state_A_def state_A0_def
    by (rule ipfs_Add_frame(2) [OF prod.collapse [symmetric]], rule ipfs_Manage_frame(2) [OF prod.collapse [symmetric]])
  then show ?thesis by (simp add: state_B_def ipfs_init_def)
qed

theorem racing_answers_witness:
  "\<exists>rec m1 m2 s js1 js2 s'. dispatch (sample_config ''A'') (sample_input 4) rec state_A = (Ok (), s\<lparr>sending := [m1]\<rparr>)
     \<and> dispatch (sample_config ''A'') (sample_input 5) rec (s\<lparr>sending := [m1]\<rparr>) = (Ok (), s\<lparr>sending := [m1, m2]\<rparr>)
     \<and> work_steps (sample_config ''A'') ([Waking (sample_input 6) m1, Waking (sample_input 6) m2], s\<lparr>sending := []\<rparr>)
         ([Answered (Ok ()), Answered (Ok ())], s')
     \<and> net s' = net state_A @ [js1, js2]"
proof -
  let ?c = "sample_config ''A''"
  obtain rec where rec: "getQueryNameRequestFromName sample_env sample_name = Ok rec" "mAddress rec = Addr sample_address"
    by (rule sample_request)
  note q = request_of_name(1,2) [OF rec(1)]
  obtain res where A: "\<And>t. cache_Get t (Addr sample_address) (resourceCache state_A) = Ok (Some res)"
    "res_addr res = sample_address" "\<And>t. memory_Resolve t sample_name (backend state_A) = Ok ''v''"
    "managers state_A ! res_evm res = manager_of ?c ''1'' ''2'' sample_address"
    using state_A_ready by auto
  note A = A state_A_idle
  let ?s = "state_A\<lparr>pending := (pending state_A)(GetID sample_env rec := True)\<rparr>"
  obtain m1 where m1: "dispatch ?c (sample_input 4) rec state_A = (Ok (), ?s\<lparr>sending := [m1]\<rparr>)"
      "mAddress m1 = mAddress rec" "ExtractQuery m1 = \<lparr>qData = ''v'', qReference = GetID sample_env rec\<rparr>"
    using query_answered [of rec "sample_input 4" state_A res ?c sample_key "''v''"]
      rec(2) q A sample_address_utf8 sample_address_signer by auto
  obtain m2 where m2: "dispatch ?c (sample_input 5) rec (?s\<lparr>sending := [m1]\<rparr>) = (Ok (), ?s\<lparr>sending := [m1, m2]\<rparr>)"
      "mAddress m2 = mAddress rec" "ExtractQuery m2 = \<lparr>qData = ''v'', qReference = GetID sample_env rec\<rparr>"
    using query_answered [of rec "sample_input 5" "?s\<lparr>sending := [m1]\<rparr>" res ?c sample_key "''v''"]
      rec(2) q A sample_address_utf8 sample_address_signer by auto
  have signer: "signer_ok (ir_env ?c) other_key (ir_signerAddr ?c)" using sample_config_signer [of "''A''"] by simp
  have "\<exists>js1 js2 s'. work_steps ?c ([Waking (sample_input 6) m1, Waking (sample_input 6) m2], ?s\<lparr>sending := []\<rparr>)
         ([Answered (Ok ()), Answered (Ok ())], s')
     \<and> net s' = net (?s\<lparr>sending := []\<rparr>) @ [(ir_nameSpace ?c @ ''-'' @ Addr sample_address, js1), (ir_nameSpace ?c @ ''-'' @ Addr sample_address, js2)]"
    by (rule racing_answers [where a = "Addr sample_address" and ref = "GetID sample_env rec" and res = res, OF _ signer])
      (use A m1(2,3) m2(2,3) rec(2) in simp_all)
  then obtain j1 j2 s' where run: "work_steps ?c ([Waking (sample_input 6) m1, Waking (sample_input 6) m2], ?s\<lparr>sending := []\<rparr>)
         ([Answered (Ok ()), Answered (Ok ())], s')" and published: "net s' = net (?s\<lparr>sending := []\<rparr>) @ [j1, j2]"
    by blast
  from published have "net s' = net state_A @ [j1, j2]" by simp
  with m1(1) m2(1) run show ?thesis by blast
qed

end
