(* ===== verification/IpfsAttacks.thy ===== *)
theory IpfsAttacks
  imports IpfsTypes NameBackends
begin

text \<open>
  What a peer without any key of an address can do to those who listen on the topic of the address.
\<close>

section \<open>A query that stops the program\<close>

text \<open>A resource of a reachable state gets what is emitted for its two events.\<close>

lemma resource_receives:
  assumes "ipfs_reachable c s" and "cdata (resourceCache s) a = Some r" and "from \<noteq> ir_peer c"
    and "eventName = QueryNameRequest \<or> eventName = QueryNameResponse"
  shows "from \<noteq> mgr_id (managers s ! res_evm (cvalue r))
    \<and> (\<exists>x. mgr_subs (managers s ! res_evm (cvalue r)) eventName = Some [x])"
  using resource_valid [OF assms(1,2)] assms(3,4) by (auto simp: resource_ok_def)

lemma name_of_ones_panics:
  assumes "Split name CHR ''/'' = x # a # y # rest" and "a \<noteq> ''''" and "set a \<subseteq> {CHR ''1''}"
  shows "getQueryNameRequestFromName E name = Panic"
proof -
  have "IsValid E a = Panic" using assms(2,3) by (auto simp: IsValid_Panic_iff)
  then show ?thesis using assms(1) by (simp add: getQueryNameRequestFromName_def)
qed

definition query_message :: "string \<Rightarrow> Message" where
  "query_message name = Message_zero\<lparr>mType := QueryNameRequest, mPayload := Some (QueryPayload \<lparr>qData = name, qReference = ''''\<rparr>)\<rparr>"

text \<open>
  C22: one message stops every peer with a Bolt database.  Whoever can publish on the topic of an address can send a query
  for a name whose address is made of the character 1 alone: at every peer that listens on the topic and keeps its
  names in a Bolt database, the handler panics while it resolves the name, and the program ends.
\<close>

theorem query_stops_bolt_peer:
  fixes c :: "('d, 'n) ipfs_config"
  assumes "ipfs_reachable c s" and "ir_bResolve c = (\<lambda>_. bolt_Resolve (ir_env c) B)"
    and "cdata (resourceCache s) a = Some r" and "from \<noteq> ir_peer c" and "\<And>z. ord [z] = [z]"
    and "signer_ok (ir_env c) k (mgr_signer m)" and "utf8_valid ts"
    and "Split name CHR ''/'' = x # ones # y # rest" and "ones \<noteq> ''''" and "set ones \<subseteq> {CHR ''1''}" and "utf8_valid name"
  shows "\<exists>js. (\<forall>publish (w :: bus). Emit (ir_env c) publish rnd ts QueryNameRequest
        (bytes_of (render (JObj (message_fields (query_message name))))) m w = publish (getTopicName m) js w)
    \<and> fst (receive c i ord (res_evm (cvalue r)) from js s) = Panic"
proof -
  let ?q = "query_message name"
  have ok: "message_ok QueryType ?q"
    using assms(11) by (simp add: query_message_def message_ok_def payload_ok_def type_of_payload_def Message_zero_def)
  obtain z where z: "mgr_subs (managers s ! res_evm (cvalue r)) QueryNameRequest = Some [z]"
    and other: "from \<noteq> mgr_id (managers s ! res_evm (cvalue r))"
    using resource_receives [OF assms(1,3,4)] by blast
  obtain js where js: "\<forall>publish (w :: bus). Emit (ir_env c) publish rnd ts QueryNameRequest
        (bytes_of (render (JObj (message_fields ?q)))) m w = publish (getTopicName m) js w"
    and rcv: "receive c i ord (res_evm (cvalue r)) from js s = bind_io (dispatch c i ?q) (\<lambda>_. return_io ()) s"
    using query_transport_to [OF assms(6,7) query_names(3) ok refl other assms(5) z, of rnd i] by (elim exE conjE) (rule that)
  have "bolt_Resolve (ir_env c) B (qData (ExtractQuery ?q)) b = Panic" for b
    using name_of_ones_panics [OF assms(8-10)] by (simp add: bolt_Resolve_def query_message_def ExtractQuery_def)
  then have "fst (dispatch c i ?q s) = Panic"
    by (simp add: dispatch_def handleQuery_def assms(2) Let_def) (simp add: query_message_def)
  then have "fst (receive c i ord (res_evm (cvalue r)) from js s) = Panic"
    unfolding rcv by (auto simp: bind_io_def split: prod.split result.split)
  with js show ?thesis by blast
qed

text \<open>A peer with the Bolt database in memory, which has asked about the address.\<close>

definition bolt_config :: "(bytes \<rightharpoonup> bytes \<rightharpoonup> bytes, bus) ipfs_config" where
  "bolt_config = \<lparr>ir_env = sample_env, ir_peer = ''D'', ir_nameSpace = ''ns'',
     ir_publish = (\<lambda>t d n. (Ok (), n @ [(t, d)])), ir_topic = (\<lambda>t n. (Ok (), n)),
     ir_signerAddr = \<lparr>Keys = Some (keypair_of other_key), Addr = ''D''\<rparr>,
     ir_bAdd = (\<lambda>_. bolt_Add memory_bolt), ir_bResolve = (\<lambda>_. bolt_Resolve sample_env memory_bolt)\<rparr>"

definition state_D :: "(bytes \<rightharpoonup> bytes \<rightharpoonup> bytes, bus) ipfs" where
  "state_D = ipfs_init (snd (NewBoltBackend memory_bolt Map.empty)) []"

definition state_D1 :: "(bytes \<rightharpoonup> bytes \<rightharpoonup> bytes, bus) ipfs" where
  "state_D1 = snd (ipfs_Subscribe bolt_config (sample_input 1) (Addr sample_address) state_D)"

lemma state_D1_reachable: "ipfs_reachable bolt_config state_D1"
proof -
  have "ipfs_Subscribe bolt_config (sample_input 1) (Addr sample_address) state_D
      = (fst (ipfs_Subscribe bolt_config (sample_input 1) (Addr sample_address) state_D), state_D1)"
    by (simp add: state_D1_def)
  then have "ipfs_step bolt_config (sample_input 1) state_D state_D1" by (rule do_subscribe)
  then show ?thesis unfolding ipfs_reachable_def state_D_def by blast
qed

lemma state_D1_resource:
  obtains r where "cdata (resourceCache state_D1) (Addr sample_address) = Some r" and "res_evm (cvalue r) = 0"
proof -
  obtain res rc where sub: "ipfs_subscribe bolt_config (sample_input 1) \<lparr>Keys = None, Addr = Addr sample_address\<rparr> state_D
      = (Ok res, state_D\<lparr>managers := [manager_of bolt_config ''1'' ''2'' \<lparr>Keys = None, Addr = Addr sample_address\<rparr>], resourceCache := rc\<rparr>)"
      "res_evm res = 0" "cache_Add 1 (Addr sample_address) res (resourceCache state_D) = (Ok (), rc)"
    using subscribe_new [of bolt_config "sample_input 1" "\<lparr>Keys = None, Addr = Addr sample_address\<rparr>" state_D]
    by (auto simp: bolt_config_def sample_input_def state_D_def ipfs_init_def NewMemoryCache_def cache_Get_def)
  have "\<exists>r. cdata rc (Addr sample_address) = Some r \<and> cvalue r = res"
    using sub(3) by (auto simp: cache_Add_def AddWithTTL_def)
  then show ?thesis using sub that by (auto simp: state_D1_def ipfs_Subscribe_def)
qed

theorem query_stops_bolt_peer_witness:
  "\<exists>js. (\<forall>publish (w :: bus). Emit sample_env publish [] ''2024-02-29T23:59:59Z'' QueryNameRequest
        (bytes_of (render (JObj (message_fields (query_message ''/1/x''))))) attacker w = publish (getTopicName attacker) js w)
    \<and> fst (receive bolt_config (sample_input 2) (\<lambda>xs. xs) 0 ''C'' js state_D1) = Panic"
proof -
  obtain r where r: "cdata (resourceCache state_D1) (Addr sample_address) = Some r" "res_evm (cvalue r) = 0"
    by (rule state_D1_resource)
  have "signer_ok sample_env other_key (mgr_signer attacker)"
    using sample_config_signer [of "''C''"] by (simp add: attacker_def)
  moreover have "Split ''/1/x'' CHR ''/'' = ['''', ''1'', ''x'']" by simp
  ultimately show ?thesis
    using query_stops_bolt_peer [OF state_D1_reachable _ r(1), of memory_bolt "''C''" "\<lambda>xs. xs" other_key attacker
        "''2024-02-29T23:59:59Z''" "''/1/x''" "''''" "''1''" "''x''" "[]" "[]" "sample_input 2"] r(2)
    by (simp add: bolt_config_def)
qed

end
