(* ===== verification/IpfsLiveness.thy ===== *)
theory IpfsLiveness
  imports IpfsTypes
begin

text \<open>
  What happens in the end: the runs of the resolver without end in which no goroutine that waits to send an answer is
  passed over for ever.
\<close>

section \<open>Fair runs\<close>

text \<open>The step in which the goroutine of an answer goes on.\<close>

definition takes :: "('b, 'n) ipfs_config \<Rightarrow> input \<Rightarrow> Message \<Rightarrow> ('b, 'n) ipfs \<Rightarrow> ('b, 'n) ipfs \<Rightarrow> bool" where
  "takes c i msg s s' \<longleftrightarrow> (\<exists>xs ys r. sending s = xs @ msg # ys \<and> sendResolution c i msg (s\<lparr>sending := xs @ ys\<rparr>) = (r, s'))"

text \<open>An answer that waits from some time on for ever is taken at some time.\<close>

definition fair_run :: "('b, 'n) ipfs_config \<Rightarrow> (nat \<Rightarrow> input) \<Rightarrow> (nat \<Rightarrow> ('b, 'n) ipfs) \<Rightarrow> bool" where
  "fair_run c inp st \<longleftrightarrow> ipfs_reachable c (st 0) \<and> (\<forall>n. ipfs_step c (inp n) (st n) (st (Suc n)))
     \<and> (\<forall>msg n. (\<forall>m\<ge>n. msg \<in> set (sending (st m))) \<longrightarrow> (\<exists>m\<ge>n. takes c (inp m) msg (st m) (st (Suc m))))"

lemma fair_run_reachable: "fair_run c inp st \<Longrightarrow> ipfs_reachable c (st n)"
  by (induction n) (auto simp: fair_run_def intro: ipfs_reachable_step)

section \<open>Answers wait until they are taken\<close>

lemma handleEvent_sending:
  assumes "handleEvent c i ev s = (r, s')"
  shows "set (sending s) \<subseteq> set (sending s')"
proof -
  have query: "set (sending s) \<subseteq> set (sending s')" if "handleQuery c i msg s = (r, s')" for msg
    using that by (auto simp: handleQuery_def addPendingQuery_def ipfs_Subscribe_def Let_def
        split: result.splits prod.splits if_splits option.splits dest!: frame_bundle(1))
  have resolution: "sending s' = sending s" if "handleResolution c i msg s = (r, s')" for msg
    using that by (auto simp: handleResolution_def removePendingQuery_def putInCache_def Let_def
        split: result.splits option.splits if_splits prod.splits)
  show ?thesis
    using assms query resolution
    by (auto simp: handleEvent_def dispatch_def return_io_def split: result.splits if_splits)
qed

lemma receive_sending:
  assumes "receive c i ord k from data s = (r, s')"
  shows "set (sending s) \<subseteq> set (sending s')"
proof (rule receive_keeps [OF _ assms])
  show "keeps (\<lambda>t. set (sending s) \<subseteq> set (sending t)) (handleEvent c i ev)" for ev
    unfolding keeps_def using handleEvent_sending by blast
qed simp

text \<open>A step that loses an answer is the one that takes it.\<close>

lemma step_sending:
  assumes "ipfs_step c i s s'" and "msg \<in> set (sending s)" and "msg \<notin> set (sending s')"
  shows "takes c i msg s s'"
  using assms
proof (induction rule: ipfs_step.induct)
  case (do_subscribe a s r s')
  then show ?case using ipfs_subscribe_frame(3) by (fastforce simp: ipfs_Subscribe_def)
next
  case (do_receive k s ord "from" data r s')
  then show ?case using receive_sending by blast
next
  case (do_send s xs msg' ys r s')
  then have "sending s' = xs @ ys" using sendResolution_frame(2) [OF do_send(2)] by simp
  with do_send have "msg = msg'" by auto
  with do_send show ?case unfolding takes_def by blast
qed (auto simp: ipfs_Add_frame ipfs_Resolve_frame ipfs_Manage_frame ipfs_Remove_frame)

lemma waiting_taken:
  assumes "fair_run c inp st" and "msg \<in> set (sending (st n))"
  shows "\<exists>m\<ge>n. takes c (inp m) msg (st m) (st (Suc m))"
proof (cases "\<forall>m\<ge>n. msg \<in> set (sending (st m))")
  case True
  then show ?thesis using assms(1) by (simp add: fair_run_def)
next
  case False
  define m where "m = (LEAST m. n \<le> m \<and> msg \<notin> set (sending (st m)))"
  have m: "n \<le> m" "msg \<notin> set (sending (st m))"
    unfolding m_def using LeastI_ex [of "\<lambda>m. n \<le> m \<and> msg \<notin> set (sending (st m))"] False by auto
  obtain l where l: "m = Suc l" "n \<le> l" using m assms(2) by (cases m) (auto simp: le_Suc_eq)
  have "msg \<in> set (sending (st l))"
    using not_less_Least [of l "\<lambda>m. n \<le> m \<and> msg \<notin> set (sending (st m))"] l unfolding m_def by auto
  moreover have "ipfs_step c (inp l) (st l) (st (Suc l))" using assms(1) by (simp add: fair_run_def)
  ultimately have "takes c (inp l) msg (st l) (st (Suc l))" using step_sending m(2) l(1) by blast
  with l(2) show ?thesis by blast
qed

section \<open>What taking an answer does\<close>

lemma sendResolution_settles:
  assumes "sendResolution c i msg s = (r, s')"
  shows "\<not> pending s' (qReference (ExtractQuery msg))"
  using assms
  by (auto simp: sendResolution_def canSendResolution_def Message_ToJson_def ipfs_Subscribe_def Let_def
      split: prod.splits if_splits result.splits dest!: frame_bundle)

text \<open>
  What a message of the topic is to whoever takes it from there: the event that answers a query, with an answer as its data.
\<close>

definition carries_answer :: "crypto_env \<Rightarrow> bytes \<Rightarrow> Message \<Rightarrow> bool" where
  "carries_answer E js answer \<longleftrightarrow> (\<exists>data. newEventFromPubSubMessage E js = Ok \<lparr>N = QueryNameResponse, D = data\<rparr>
     \<and> Message_FromJson Message_zero data (Some QueryType) = Ok answer)"

text \<open>So it is dispatched by every resolver with a manager of the topic that is not the sender's.\<close>

lemma carried_dispatched:
  assumes "carries_answer (ir_env c) js answer" and "from \<noteq> mgr_id (managers s ! j)" and "ord [x] = [x]"
    and "mgr_subs (managers s ! j) QueryNameResponse = Some [x]"
  shows "receive c i ord j from js s = bind_io (dispatch c i answer) (\<lambda>_. return_io ()) s"
  using assms by (auto simp: carries_answer_def receive_def loopOperation_def subs_Get_def handleEvent_def event_Data_def)

text \<open>With a network that takes everything, an answer to a query that is still pending is published on the topic of its address.\<close>

lemma sendResolution_publishes:
  assumes "ipfs_typed c s" and "on_bus c" and "signer_ok (ir_env c) k (ir_signerAddr c)" and "utf8_valid (i_ts i)"
    and "pending s (qReference (ExtractQuery msg))" and "sendResolution c i msg s = (r, s')" and "message_ok QueryType msg"
  shows "\<exists>js. net s' = net s @ [(ir_nameSpace c @ ''-'' @ mAddress msg, js)] \<and> carries_answer (ir_env c) js msg"
proof -
  let ?s1 = "s\<lparr>pending := (pending s)(qReference (ExtractQuery msg) := False)\<rparr>"
  let ?data = "bytes_of (render (JObj (message_fields msg)))"
  have topic: "ir_topic c = (\<lambda>t n. (Ok (), n))" using assms(2) by (simp add: on_bus_def)
  obtain res t where sub: "ipfs_Subscribe c i (mAddress msg) ?s1 = (Ok res, t)" "net t = net s"
    and res: "resource_ok c (managers t) (mAddress msg) res"
    using ipfs_Subscribe_resource [of c ?s1 i "mAddress msg"] assms(1) topic by auto
  let ?m = "manager_of c (sub_id (res_response res)) (sub_id (res_request res)) (res_addr res)"
  have "signer_ok (ir_env c) k (mgr_signer ?m)" using assms(3) by simp
  from Emit_publishes [OF this assms(4) query_names(4), of "i_rnd i" ?data]
  obtain js where js: "\<And>publish (w :: bus). Emit (ir_env c) publish (i_rnd i) (i_ts i) QueryNameResponse ?data ?m w
      = publish (getTopicName ?m) js w"
    and ev: "newEventFromPubSubMessage (ir_env c) js = Ok \<lparr>N = QueryNameResponse, D = ?data\<rparr>" by blast
  have "evm_Emit c i QueryNameResponse ?data res t = (Ok (), t\<lparr>net := net t @ [(getTopicName ?m, js)]\<rparr>)"
    using res by (intro Emit_on_bus [OF assms(2) _ js]) (simp add: resource_ok_def)
  moreover have json: "Message_ToJson msg = Ok (render (JObj (message_fields msg)))" by (simp only: Message_ToJson_def)
  ultimately have "net s' = net s @ [(getTopicName ?m, js)]"
    using assms(5,6) sub by (auto simp: sendResolution_def canSendResolution_def simp del: render.simps)
  moreover have "carries_answer (ir_env c) js msg"
    using ev message_json.dec_enc_ok [OF assms(7) json] unfolding carries_answer_def by blast
  ultimately show ?thesis using res by (auto simp: resource_ok_def)
qed

text \<open>
  In a fair run, whatever else happens, an answer that waits to be sent is taken at some time; if its query is still
  pending then, the answer is published on the topic of its address; and after that the query is not pending.
\<close>

lemma waiting_answer_sent:
  fixes c :: "('b, bus) ipfs_config"
  assumes "fair_run c inp st" and "msg \<in> set (sending (st n))" and "on_bus c" and "signer_ok (ir_env c) k (ir_signerAddr c)"
    and "\<And>n. utf8_valid (i_ts (inp n))" and "message_ok QueryType msg"
  shows "\<exists>m\<ge>n. takes c (inp m) msg (st m) (st (Suc m)) \<and> \<not> pending (st (Suc m)) (qReference (ExtractQuery msg))
    \<and> (pending (st m) (qReference (ExtractQuery msg)) \<longrightarrow>
        (\<exists>js. net (st (Suc m)) = net (st m) @ [(ir_nameSpace c @ ''-'' @ mAddress msg, js)] \<and> carries_answer (ir_env c) js msg))"
proof -
  obtain m where m: "n \<le> m" and taken: "takes c (inp m) msg (st m) (st (Suc m))"
    using waiting_taken [OF assms(1,2)] by blast
  obtain xs ys r where split: "sending (st m) = xs @ msg # ys"
    and run: "sendResolution c (inp m) msg ((st m)\<lparr>sending := xs @ ys\<rparr>) = (r, st (Suc m))"
    using taken unfolding takes_def by blast
  have "ipfs_typed c (st m)" by (rule reachable_typed [OF fair_run_reachable [OF assms(1)]])
  with split have "ipfs_typed c ((st m)\<lparr>sending := xs @ ys\<rparr>)" by (auto simp: ipfs_typed_def)
  then have "pending (st m) (qReference (ExtractQuery msg)) \<longrightarrow>
      (\<exists>js. net (st (Suc m)) = net (st m) @ [(ir_nameSpace c @ ''-'' @ mAddress msg, js)] \<and> carries_answer (ir_env c) js msg)"
    using sendResolution_publishes [OF _ assms(3,4,5) _ run assms(6)] by simp
  with m taken sendResolution_settles [OF run] show ?thesis by blast
qed

section \<open>Properties\<close>

text \<open>
  C10: a query that can be answered is answered.  When, in a fair run without end, a query comes in for an address that is
  managed with a key pair, and the backend knows the name, then an answer with the backend's value and the
  identifier of the query, signed with the key of the address, is taken at a later time; if by then the query is
  still pending, since nobody else has answered it, one message is published on the topic of the address, and whoever
  takes it from there decodes it to the event that answers a query with that very answer as its data; and the
  query is not pending after it.
\<close>

theorem query_answered_eventually:
  fixes c :: "('b, bus) ipfs_config"
  assumes "fair_run c inp st" and "on_bus c" and "signer_ok (ir_env c) kc (ir_signerAddr c)" and "\<And>n. utf8_valid (i_ts (inp n))"
    and "handleQuery c (inp n) rec (st n) = (r, st (Suc n))" and "mType rec = QueryNameRequest" and "utf8_valid (mAddress rec)"
    and "cache_Get (i_now (inp n)) (mAddress rec) (resourceCache (st n)) = Ok (Some res)" and "signer_ok (ir_env c) k (res_addr res)"
    and "ir_bResolve c (i_now (inp n)) (qData (ExtractQuery rec)) (backend (st n)) = Ok v" and "utf8_valid v"
  shows "\<exists>answer m. n < m \<and> takes c (inp m) answer (st m) (st (Suc m))
    \<and> ExtractQuery answer = \<lparr>qData = v, qReference = GetID (ir_env c) rec\<rparr> \<and> mPublicKey answer = PublicKey (keypair_of k)
    \<and> Message_VerifySignature (ir_env c) answer = Ok ()
    \<and> (pending (st m) (GetID (ir_env c) rec) \<longrightarrow>
        (\<exists>js. net (st (Suc m)) = net (st m) @ [(ir_nameSpace c @ ''-'' @ mAddress rec, js)] \<and> carries_answer (ir_env c) js answer))
    \<and> \<not> pending (st (Suc m)) (GetID (ir_env c) rec)"
proof -
  obtain answer where run: "dispatch c (inp n) rec (st n)
      = (Ok (), (st n)\<lparr>pending := (pending (st n))(GetID (ir_env c) rec := True), sending := sending (st n) @ [answer]\<rparr>)"
    and answer: "Message_VerifySignature (ir_env c) answer = Ok ()" "mAddress answer = mAddress rec" "message_ok QueryType answer"
      "ExtractQuery answer = \<lparr>qData = v, qReference = GetID (ir_env c) rec\<rparr>" "mPublicKey answer = PublicKey (keypair_of k)"
    using query_answered [OF assms(6-11,4)] by blast
  have "answer \<in> set (sending (st (Suc n)))" using run assms(5,6) by (auto simp: dispatch_def)
  from waiting_answer_sent [OF assms(1) this assms(2-4) answer(3)] answer show ?thesis
    by (auto simp: Suc_le_eq)
qed

lemma attacker_query_received:
  assumes "getQueryNameRequestFromName sample_env sample_name = Ok rec" and "utf8_valid (mAddress rec)"
    and "managers s ! j = manager_of (sample_config ''A'') u1 u2 addr"
  shows "\<exists>js. receive (sample_config ''A'') (sample_input t) (\<lambda>xs. xs) j ''C'' js s
    = bind_io (dispatch (sample_config ''A'') (sample_input t) rec) (\<lambda>_. return_io ()) s"
proof -
  have ok: "message_ok QueryType rec" by (rule request_of_name(3) [OF assms(1) sample_name_utf8 assms(2)])
  have "signer_ok sample_env other_key (mgr_signer attacker)"
    using sample_config_signer [of "''C''"] by (simp add: attacker_def)
  from query_transport_to [OF this _ query_names(3) ok, of "i_ts (sample_input t)" "sample_config ''A''" "''C''" s j "\<lambda>xs. xs" "(u2, ())"
      "[]" "sample_input t"]
  show ?thesis using assms(3) by auto
qed

lemma state_A_sending: "sending state_A = []"
proof -
  let ?c = "sample_config ''A''"
  have "sending state_A0 = sending state_B"
    by (rule ipfs_Manage_frame(2) [of ?c "sample_input 1" sample_address _ "fst (ipfs_Manage ?c (sample_input 1) sample_address state_B)"])
      (simp add: state_A0_def)
  moreover have "sending state_A = sending state_A0"
    by (rule ipfs_Add_frame(2) [of ?c "sample_input 2" sample_name "''v''" _ "fst (ipfs_Add ?c (sample_input 2) sample_name ''v'' state_A0)"])
      (simp add: state_A_def)
  ultimately show ?thesis by (simp add: state_B_def ipfs_init_def)
qed

lemma state_A_manager:
  assumes "cache_Get t (Addr sample_address) (resourceCache state_A) = Ok (Some res)"
  shows "res_evm res < length (managers state_A)"
proof -
  obtain r where "cdata (resourceCache state_A) (Addr sample_address) = Some r" "cvalue r = res"
    using assms by (auto simp: cache_Get_def split: option.splits if_splits)
  then show ?thesis using resource_valid [OF state_A_reachable] by (fastforce simp: resource_ok_def)
qed

text \<open>Two steps, and a last state that keeps itself and in which nothing waits.\<close>

lemma settled_run_fair:
  assumes "ipfs_reachable c s0" and "ipfs_step c i s0 s1" and "ipfs_step c i s1 s2" and "ipfs_step c i s2 s2" and "sending s2 = []"
  shows "fair_run c (\<lambda>_. i) (\<lambda>n. if n = 0 then s0 else if n = 1 then s1 else s2)"
proof -
  let ?st = "\<lambda>n :: nat. if n = 0 then s0 else if n = 1 then s1 else s2"
  have "ipfs_step c i (?st n) (?st (Suc n))" for n using assms(2-4) by simp
  moreover have "\<exists>m\<ge>n. msg \<notin> set (sending (?st m))" for msg n
    by (intro exI [of _ "n + 2"]) (simp add: assms(5))
  moreover have "ipfs_reachable c (?st 0)" using assms(1) by simp
  ultimately show ?thesis unfolding fair_run_def by metis
qed

text \<open>A run of the resolver \<open>A\<close>: it takes a query, sends the answer, and then only hears itself.\<close>

theorem query_answered_eventually_witness:
  "\<exists>st answer m. fair_run (sample_config ''A'') (\<lambda>n. sample_input 3) st \<and> takes (sample_config ''A'') (sample_input 3) answer (st m) (st (Suc m))
     \<and> qData (ExtractQuery answer) = ''v''
     \<and> (\<exists>js. net (st (Suc m)) = net (st m) @ [(''ns-'' @ Addr sample_address, js)] \<and> carries_answer sample_env js answer)"
proof -
  let ?c = "sample_config ''A''" and ?i = "sample_input 3"
  obtain rec where rec: "getQueryNameRequestFromName sample_env sample_name = Ok rec" "mAddress rec = Addr sample_address"
    by (rule sample_request)
  note q = request_of_name [OF rec(1)]
  have utf8: "utf8_valid (i_ts ?i)" "utf8_valid (mAddress rec)" "utf8_valid ''v''" using rec(2) sample_address_utf8 by simp_all
  obtain res where A: "\<And>t. cache_Get t (Addr sample_address) (resourceCache state_A) = Ok (Some res)" "res_addr res = sample_address"
      "managers state_A ! res_evm res = manager_of ?c ''1'' ''2'' sample_address"
      "\<And>t. memory_Resolve t sample_name (backend state_A) = Ok ''v''"
    using state_A_ready by blast
  have signers: "signer_ok (ir_env ?c) sample_key (res_addr res)" "signer_ok (ir_env ?c) other_key (ir_signerAddr ?c)"
    using A(2) sample_address_signer sample_config_signer [of "''A''"] by simp_all
  have get: "cache_Get (i_now ?i) (mAddress rec) (resourceCache state_A) = Ok (Some res)"
    and resolved: "ir_bResolve ?c (i_now ?i) (qData (ExtractQuery rec)) (backend state_A) = Ok ''v''"
    using A(1,4) rec(2) q(2) by simp_all
  obtain a where run: "dispatch ?c ?i rec state_A
      = (Ok (), state_A\<lparr>pending := (pending state_A)(GetID (ir_env ?c) rec := True), sending := sending state_A @ [a]\<rparr>)"
    and a: "message_ok QueryType a" "mAddress a = mAddress rec" "ExtractQuery a = \<lparr>qData = ''v'', qReference = GetID (ir_env ?c) rec\<rparr>"
    using query_answered [OF q(1) utf8(2) get signers(1) resolved utf8(3,1)] by blast
  define s1 where "s1 = state_A\<lparr>pending := (pending state_A)(GetID (ir_env ?c) rec := True), sending := [a]\<rparr>"
  obtain js where js: "receive ?c ?i (\<lambda>xs. xs) (res_evm res) ''C'' js state_A = (Ok (), s1)"
    using attacker_query_received [OF rec(1) utf8(2) A(3), of 3] run by (auto simp: bind_io_def return_io_def s1_def state_A_sending)
  obtain r s2 where send: "sendResolution ?c ?i a (s1\<lparr>sending := [] @ []\<rparr>) = (r, s2)" and s2: "managers s2 = managers state_A"
    using answer_published [of ?c other_key ?i a "s1\<lparr>sending := []\<rparr>" res "''1''" "''2''" sample_address] signers(2)
      utf8 a A(1,3) rec(2) by (auto simp: s1_def)
  have "receive ?c ?i (\<lambda>xs. xs) (res_evm res) ''A'' [] s2 = (Ok (), s2)"
    using A(3) s2 by (simp add: receive_def loopOperation_def return_io_def)
  then have "ipfs_step ?c ?i s2 s2" by (intro do_receive [of "res_evm res"]) (simp_all add: s2 state_A_manager [OF A(1)])
  moreover have "ipfs_step ?c ?i state_A s1" by (rule do_receive [OF state_A_manager [OF A(1)] js])
  moreover have "ipfs_step ?c ?i s1 s2" by (rule do_send [OF _ send]) (simp add: s1_def)
  moreover have last_sending: "sending s2 = []" using sendResolution_frame(2) [OF send] by simp
  ultimately have fair: "fair_run ?c (\<lambda>_. ?i) (\<lambda>n. if n = 0 then state_A else if n = 1 then s1 else s2)" (is "fair_run _ _ ?st")
    by (intro settled_run_fair [OF state_A_reachable])
  have handled: "handleQuery ?c ?i rec (?st 0) = (Ok (), ?st (Suc 0))"
    using run q(1) by (simp add: dispatch_def s1_def state_A_sending)
  have start: "cache_Get (i_now ?i) (mAddress rec) (resourceCache (?st 0)) = Ok (Some res)"
      "ir_bResolve ?c (i_now ?i) (qData (ExtractQuery rec)) (backend (?st 0)) = Ok ''v''" and bus: "on_bus ?c"
    using get resolved by simp_all
  obtain got m where got: "takes ?c ?i got (?st m) (?st (Suc m))" "ExtractQuery got = \<lparr>qData = ''v'', qReference = GetID (ir_env ?c) rec\<rparr>"
      "pending (?st m) (GetID (ir_env ?c) rec) \<longrightarrow>
        (\<exists>js. net (?st (Suc m)) = net (?st m) @ [(ir_nameSpace ?c @ ''-'' @ mAddress rec, js)] \<and> carries_answer (ir_env ?c) js got)"
    using query_answered_eventually [OF fair bus signers(2) utf8(1) handled q(1) utf8(2) start(1) signers(1) start(2) utf8(3)]
    by (elim exE conjE) (rule that)
  have "m = 1"
  proof (rule ccontr)
    assume "m \<noteq> 1"
    then have "sending (?st m) = []" using last_sending state_A_sending by simp
    then show False using got(1) unfolding takes_def by simp
  qed
  then have m: "?st m = s1" "?st (Suc m) = s2" by simp_all
  have "pending (?st m) (GetID (ir_env ?c) rec)" unfolding m by (simp add: s1_def)
  with got(3) obtain j where "net (?st (Suc m)) = net (?st m) @ [(ir_nameSpace ?c @ ''-'' @ mAddress rec, j)]"
      "carries_answer (ir_env ?c) j got" by blast
  then have "\<exists>js. net (?st (Suc m)) = net (?st m) @ [(''ns-'' @ Addr sample_address, js)] \<and> carries_answer sample_env js got"
    unfolding m by (intro exI [of _ j]) (simp add: rec(2))
  moreover have "qData (ExtractQuery got) = ''v''" by (simp add: got(2))
  ultimately show ?thesis using fair got(1) by blast
qed

end
