(* ===== verification/Spec2Isabelle.thy ===== *)
theory Spec2Isabelle
  imports Iterator BackendSample ManagedNames Util DagRace Follower EventRace IpfsRace IpfsAttacks IpfsLiveness
begin

text \<open>
  A verification development for \<^verbatim>\<open>setinstone\<close>: signed, append-only graphs of nodes kept in a
  content-addressed store, whose heads are found under names that a resolver keeps or asks other peers for.

  \<^bold>\<open>The program and the theories\<close>

  An owner has a key pair; the address (\<^verbatim>\<open>address/\<close>) is a Base58 text made from the hash of the public key.
  A timeline (\<^verbatim>\<open>graph/\<close>) makes nodes for the owner and gives them to the \<open>Dag\<close> (\<^verbatim>\<open>dag/\<close>), which verifies each of them,
  writes its JSON to a data store (\<^verbatim>\<open>datastore/\<close>) under the hash of the bytes, and moves the name of the
  branch's head in a resolver (\<^verbatim>\<open>resolver/\<close>).  The resolver over the network asks for names with signed messages
  (\<^verbatim>\<open>message/\<close>) that travel as events (\<^verbatim>\<open>event/\<close>) over a publish and subscribe service, and keeps what it
  learns in caches (\<^verbatim>\<open>cache/\<close>).

  \<^item> \<open>Prelude\<close>: outcomes (\<open>Ok\<close>, \<open>Err\<close> with the sentinel errors of all packages, \<open>Panic\<close>), operations on a state
    (\<open>io\<close>), strings and bytes, the interface of encoders (locales \<open>partial_encoding\<close>, \<open>encoding\<close>).
  \<^item> \<open>Radix\<close>, \<open>GoStd\<close>, \<open>GoTime\<close>, \<open>Base64\<close>, \<open>JsonText\<close>, \<open>JsonValue\<close>: what the code uses of Go's
    standard library, written out: \<^verbatim>\<open>big.Int\<close> and its bytes, \<^verbatim>\<open>encoding/hex\<close>, \<^verbatim>\<open>strings\<close>, RFC 3339 times,
    \<^verbatim>\<open>encoding/base64\<close>, and a printer and parser of \<^verbatim>\<open>encoding/json\<close> with its escapes, UTF-8 and depth limit.
  \<^item> \<open>Base58\<close>, \<open>Address\<close>, \<open>Crypto\<close>: \<^verbatim>\<open>address/base58.go\<close>, \<^verbatim>\<open>address/address.go\<close>, \<^verbatim>\<open>address/keypair.go\<close>,
    \<^verbatim>\<open>crypto/crypto.go\<close>, \<^verbatim>\<open>internal/util/bytes.go\<close>.  The algorithms (SHA-256, RIPEMD-160, MD5, ECDSA, AES-GCM, x509, PEM)
    are the record \<open>crypto_env\<close>, an argument of everything.
  \<^item> \<open>Cache\<close>: \<^verbatim>\<open>cache/\<close>, a map with expiring records; the clock is an argument.  Interface: locale \<open>cache\<close>.
  \<^item> \<open>DataStore\<close>: \<^verbatim>\<open>datastore/data-store.go\<close> (locale \<open>data_store\<close>) and the store in memory.
  \<^item> \<open>Message\<close>, \<open>MessageJson\<close>: \<^verbatim>\<open>message/\<close> and \<^verbatim>\<open>resolver/messages.go\<close>: signing, verifying, age, identifiers, and the JSON in
    which the type of the payload is chosen by the reader.
  \<^item> \<open>Resolver\<close>: \<^verbatim>\<open>resolver/resolver.go\<close> (locales \<open>name_table\<close> and, with \<open>Manage\<close>, \<open>name_resolver\<close>), the resolver
    and the backend in memory.
  \<^item> \<open>Node\<close>, \<open>Dag\<close>, \<open>DagVerify\<close>, \<open>DagBackend\<close>, \<open>DagHeads\<close>, \<open>DagSample\<close>, \<open>DagProps\<close>, \<open>DagSpec\<close>, \<open>DagRace\<close>,
    \<open>DagOrder\<close>: \<^verbatim>\<open>dag/\<close>.
    \<open>Dag\<close> has the operations, over a record of the store's and the resolver's operations; \<open>DagVerify\<close> the declarative
    specification of \<open>VerifyNode\<close>; \<open>DagBackend\<close> and \<open>DagHeads\<close> what the operations do over every
    store and resolver with the laws of the locale \<open>dag_writer\<close> (\<open>dag_backend\<close> adds those of \<open>Manage\<close>), and when they
    succeed (\<open>dag_writable\<close>); \<open>DagProps\<close> the states that are reachable with the store and resolver in memory, and
    their invariant; \<open>DagSpec\<close> an abstract graph that they refine; \<open>DagRace\<close> calls of \<open>Append\<close> at the same time; \<open>DagOrder\<close>
    where the keys that nodes name lead: the order of the previous nodes, and the rings that branch roots can close.
  \<^item> \<open>Graph\<close>, \<open>Timeline\<close>, \<open>GraphProps\<close>, \<open>Iterator\<close>: \<^verbatim>\<open>graph/\<close>: posting, reading, the iterator, whole runs of an owner, and
    the end of the iterator over anyone's nodes.
  \<^item> \<open>Event\<close>: \<^verbatim>\<open>event/\<close>: subscriptions, the manager, its factory, its event loop.  \<open>EventRace\<close>: goroutines that run the operations
    on the subscriptions at the same time, access by access with the mutex, and \<open>Next\<close> with the event loop at its channel.
  \<^item> \<open>IpfsResolver\<close>, \<open>IpfsProps\<close>, \<open>IpfsSample\<close>: \<^verbatim>\<open>resolver/ipfs_resolver.go\<close> as a step relation over its operations,
    the messages of the network and the goroutines that wait before they answer; a concrete network of two peers.
    \<open>IpfsTypes\<close>: the references of its state are valid, and no message panics; \<open>IpfsLiveness\<close>: what happens in the end
    in its fair runs; \<open>IpfsAttacks\<close>: what a peer without keys can do; \<open>IpfsRace\<close>: goroutines that come between the two
    accesses of \<open>subscribe\<close> or of \<open>canSendResolution\<close>.
  \<^item> \<open>DagPeer\<close>, \<open>DagIo\<close>, \<open>PeerSample\<close>, \<open>Follower\<close>: a \<open>Dag\<close> on that resolver and any store (locale \<open>dag_peer\<close>), as the
    program is put together: what one peer appends another one reads, a node or a whole timeline.  \<open>DagIo\<close> has the
    operations of \<open>Dag\<close> with a \<open>Resolve\<close> that changes the state (locales \<open>unseen_resolve\<close> and \<open>pure_resolve\<close>).
  \<^item> \<open>ManagedNames\<close>: that resolver on any backend with the laws of the interface below.
  \<^item> \<open>NameBackends\<close>, \<open>IpfsBackends\<close>, \<open>BackendSample\<close>: the interface of the backends (locale \<open>name_backend\<close>),
    \<^verbatim>\<open>resolver/bolt_backend.go\<close>, \<^verbatim>\<open>resolver/ipfs_backend.go\<close>, \<^verbatim>\<open>datastore/ipfs-data-store.go\<close>.
  \<^item> \<open>Util\<close>: \<^verbatim>\<open>internal/util/rand.go\<close>, \<^verbatim>\<open>internal/multihash/id.go\<close>.

  \<^bold>\<open>What is shown\<close>

  \<^item> Timelines (C1, C11, C18, C29, C31): an owner can always post unless a digest collides, the iterator gives the posts
    newest first and ends, a post is found again, the 32-bit sequence numbers run out after -1, and a root that
    cannot be read is replaced.
  \<^item> Graphs (C5 to C9, C20, C25 to C27, C30, C35, C36): what is accepted, that an accepted node becomes the head and that
    nothing else changes, that branches do not fork when appends come one after the other and can when they do not,
    that stored nodes are immutable and all accounted for, the refinement of the abstract graph, what a failed
    append can leave behind, and that it makes no difference to a graph what resolving leaves in the resolver; and when the full path of a node ends.
  \<^item> The network (C2 to C4, C10, C12 to C14, C19, C21 to C24, C34): a query from peer to peer and back, and that every query
    that can be answered is answered in the end; a node appended at one peer and read at another, and a timeline
    followed; what the caches can hold; that no message changes a managed name or panics, up to what the backend
    does; who is answered; what goroutines do to each other; and what is not checked: anyone's key resolves any
    name, so that any node can be shown as the head of a branch.
  \<^item> Events (C15 to C17, C28): what is emitted is received; when the maps of the subscriptions race, that their operations
    are atomic otherwise, and when \<open>Next\<close> blocks the event loop for ever.
  \<^item> Encodings and keys (C32, C33, C39, C40): round trips of nodes and messages; when checking an address panics; what a
    signature does not cover.
  \<^item> Storage (C37, C38): what the IPFS store does not give back, and what its backend loses.

  Further theorems are no properties of the list: \<open>base58_decode_encode\<close>, \<open>decrypt_encrypt\<close>, \<open>rand_string_returns\<close>,
  \<open>bolt_last_value\<close>, \<open>iterator_from\<close>, \<open>query_answered_once\<close>, \<open>racing_answers\<close>, \<open>append_keeps_other_heads\<close>, and in \<open>Address\<close>,
  \<open>Message\<close>, \<open>DagProps\<close> and \<open>Cache\<close> when an address is valid, that signed messages verify, that names are different, and how long a
  record lives.

  \<^bold>\<open>Conventions\<close>

  A function that can fail returns a \<open>result\<close>; one that changes a state is an \<open>io\<close>, and a failed one returns the state it
  leaves.  Nil dereferences and slices out of range are \<open>Panic\<close>.  Go's maps are maps, or lists of pairs where the order
  in which the code walks them matters; that order is then an argument.  Sequence numbers are 32-bit words, the
  numbers of \<open>RandString\<close> 64-bit words, and \<^verbatim>\<open>big.Int\<close> is a natural number.  Randomness, clocks and identifiers are arguments.
  Contexts appear only where the code looks at them.  Locks make the operations they guard atomic; what is not guarded
  is atomic too, except \<open>Append\<close> in \<open>DagRace\<close>, the subscriptions and \<open>Next\<close> in \<open>EventRace\<close>, and \<open>subscribe\<close> and
  \<open>canSendResolution\<close> in \<open>IpfsRace\<close>, which shows that undisturbed they do what the atomic ones do.  A run is fair (\<open>fair_run\<close>) when no goroutine that can go on is passed
  over for ever.

  Loops: the reading loop of \<open>getNodeByKey\<close>, the loops of Base58 and the printers and parsers are total functions.  The
  iterator (\<open>all_loop\<close>) and \<open>getFullPath\<close> follow keys through the store, and \<open>RandString\<close> may wait for letters for ever:
  they are partial functions.  The iterator always ends, since a node is stored after its previous node (C31); \<open>getFullPath\<close> ends
  unless the branch roots, which nothing checks, close a ring of hashes (C36); \<open>rand_string_returns\<close> has the condition for
  \<open>RandString\<close>.  The wait of a query is over the list of what its polls see.

  Hypotheses about code that is not in the repository are named: \<open>digest_sizes\<close> and \<open>ecdsa_signs\<close> for the cryptography,
  \<open>on_bus\<close> and, for what returns at all, \<open>calm\<close> for the publish and subscribe service, \<open>bolt_laws\<close>, \<open>mfs_laws\<close>, \<open>unlink_laws\<close>, \<open>entry_laws\<close>
  and \<open>cid_laws\<close> for the databases; \<open>sample_env\<close>, \<open>sample_config\<close>, \<open>memory_bolt\<close> and \<open>memory_node\<close> are executable instances on which the
  witnesses run.

  \<^bold>\<open>Not modelled\<close>

  Logging; the mocks, which are generated, and the tests; the libraries behind the parameters (IPFS, Bolt, XDR, x509,
  the curves); the lengths of the pauses of the back-off and of the answers, of which only the order of what happens is
  kept; what Go's runtime does in a data race, where the runs of \<open>EventRace\<close> stop.  The lines of the implementation that
  no definition stands for are package clauses and imports, declarations of interfaces, logging, and the mocks.
\<close>

end
